(* ===== verification/Waste_Prelude.thy ===== *)
theory Waste_Prelude
  imports Complex_Main "HOL-Library.Monad_Syntax" "HOL-Library.Code_Target_Nat"
begin

text \<open>
  The parts of JavaScript that the browser runtime of WASTE relies on, shared by every
  component theory:
  \<^item> numbers: a finite Number that is not a bit pattern is the rational it denotes; every
    arithmetic result is rounded to binary64 by \<open>js_round\<close> (round to nearest, ties to even,
    53 significant bits, least exponent -1074). Operations that JavaScript performs on int32
    go through \<open>to_int32\<close>, which is the abstract operation \<open>ToInt32\<close>;
  \<^item> the string-to-number conversion \<open>Number(text)\<close> as \<open>to_number\<close>, and its finite values as
    \<open>js_number\<close>. Strings are lists of code points, as \<open>codePointAt\<close> delivers them;
  \<^item> arrays: reads and writes at an arbitrary Number, where a key that is no array index
    leaves the elements alone, and \<open>copyWithin\<close>;
  \<^item> errors: a thrown exception is \<open>Inl\<close> of the error, a normal completion \<open>Inr\<close> of the value.
  The named collection \<open>js_num\<close> holds the facts that remove rounding from integer arithmetic.
\<close>

named_theorems js_num
named_theorems js_arr

subsection \<open>Completions\<close>

datatype js_error =
    RangeError string
  | SyntaxError string
  | TypeError string
  | Error string

type_synonym 'a completion = "js_error + 'a"

definition bind_c :: "'a completion \<Rightarrow> ('a \<Rightarrow> 'b completion) \<Rightarrow> 'b completion" where
  "bind_c r f = (case r of Inl e \<Rightarrow> Inl e | Inr v \<Rightarrow> f v)"

lemma bind_c_simps [simp]:
  "bind_c (Inl e) f = Inl e"
  "bind_c (Inr v) f = f v"
  by (simp_all add: bind_c_def)

lemma bind_c_InrE [elim]:
  assumes "bind_c r f = Inr w"
  obtains v where "r = Inr v" and "f v = Inr w"
  using assms by (cases r) auto

subsection \<open>Bit lengths and binary exponents\<close>

text \<open>\<open>n.toString(2).length\<close> of a non-negative integer.\<close>

fun bit_len :: "nat \<Rightarrow> nat" where
  "bit_len n = (if n < 2 then 1 else Suc (bit_len (n div 2)))"

declare bit_len.simps [simp del]

lemma bit_len_pos [simp]: "0 < bit_len n"
  by (subst bit_len.simps) simp

lemma bit_len_bounds:
  "0 < n \<Longrightarrow> 2 ^ (bit_len n - 1) \<le> n \<and> n < 2 ^ bit_len n"
proof (induction n rule: bit_len.induct)
  case (1 n)
  show ?case
  proof (cases "n < 2")
    case True
    with "1.prems" have "n = 1" by simp
    then show ?thesis by (simp add: bit_len.simps)
  next
    case False
    then have pos: "0 < n div 2" by simp
    with "1.IH" False
    have ih: "2 ^ (bit_len (n div 2) - 1) \<le> n div 2 \<and> n div 2 < 2 ^ bit_len (n div 2)"
      by blast
    obtain k where k: "bit_len (n div 2) = Suc k"
      using bit_len_pos [of "n div 2"] by (cases "bit_len (n div 2)") auto
    from False have "bit_len n = Suc (Suc k)"
      by (subst bit_len.simps) (simp add: k)
    with ih k show ?thesis by auto
  qed
qed

lemma bit_len_unique:
  assumes "2 ^ k \<le> n" and "n < 2 ^ Suc k"
  shows "bit_len n = Suc k"
proof -
  have "0 < n" using assms(1) by (metis gr0I leD zero_less_numeral zero_less_power)
  from bit_len_bounds [OF this]
  have lo: "2 ^ (bit_len n - 1) \<le> n" and hi: "n < 2 ^ bit_len n" by auto
  from lo assms(2) have "(2::nat) ^ (bit_len n - 1) < 2 ^ Suc k" by (rule le_less_trans)
  then have "bit_len n - 1 < Suc k" by (rule power_less_imp_less_exp [rotated]) simp
  moreover from assms(1) hi have "(2::nat) ^ k < 2 ^ bit_len n" by (rule le_less_trans)
  then have "k < bit_len n" by (rule power_less_imp_less_exp [rotated]) simp
  ultimately show ?thesis by linarith
qed

lemma bit_len_bounds_rat:
  assumes "0 < n"
  shows "(2::rat) powi (int (bit_len n) - 1) \<le> of_nat n"
    and "of_nat n < (2::rat) powi int (bit_len n)"
proof -
  note b = bit_len_bounds [OF assms]
  from b have "(of_nat (2 ^ (bit_len n - 1)) :: rat) \<le> of_nat n"
    by (simp only: of_nat_le_iff)
  moreover have "nat (int (bit_len n) - 1) = bit_len n - 1"
    using bit_len_pos [of n] by linarith
  ultimately show "(2::rat) powi (int (bit_len n) - 1) \<le> of_nat n"
    using bit_len_pos [of n] by (simp add: power_int_def)
  from b have "(of_nat n :: rat) < of_nat (2 ^ bit_len n)"
    by (simp only: of_nat_less_iff)
  then show "of_nat n < (2::rat) powi int (bit_len n)"
    by simp
qed

text \<open>The exponent \<open>e\<close> with \<open>2 ^ e \<le> n / d < 2 ^ (e + 1)\<close>, from the two bit lengths.\<close>

definition ratio_log2 :: "nat \<Rightarrow> nat \<Rightarrow> int" where
  "ratio_log2 n d =
     (let e = int (bit_len n) - int (bit_len d)
      in if (if 0 \<le> e then n < d * 2 ^ nat e else n * 2 ^ nat (- e) < d) then e - 1 else e)"

lemma powi_pos [simp]: "0 < (2::rat) powi e"
  by (simp add: zero_less_power_int)

lemma two_powi_nat: "0 \<le> e \<Longrightarrow> (2::rat) powi e = 2 ^ nat e"
  by (simp add: power_int_def)

lemma two_powi_neg: "e < 0 \<Longrightarrow> (2::rat) powi e = 1 / 2 ^ nat (- e)"
  by (simp add: power_int_def field_simps)

lemma two_powi_add: "(2::rat) powi (a + b) = 2 powi a * 2 powi b"
  by (simp add: power_int_add)

lemma two_powi_Suc: "(2::rat) powi (e + 1) = 2 * 2 powi e"
  by (simp add: power_int_add)

lemma two_powi_mono: "a \<le> b \<Longrightarrow> (2::rat) powi a \<le> 2 powi b"
  by (simp add: power_int_increasing)

lemma two_powi_less_iff: "(2::rat) powi a < 2 powi b \<longleftrightarrow> a < b"
  by (meson linorder_not_le power_int_strict_increasing order_less_le one_less_numeral_iff
        semiring_norm(76) two_powi_mono)

lemma of_nat_less_rat_div:
  "0 < d \<Longrightarrow> of_nat n / of_nat d < (2::rat) powi e \<longleftrightarrow>
     (if 0 \<le> e then n < d * 2 ^ nat e else n * 2 ^ nat (- e) < d)"
proof -
  assume d: "0 < d"
  show ?thesis
  proof (cases "0 \<le> e")
    case True
    have "of_nat n / of_nat d < (2::rat) powi e \<longleftrightarrow> of_nat n < (of_nat (d * 2 ^ nat e) :: rat)"
      using d True by (simp add: two_powi_nat field_simps)
    then show ?thesis using True by (simp only: of_nat_less_iff if_True)
  next
    case False
    have "of_nat n / of_nat d < (2::rat) powi e \<longleftrightarrow> (of_nat (n * 2 ^ nat (- e)) :: rat) < of_nat d"
      using d False by (simp add: two_powi_neg field_simps)
    then show ?thesis using False by (simp only: of_nat_less_iff if_False)
  qed
qed

lemma ratio_log2_bounds:
  assumes "0 < n" and "0 < d"
  shows "(2::rat) powi ratio_log2 n d \<le> of_nat n / of_nat d"
    and "of_nat n / of_nat d < (2::rat) powi (ratio_log2 n d + 1)"
proof -
  define a where "a = bit_len n"
  define b where "b = bit_len d"
  define e where "e = int a - int b"
  let ?q = "of_nat n / of_nat d :: rat"
  have ab: "0 < a" "0 < b" by (simp_all add: a_def b_def)
  note n = bit_len_bounds_rat [OF assms(1), folded a_def]
  note d = bit_len_bounds_rat [OF assms(2), folded b_def]
  have dpos: "0 < (of_nat d :: rat)" using assms by simp
  have low: "(2::rat) powi (e - 1) \<le> ?q"
  proof -
    have "(2::rat) powi (e - 1) * of_nat d \<le> 2 powi (e - 1) * 2 powi int b"
      using d(2) by (simp add: mult_left_mono)
    also have "\<dots> = 2 powi (int a - 1)"
      by (simp only: two_powi_add [symmetric]) (simp add: e_def)
    also have "\<dots> \<le> of_nat n" by (rule n(1))
    finally show ?thesis using dpos by (simp add: field_simps)
  qed
  have high: "?q < (2::rat) powi (e + 1)"
  proof -
    have "of_nat n < (2::rat) powi int a" by (rule n(2))
    also have "\<dots> = 2 powi (e + 1) * 2 powi (int b - 1)"
      by (simp only: two_powi_add [symmetric]) (simp add: e_def)
    also have "\<dots> \<le> 2 powi (e + 1) * of_nat d"
      using d(1) by (simp add: mult_left_mono)
    finally show ?thesis using dpos by (simp add: field_simps)
  qed
  have def: "ratio_log2 n d = (if ?q < 2 powi e then e - 1 else e)"
    using of_nat_less_rat_div [OF assms(2), of n e]
    by (simp add: ratio_log2_def Let_def e_def a_def b_def)
  show "(2::rat) powi ratio_log2 n d \<le> ?q"
    using def low by simp
  show "?q < (2::rat) powi (ratio_log2 n d + 1)"
    using def high by simp
qed

subsection \<open>Rounding to nearest, ties to even\<close>

definition round_half_even :: "rat \<Rightarrow> int" where
  "round_half_even q =
     (let f = \<lfloor>q\<rfloor>; r = q - of_int f
      in if r > 1 / 2 \<or> (r = 1 / 2 \<and> odd f) then f + 1 else f)"

lemma round_half_even_of_int [simp]: "round_half_even (of_int k) = k"
  by (simp add: round_half_even_def)

lemma round_half_even_error: "\<bar>of_int (round_half_even q) - q\<bar> \<le> 1 / 2"
proof -
  define f where "f = \<lfloor>q\<rfloor>"
  have "of_int f \<le> q" "q < of_int f + 1" unfolding f_def by linarith+
  then show ?thesis
    unfolding round_half_even_def f_def [symmetric] Let_def
    by (auto simp: abs_le_iff field_simps)
qed

lemma round_half_even_tie:
  "\<bar>of_int (round_half_even q) - q\<bar> = 1 / 2 \<Longrightarrow> even (round_half_even q)"
proof -
  assume a: "\<bar>of_int (round_half_even q) - q\<bar> = 1 / 2"
  define f where "f = \<lfloor>q\<rfloor>"
  have b: "of_int f \<le> q" "q < of_int f + 1" unfolding f_def by linarith+
  show ?thesis
    using a b unfolding round_half_even_def f_def [symmetric] Let_def
    by (auto simp: abs_if field_simps split: if_splits)
qed

lemma round_half_even_le: "q \<le> of_int k \<Longrightarrow> round_half_even q \<le> k"
proof -
  assume q: "q \<le> of_int k"
  show ?thesis
  proof (cases "q = of_int k")
    case True
    then show ?thesis by simp
  next
    case False
    with q have "q < of_int k" by simp
    then have "\<lfloor>q\<rfloor> < k" by (simp add: floor_less_iff)
    then show ?thesis by (auto simp: round_half_even_def Let_def)
  qed
qed

lemma round_half_even_ge: "of_int k \<le> q \<Longrightarrow> k \<le> round_half_even q"
proof -
  assume "of_int k \<le> q"
  then have "k \<le> \<lfloor>q\<rfloor>" by (simp add: le_floor_iff)
  then show ?thesis by (auto simp: round_half_even_def Let_def)
qed

text \<open>
  Rounding into a binary format of \<open>p\<close> significant bits whose least exponent is \<open>emin\<close>
  (binary32 is \<open>24, -149\<close>, binary64 is \<open>53, -1074\<close>), without an upper limit on the exponent.
\<close>

definition rat_log2 :: "rat \<Rightarrow> int" where
  "rat_log2 q = (let (n, d) = quotient_of q in ratio_log2 (nat n) (nat d))"

definition unit_exp :: "int \<Rightarrow> int \<Rightarrow> rat \<Rightarrow> int" where
  "unit_exp p emin q = max (rat_log2 \<bar>q\<bar> - (p - 1)) emin"

definition round_to :: "int \<Rightarrow> int \<Rightarrow> rat \<Rightarrow> rat" where
  "round_to p emin q =
     (if q = 0 then 0
      else let s = unit_exp p emin q
           in sgn q * of_int (round_half_even (\<bar>q\<bar> / 2 powi s)) * 2 powi s)"

definition js_round :: "rat \<Rightarrow> rat" where
  "js_round q = round_to 53 (-1074) q"

lemma rat_log2_bounds:
  assumes "0 < q"
  shows "2 powi rat_log2 q \<le> q" and "q < 2 powi (rat_log2 q + 1)"
proof -
  obtain n d where nd: "quotient_of q = (n, d)" by (cases "quotient_of q")
  then have d: "0 < d" and q: "q = of_int n / of_int d"
    using quotient_of_denom_pos quotient_of_div by auto
  with assms have n: "0 < n" by (simp add: zero_less_divide_iff)
  have q': "q = of_nat (nat n) / of_nat (nat d)" using q n d by simp
  have l: "rat_log2 q = ratio_log2 (nat n) (nat d)" by (simp add: rat_log2_def nd)
  show "2 powi rat_log2 q \<le> q" and "q < 2 powi (rat_log2 q + 1)"
    using ratio_log2_bounds [of "nat n" "nat d"] n d q' l by simp_all
qed

lemma rat_log2_unique:
  assumes "2 powi e \<le> q" and "q < 2 powi (e + 1)"
  shows "rat_log2 q = e"
proof -
  have "0 < q" using assms(1) powi_pos [of e] by linarith
  note b = rat_log2_bounds [OF this]
  from assms(1) b(2) have "(2::rat) powi e < 2 powi (rat_log2 q + 1)" by (rule le_less_trans)
  moreover from b(1) assms(2) have "(2::rat) powi rat_log2 q < 2 powi (e + 1)" by (rule le_less_trans)
  ultimately show ?thesis by (simp add: two_powi_less_iff)
qed

lemma rat_log2_int_nonneg: "k \<noteq> 0 \<Longrightarrow> 0 \<le> rat_log2 \<bar>of_int k\<bar>"
proof -
  assume "k \<noteq> 0"
  then have "(1::rat) \<le> \<bar>of_int k\<bar>" by simp
  also have "\<bar>of_int k\<bar> < (2::rat) powi (rat_log2 \<bar>of_int k\<bar> + 1)"
    using \<open>k \<noteq> 0\<close> by (intro rat_log2_bounds) simp
  finally have "(2::rat) powi 0 < 2 powi (rat_log2 \<bar>of_int k\<bar> + 1)" by simp
  then show ?thesis by (simp only: two_powi_less_iff)
qed

lemma round_to_multiple:
  assumes "unit_exp p emin (of_int k) \<le> 0"
  shows "round_to p emin (of_int k) = of_int k"
proof (cases "k = 0")
  case True
  then show ?thesis by (simp add: round_to_def)
next
  case False
  define s where "s = unit_exp p emin (of_int k)"
  have s: "s \<le> 0" using assms by (simp add: s_def)
  have "\<bar>of_int k\<bar> / (2::rat) powi s = of_int (\<bar>k\<bar> * 2 ^ nat (- s))"
    using s by (cases "s = 0") (simp_all add: power_int_def field_simps)
  then have "round_half_even (\<bar>of_int k\<bar> / 2 powi s) = \<bar>k\<bar> * 2 ^ nat (- s)"
    by (simp only: round_half_even_of_int)
  moreover have "(of_int (2 ^ nat (- s)) :: rat) * 2 powi s = 1"
    using s by (cases "s = 0") (simp_all add: power_int_def field_simps)
  ultimately have "round_to p emin (of_int k) = sgn (of_int k) * of_int \<bar>k\<bar>"
    using False by (simp add: round_to_def s_def [symmetric] Let_def mult.assoc)
  also have "\<dots> = of_int k" by (simp add: sgn_if)
  finally show ?thesis .
qed

lemma js_round_of_int_small:
  assumes "\<bar>k\<bar> < 2 ^ 53"
  shows "js_round (of_int k) = of_int k"
proof (cases "k = 0")
  case True
  then show ?thesis by (simp add: js_round_def round_to_def)
next
  case False
  have "(2::rat) powi rat_log2 \<bar>of_int k\<bar> \<le> \<bar>of_int k\<bar>"
    using False by (intro rat_log2_bounds) simp
  also have "(of_int \<bar>k\<bar> :: rat) < of_int (2 ^ 53)"
    using assms by (simp only: of_int_less_iff)
  then have "\<bar>of_int k\<bar> < (2::rat) powi 53" by simp
  finally have "rat_log2 \<bar>of_int k\<bar> < 53" by (simp only: two_powi_less_iff)
  then have "unit_exp 53 (-1074) (of_int k) \<le> 0" by (simp add: unit_exp_def)
  then show ?thesis unfolding js_round_def by (rule round_to_multiple)
qed

text \<open>Small integers, the common case, are evaluated without a search for the exponent.\<close>

lemma js_round_code [code]:
  "js_round q = (let (n, d) = quotient_of q
                 in if d = 1 \<and> \<bar>n\<bar> < 9007199254740992 then q else round_to 53 (-1074) q)"
proof (cases "quotient_of q")
  case (Pair n d)
  then have "d = 1 \<Longrightarrow> q = of_int n" using quotient_of_div [OF Pair] by simp
  then show ?thesis
    using Pair js_round_of_int_small [of n] by (auto simp: js_round_def)
qed

lemma js_round_Ints: "q \<in> \<int> \<Longrightarrow> js_round q \<in> \<int>"
proof -
  assume "q \<in> \<int>"
  then obtain k where k: "q = of_int k" by (rule Ints_cases)
  show ?thesis
  proof (cases "unit_exp 53 (-1074) q \<le> 0")
    case True
    then show ?thesis using k by (simp add: js_round_def round_to_multiple)
  next
    case False
    then have "(2::rat) powi unit_exp 53 (-1074) q \<in> \<int>"
      by (simp add: two_powi_nat)
    then show ?thesis
      by (auto simp: js_round_def round_to_def Let_def sgn_if intro!: Ints_mult)
  qed
qed

lemma round_to_error:
  "q \<noteq> 0 \<Longrightarrow> \<bar>round_to p emin q - q\<bar> \<le> 2 powi unit_exp p emin q / 2"
proof -
  assume q: "q \<noteq> 0"
  define s where "s = unit_exp p emin q"
  define r where "r = (of_int (round_half_even (\<bar>q\<bar> / 2 powi s)) :: rat)"
  have e: "\<bar>r - \<bar>q\<bar> / 2 powi s\<bar> \<le> 1 / 2" unfolding r_def by (rule round_half_even_error)
  have split: "round_to p emin q - q = sgn q * (r - \<bar>q\<bar> / 2 powi s) * 2 powi s"
  proof -
    have "round_to p emin q = sgn q * r * 2 powi s"
      using q by (simp add: round_to_def r_def s_def Let_def)
    moreover have "q = sgn q * \<bar>q\<bar>" by (simp add: mult_sgn_abs)
    moreover have "sgn q * \<bar>q\<bar> = sgn q * (\<bar>q\<bar> / 2 powi s) * 2 powi s"
      using powi_pos [of s] by simp
    ultimately show ?thesis by (simp add: algebra_simps)
  qed
  have "\<bar>sgn q\<bar> = 1" using q by (simp add: sgn_if)
  then have "\<bar>round_to p emin q - q\<bar> = \<bar>r - \<bar>q\<bar> / 2 powi s\<bar> * 2 powi s"
    unfolding split abs_mult using powi_pos [of s] by simp
  also have "\<dots> \<le> 1 / 2 * 2 powi s"
    using e by (intro mult_right_mono) simp_all
  finally show ?thesis by (simp add: s_def)
qed

lemma js_round_error:
  assumes "1 / 2 ^ 64 \<le> q"
  shows "\<bar>js_round q - q\<bar> \<le> q / 2 ^ 53"
proof -
  have q: "0 < q" using assms by (rule less_le_trans [rotated]) simp
  have "(2::rat) powi (-64) \<le> q" using assms by (simp add: power_int_minus)
  also have "q < 2 powi (rat_log2 q + 1)" using q by (rule rat_log2_bounds)
  finally have "- 64 < rat_log2 q + 1" by (simp only: two_powi_less_iff)
  then have "unit_exp 53 (-1074) q = rat_log2 q - 52" using q by (simp add: unit_exp_def)
  then have "\<bar>js_round q - q\<bar> \<le> 2 powi (rat_log2 q - 52) / 2"
    using round_to_error [of q 53 "-1074"] q by (simp add: js_round_def)
  also have "\<dots> = 2 powi rat_log2 q / 2 ^ 53" by (simp add: power_int_diff)
  also have "\<dots> \<le> q / 2 ^ 53" using rat_log2_bounds(1) [OF q] by (simp add: divide_right_mono)
  finally show ?thesis .
qed

definition js_add :: "rat \<Rightarrow> rat \<Rightarrow> rat" where "js_add a b = js_round (a + b)"
definition js_sub :: "rat \<Rightarrow> rat \<Rightarrow> rat" where "js_sub a b = js_round (a - b)"
definition js_mul :: "rat \<Rightarrow> rat \<Rightarrow> rat" where "js_mul a b = js_round (a * b)"

text \<open>Integer arithmetic below \<open>2 ^ 53\<close> is exact.\<close>

lemma js_add_int [js_num]:
  "\<bar>a + b\<bar> < 2 ^ 53 \<Longrightarrow> js_add (of_int a) (of_int b) = of_int (a + b)"
  unfolding js_add_def of_int_add [symmetric] by (rule js_round_of_int_small)

lemma js_sub_int [js_num]:
  "\<bar>a - b\<bar> < 2 ^ 53 \<Longrightarrow> js_sub (of_int a) (of_int b) = of_int (a - b)"
  unfolding js_sub_def of_int_diff [symmetric] by (rule js_round_of_int_small)

lemma js_mul_int [js_num]:
  "\<bar>a * b\<bar> < 2 ^ 53 \<Longrightarrow> js_mul (of_int a) (of_int b) = of_int (a * b)"
  unfolding js_mul_def of_int_mult [symmetric] by (rule js_round_of_int_small)

lemma js_arith_Ints:
  assumes "a \<in> \<int>" and "b \<in> \<int>"
  shows "js_add a b \<in> \<int>" and "js_sub a b \<in> \<int>" and "js_mul a b \<in> \<int>"
  using assms by (simp_all add: js_add_def js_sub_def js_mul_def js_round_Ints)

text \<open>\<open>ToInt32\<close>: truncate towards zero, then reduce modulo \<open>2 ^ 32\<close> into the signed range.\<close>

definition rat_trunc :: "rat \<Rightarrow> int" where
  "rat_trunc q = (if q < 0 then - \<lfloor>- q\<rfloor> else \<lfloor>q\<rfloor>)"

definition wrap32 :: "int \<Rightarrow> int" where
  "wrap32 n = (n + 2 ^ 31) mod 2 ^ 32 - 2 ^ 31"

definition to_int32 :: "rat \<Rightarrow> int" where
  "to_int32 q = wrap32 (rat_trunc q)"

lemma rat_trunc_of_int [simp]: "rat_trunc (of_int k) = k"
  by (simp add: rat_trunc_def)

lemma wrap32_id [simp]: "- (2 ^ 31) \<le> n \<Longrightarrow> n < 2 ^ 31 \<Longrightarrow> wrap32 n = n"
  by (simp add: wrap32_def)

lemma wrap32_range: "- (2 ^ 31) \<le> wrap32 n \<and> wrap32 n < 2 ^ 31"
proof -
  have "0 \<le> (n + 2 ^ 31) mod (2 ^ 32 :: int)" "(n + 2 ^ 31) mod (2 ^ 32 :: int) < 2 ^ 32"
    by simp_all
  then show ?thesis unfolding wrap32_def by simp
qed

lemma to_int32_of_int [js_num]:
  "- (2 ^ 31) \<le> k \<Longrightarrow> k < 2 ^ 31 \<Longrightarrow> to_int32 (of_int k) = k"
  by (simp add: to_int32_def)

text \<open>\<open>value || fallback\<close> on a finite Number.\<close>

definition js_or :: "rat \<Rightarrow> rat \<Rightarrow> rat" where
  "js_or v d = (if v = 0 then d else v)"

subsection \<open>The conversion \<open>Number(text)\<close>\<close>

definition is_digit :: "nat \<Rightarrow> bool" where
  "is_digit c \<longleftrightarrow> 48 \<le> c \<and> c \<le> 57"

definition is_space :: "nat \<Rightarrow> bool" where
  "is_space c \<longleftrightarrow>
     c \<in> {9, 10, 11, 12, 13, 32, 0xA0, 0x1680, 0x2028, 0x2029, 0x202F, 0x205F, 0x3000, 0xFEFF} \<or>
     (0x2000 \<le> c \<and> c \<le> 0x200A)"

definition js_trim :: "nat list \<Rightarrow> nat list" where
  "js_trim cs = rev (dropWhile is_space (rev (dropWhile is_space cs)))"

definition digit_value :: "nat \<Rightarrow> nat" where
  "digit_value c =
     (if 48 \<le> c \<and> c \<le> 57 then c - 48
      else if 97 \<le> c \<and> c \<le> 122 then c - 87
      else if 65 \<le> c \<and> c \<le> 90 then c - 55 else 36)"

definition digits_value :: "nat \<Rightarrow> nat list \<Rightarrow> nat" where
  "digits_value b cs = foldl (\<lambda>n c. n * b + digit_value c) 0 cs"

definition all_digits :: "nat \<Rightarrow> nat list \<Rightarrow> bool" where
  "all_digits b cs \<longleftrightarrow> list_all (\<lambda>c. digit_value c < b) cs"

definition exponent_value :: "nat list \<Rightarrow> int option" where
  "exponent_value cs =
     (let neg = (case cs of c # _ \<Rightarrow> c = 45 | [] \<Rightarrow> False);
          ds = (case cs of c # r \<Rightarrow> if c = 45 \<or> c = 43 then r else cs | [] \<Rightarrow> [])
      in if ds = [] \<or> \<not> list_all is_digit ds then None
         else Some ((if neg then -1 else 1) * int (digits_value 10 ds)))"

definition js_decimal :: "nat list \<Rightarrow> rat option" where
  "js_decimal cs =
     (let ip = takeWhile is_digit cs; r1 = dropWhile is_digit cs;
          fp = (case r1 of c # r \<Rightarrow> if c = 46 then takeWhile is_digit r else [] | [] \<Rightarrow> []);
          r2 = (case r1 of c # r \<Rightarrow> if c = 46 then dropWhile is_digit r else r1 | [] \<Rightarrow> []);
          m = of_nat (digits_value 10 (ip @ fp)) / 10 ^ length fp
      in if ip = [] \<and> fp = [] then None
         else case r2 of
           [] \<Rightarrow> Some m
         | c # r \<Rightarrow> if c = 101 \<or> c = 69 then map_option (\<lambda>e. m * 10 powi e) (exponent_value r)
                   else None)"

definition radix_prefix :: "nat list \<Rightarrow> nat option" where
  "radix_prefix cs =
     (case cs of
        z # x # _ \<Rightarrow>
          if z \<noteq> 48 then None
          else if x = 120 \<or> x = 88 then Some 16
          else if x = 111 \<or> x = 79 then Some 8
          else if x = 98 \<or> x = 66 then Some 2 else None
      | _ \<Rightarrow> None)"

text \<open>
  A Number with its sign: NaN, an infinity, or a finite magnitude. \<open>nearest\<close> rounds an exact
  magnitude to a binary format with \<open>p\<close> significant bits, least exponent \<open>emin\<close> and overflow
  threshold \<open>2 ^ emax\<close>.
\<close>

datatype number = NaN | Infinite bool | Finite bool rat

definition nearest :: "int \<Rightarrow> int \<Rightarrow> int \<Rightarrow> bool \<Rightarrow> rat \<Rightarrow> number" where
  "nearest p emin emax neg q =
     (let r = round_to p emin q in if r \<ge> 2 powi emax then Infinite neg else Finite neg r)"

definition nearest_f32 :: "bool \<Rightarrow> rat \<Rightarrow> number" where
  "nearest_f32 = nearest 24 (-149) 128"

definition nearest_f64 :: "bool \<Rightarrow> rat \<Rightarrow> number" where
  "nearest_f64 = nearest 53 (-1074) 1024"

definition infinity_text :: "nat list" where
  "infinity_text = [73, 110, 102, 105, 110, 105, 116, 121]"

definition to_number :: "nat list \<Rightarrow> number" where
  "to_number cs =
     (let t = js_trim cs
      in case t of
           [] \<Rightarrow> Finite False 0
         | c # r \<Rightarrow>
           (case radix_prefix t of
              Some b \<Rightarrow> (let ds = drop 2 t
                         in if ds \<noteq> [] \<and> all_digits b ds
                            then nearest_f64 False (of_nat (digits_value b ds)) else NaN)
            | None \<Rightarrow>
              (let u = (if c = 45 \<or> c = 43 then r else t)
               in if u = infinity_text then Infinite (c = 45)
                  else case js_decimal u of Some q \<Rightarrow> nearest_f64 (c = 45) q | None \<Rightarrow> NaN)))"

definition js_number :: "nat list \<Rightarrow> rat option" where
  "js_number cs =
     (case to_number cs of Finite neg q \<Rightarrow> Some (if neg then - q else q) | _ \<Rightarrow> None)"

lemma set_js_trim: "set (js_trim cs) \<subseteq> set cs"
proof -
  have "set (js_trim cs) \<subseteq> set (dropWhile is_space cs)"
    unfolding js_trim_def set_rev using set_dropWhileD by fastforce
  also have "\<dots> \<subseteq> set cs" using set_dropWhileD by fastforce
  finally show ?thesis .
qed

lemma js_decimal_Ints:
  assumes "46 \<notin> set cs" "101 \<notin> set cs" "69 \<notin> set cs" and "js_decimal cs = Some v"
  shows "v \<in> \<int>"
proof -
  have sub: "set (dropWhile is_digit cs) \<subseteq> set cs" using set_dropWhileD by fastforce
  show ?thesis
  proof (cases "dropWhile is_digit cs")
    case Nil
    with assms(4) show ?thesis by (auto simp: js_decimal_def Let_def split: if_splits)
  next
    case (Cons c r)
    with sub assms(1-3) have "c \<noteq> 46" "c \<noteq> 101" "c \<noteq> 69" by auto
    with assms(4) Cons show ?thesis by (auto simp: js_decimal_def Let_def split: if_splits)
  qed
qed

lemma round_to_le_53:
  assumes "0 \<le> q" and "q < 2 ^ 53"
  shows "round_to 53 (-1074) q \<le> 2 ^ 53"
proof (cases "q = 0")
  case False
  let ?s = "unit_exp 53 (-1074) q"
  have "2 powi rat_log2 q \<le> q" using assms False by (intro rat_log2_bounds) simp
  also have "q < 2 powi 53" using assms(2) by simp
  finally have "rat_log2 q < 53" by (simp only: two_powi_less_iff)
  then have s: "?s \<le> 0" using assms(1) by (simp add: unit_exp_def)
  define k where "k = nat (- ?s)"
  have k: "(2::rat) powi ?s = 1 / 2 ^ k" using s
    by (cases "?s = 0") (simp_all add: k_def two_powi_neg)
  have "q / 2 powi ?s \<le> of_int (2 ^ (53 + k))"
    using assms(2) by (simp add: k power_add)
  then have "of_int (round_half_even (q / 2 powi ?s)) \<le> (of_int (2 ^ (53 + k)) :: rat)"
    unfolding of_int_le_iff by (rule round_half_even_le)
  then have "of_int (round_half_even (q / 2 powi ?s)) * 2 powi ?s \<le> of_int (2 ^ (53 + k)) * (2::rat) powi ?s"
    by (rule mult_right_mono) simp
  also have "\<dots> = 2 ^ 53" by (simp add: k power_add)
  finally show ?thesis using False assms(1) by (simp add: round_to_def Let_def)
qed (simp add: round_to_def)

lemma nearest_f64_code [code]:
  "nearest_f64 neg q =
     (if 0 \<le> q \<and> q < 9007199254740992 then Finite neg (js_round q) else nearest 53 (-1074) 1024 neg q)"
proof (cases "0 \<le> q \<and> q < 9007199254740992")
  case True
  then have "round_to 53 (-1074) q \<le> 2 ^ 53" by (intro round_to_le_53) simp_all
  also have "\<dots> = (2::rat) powi 53" by simp
  also have "\<dots> < 2 powi 1024" by (simp only: two_powi_less_iff)
  finally show ?thesis using True by (simp add: nearest_f64_def nearest_def js_round_def Let_def)
qed (auto simp: nearest_f64_def)

lemma nearest_f64_Ints: "q \<in> \<int> \<Longrightarrow> nearest_f64 neg q = Finite neg' v \<Longrightarrow> v \<in> \<int>"
  using js_round_Ints [of q]
  by (auto simp: nearest_f64_def nearest_def Let_def js_round_def split: if_splits)

lemma js_number_Ints:
  assumes "46 \<notin> set cs" "101 \<notin> set cs" "69 \<notin> set cs" and "js_number cs = Some v"
  shows "v \<in> \<int>"
proof (cases "js_trim cs")
  case Nil
  with assms(4) show ?thesis by (auto simp: js_number_def to_number_def)
next
  case (Cons c r)
  with set_js_trim [of cs] have "set r \<subseteq> set cs" "set (c # r) \<subseteq> set cs" by auto
  with assms(1-3) have
    r: "\<And>w. js_decimal r = Some w \<Longrightarrow> w \<in> \<int>" and
    cr: "\<And>w. js_decimal (c # r) = Some w \<Longrightarrow> w \<in> \<int>"
    using js_decimal_Ints by blast+
  from assms(4) obtain neg q where q: "to_number cs = Finite neg q" "v = (if neg then - q else q)"
    by (auto simp: js_number_def split: number.splits)
  from q(1) have "q \<in> \<int>"
    unfolding to_number_def Cons Let_def list.case
    by (auto split: option.splits if_splits
        intro: nearest_f64_Ints [OF Ints_of_nat] dest: nearest_f64_Ints dest!: r cr)
  then show ?thesis by (simp add: q(2))
qed

subsection \<open>Arrays\<close>

text \<open>
  An array element access \<open>a[q]\<close> at a Number \<open>q\<close>: only a non-negative integer is an array
  index; any other key names a property that is no element. Such properties are left out: a store to one
  is dropped and a read of one gives \<open>undefined\<close>. Only a fractional count of a control sequence makes one.
\<close>

definition is_index :: "rat \<Rightarrow> bool" where
  "is_index q \<longleftrightarrow> 0 \<le> q \<and> of_int \<lfloor>q\<rfloor> = q"

definition js_get :: "'a \<Rightarrow> 'a list \<Rightarrow> rat \<Rightarrow> 'a" where
  "js_get undef xs q =
     (if is_index q \<and> nat \<lfloor>q\<rfloor> < length xs then xs ! nat \<lfloor>q\<rfloor> else undef)"

definition js_set :: "'a \<Rightarrow> 'a list \<Rightarrow> rat \<Rightarrow> 'a \<Rightarrow> 'a list" where
  "js_set undef xs q v =
     (if \<not> is_index q then xs
      else if nat \<lfloor>q\<rfloor> < length xs then xs[nat \<lfloor>q\<rfloor> := v]
      else xs @ replicate (nat \<lfloor>q\<rfloor> - length xs) undef @ [v])"

text \<open>\<open>xs.copyWithin(target, start, end)\<close>: a memory move, with relative indices.\<close>

definition rel_index :: "int \<Rightarrow> int \<Rightarrow> int" where
  "rel_index len i = (if i < 0 then max (len + i) 0 else min i len)"

definition copy_within :: "'a list \<Rightarrow> rat \<Rightarrow> rat \<Rightarrow> rat \<Rightarrow> 'a list" where
  "copy_within xs t s e =
     (let len = int (length xs);
          to = rel_index len (rat_trunc t); from = rel_index len (rat_trunc s);
          final = rel_index len (rat_trunc e);
          count = min (final - from) (len - to)
      in if count \<le> 0 then xs
         else take (nat to) xs @ take (nat count) (drop (nat from) xs)
              @ drop (nat (to + count)) xs)"

text \<open>
  The counting loops \<open>for (let i = lo; i < hi; i++)\<close> and \<open>for (let i = hi; i >= lo; i--)\<close> on
  Numbers, with a bound on the number of rounds. A round moves the counter by at least one
  half (\<open>js_incr_progress\<close>), so \<open>loop_fuel\<close> rounds are enough.
\<close>

definition loop_fuel :: "rat \<Rightarrow> rat \<Rightarrow> nat" where
  "loop_fuel lo hi = nat \<lceil>2 * (hi - lo)\<rceil> + 1"

fun js_for :: "nat \<Rightarrow> rat \<Rightarrow> rat \<Rightarrow> (rat \<Rightarrow> 's \<Rightarrow> 's) \<Rightarrow> 's \<Rightarrow> 's" where
  "js_for 0 i hi f s = s"
| "js_for (Suc n) i hi f s = (if i < hi then js_for n (js_add i 1) hi f (f i s) else s)"

fun js_for_down :: "nat \<Rightarrow> rat \<Rightarrow> rat \<Rightarrow> (rat \<Rightarrow> 's \<Rightarrow> 's) \<Rightarrow> 's \<Rightarrow> 's" where
  "js_for_down 0 i lo f s = s"
| "js_for_down (Suc n) i lo f s =
     (if i \<ge> lo then js_for_down n (js_sub i 1) lo f (f i s) else s)"

fun js_for_ends :: "nat \<Rightarrow> rat \<Rightarrow> rat \<Rightarrow> bool" where
  "js_for_ends 0 i hi = (hi \<le> i)"
| "js_for_ends (Suc n) i hi = (i < hi \<longrightarrow> js_for_ends n (js_add i 1) hi)"

lemma is_index_of_int [simp]: "is_index (of_int k) \<longleftrightarrow> 0 \<le> k"
  by (simp add: is_index_def)

lemma js_get_of_int [js_arr]:
  "0 \<le> k \<Longrightarrow> nat k < length xs \<Longrightarrow> js_get u xs (of_int k) = xs ! nat k"
  by (simp add: js_get_def)

lemma js_set_of_int [js_arr]:
  "0 \<le> k \<Longrightarrow> nat k < length xs \<Longrightarrow> js_set u xs (of_int k) v = xs[nat k := v]"
  by (simp add: js_set_def)

lemma js_for_of_int:
  assumes "\<bar>a\<bar> < 2 ^ 52" "\<bar>b\<bar> < 2 ^ 52" and "nat (b - a) \<le> n"
  shows "js_for n (of_int a) (of_int b) f s = fold f (map of_int [a..b - 1]) s"
  using assms
proof (induction n arbitrary: a s)
  case 0
  then have "[a..b - 1] = []" by simp
  then show ?case by simp
next
  case (Suc n)
  show ?case
  proof (cases "a < b")
    case True
    have "js_add (of_int a) 1 = of_int (a + 1)"
      using js_add_int [of a 1] Suc.prems(1) by simp
    moreover have "[a..b - 1] = a # [a + 1..b - 1]" using True by (simp add: upto_rec1)
    moreover have "js_for n (of_int (a + 1)) (of_int b) f (f (of_int a) s)
        = fold f (map of_int [a + 1..b - 1]) (f (of_int a) s)"
      using Suc.prems True by (intro Suc.IH) auto
    ultimately show ?thesis using True by simp
  next
    case False
    then have "[a..b - 1] = []" by simp
    with False show ?thesis by simp
  qed
qed

lemma js_for_down_of_int:
  assumes "0 \<le> a" "- 1 \<le> b" "b < 2 ^ 52" and "nat (b - a + 1) \<le> n"
  shows "js_for_down n (of_int b) (of_int a) f s = fold f (map of_int (rev [a..b])) s"
  using assms
proof (induction n arbitrary: b s)
  case 0
  then have "[a..b] = []" by simp
  then show ?case by simp
next
  case (Suc n)
  show ?case
  proof (cases "a \<le> b")
    case True
    have "js_sub (of_int b) 1 = of_int (b - 1)"
      using js_sub_int [of b 1] Suc.prems(2,3) by simp
    moreover have "[a..b] = [a..b - 1] @ [b]" using True by (simp add: upto_rec2)
    moreover have "js_for_down n (of_int (b - 1)) (of_int a) f (f (of_int b) s)
        = fold f (map of_int (rev [a..b - 1])) (f (of_int b) s)"
      using Suc.prems True by (intro Suc.IH) auto
    ultimately show ?thesis using True by simp
  next
    case False
    then have "[a..b] = []" by simp
    with False show ?thesis by simp
  qed
qed

lemma js_incr_progress:
  assumes "0 \<le> i" and "i < 2 ^ 52"
  shows "i + 1 / 2 \<le> js_add i 1"
proof -
  let ?q = "i + 1"
  have q: "0 < ?q" using assms by simp
  have "2 powi rat_log2 ?q \<le> ?q" using q by (rule rat_log2_bounds)
  also have "?q < 2 powi 53" using assms by simp
  finally have "rat_log2 ?q < 53" by (simp only: two_powi_less_iff)
  then have "unit_exp 53 (-1074) ?q \<le> 0" using q by (simp add: unit_exp_def)
  then have u: "(2::rat) powi unit_exp 53 (-1074) ?q \<le> 1"
    using two_powi_mono [of "unit_exp 53 (-1074) ?q" 0] by simp
  have "\<bar>js_add i 1 - ?q\<bar> \<le> 2 powi unit_exp 53 (-1074) ?q / 2"
    unfolding js_add_def js_round_def using q by (intro round_to_error) simp
  with u show ?thesis by linarith
qed

lemma js_for_ends_fuel:
  assumes "0 \<le> i" and "hi < 2 ^ 52" and "2 * (hi - i) \<le> of_nat n"
  shows "js_for_ends n i hi"
  using assms
proof (induction n arbitrary: i)
  case 0
  then show ?case by simp
next
  case (Suc n)
  show ?case
  proof (cases "i < hi")
    case True
    then have "i + 1 / 2 \<le> js_add i 1" using Suc.prems by (intro js_incr_progress) simp_all
    moreover from this have "js_for_ends n (js_add i 1) hi"
      using Suc.prems by (intro Suc.IH) simp_all
    ultimately show ?thesis by simp
  next
    case False
    then show ?thesis by simp
  qed
qed

lemma loop_fuel_ends:
  assumes "0 \<le> lo" and "hi < 2 ^ 52"
  shows "js_for_ends (loop_fuel lo hi) lo hi"
proof (rule js_for_ends_fuel [OF assms])
  have "2 * (hi - lo) \<le> of_int \<lceil>2 * (hi - lo)\<rceil>" by (rule le_of_int_ceiling)
  also have "\<dots> \<le> of_nat (loop_fuel lo hi)" unfolding loop_fuel_def by linarith
  finally show "2 * (hi - lo) \<le> of_nat (loop_fuel lo hi)" .
qed

lemma loop_fuel_of_int: "nat (b - a + 1) \<le> loop_fuel (of_int a) (of_int b)"
proof -
  have "\<lceil>2 * (of_int b - of_int a :: rat)\<rceil> = 2 * (b - a)"
    by (metis ceiling_of_int of_int_diff of_int_mult of_int_numeral)
  then have "loop_fuel (of_int a) (of_int b) = nat (2 * (b - a)) + 1"
    by (simp only: loop_fuel_def)
  moreover have "nat (b - a + 1) \<le> nat (2 * (b - a)) + 1"
    by (cases "a \<le> b") (auto simp: nat_add_distrib nat_mult_distrib)
  ultimately show ?thesis by (simp only:)
qed

lemma copy_within_of_int:
  assumes "0 \<le> t" "0 \<le> s" "s \<le> e" "e \<le> int (length xs)" "t + (e - s) \<le> int (length xs)"
  shows "copy_within xs (of_int t) (of_int s) (of_int e) =
           take (nat t) xs @ take (nat (e - s)) (drop (nat s) xs) @ drop (nat (t + (e - s))) xs"
  using assms by (auto simp: copy_within_def rel_index_def Let_def min_def)

lemma length_copy_within [simp]: "length (copy_within xs t s e) = length xs"
proof -
  let ?len = "int (length xs)"
  have r: "0 \<le> rel_index ?len i \<and> rel_index ?len i \<le> ?len" for i
    by (auto simp: rel_index_def)
  show ?thesis
    using r [of "rat_trunc t"] r [of "rat_trunc s"] r [of "rat_trunc e"]
    by (auto simp: copy_within_def Let_def min_def)
qed

end
