(* ===== verification/Utf8.thy ===== *)
theory Utf8
  imports Waste_Prelude
begin

text \<open>
  \<open>TextEncoder\<close> and the streaming UTF-8 \<open>TextDecoder\<close> of the Encoding standard, which every
  component uses to move text across the engine boundary. Bytes and code points are naturals.
  The decoder state is the standard's: bytes needed and seen, the partial code point, the
  bounds of the next byte, and whether the byte order mark has been looked for. A malformed
  sequence yields U+FFFD and the offending byte is decoded again.
  The lemmas show that decoding inverts encoding on scalar values, and that a streamed
  decode does not depend on how the bytes were cut into chunks.
\<close>

definition scalar :: "nat \<Rightarrow> bool" where
  "scalar c \<longleftrightarrow> c < 0xD800 \<or> (0xE000 \<le> c \<and> c < 0x110000)"

definition utf8_encode1 :: "nat \<Rightarrow> nat list" where
  "utf8_encode1 c =
     (if \<not> scalar c then [0xEF, 0xBF, 0xBD]
      else if c < 0x80 then [c]
      else if c < 0x800 then [0xC0 + c div 64, 0x80 + c mod 64]
      else if c < 0x10000 then [0xE0 + c div 4096, 0x80 + c div 64 mod 64, 0x80 + c mod 64]
      else [0xF0 + c div 262144, 0x80 + c div 4096 mod 64, 0x80 + c div 64 mod 64, 0x80 + c mod 64])"

definition utf8_encode :: "nat list \<Rightarrow> nat list" where
  "utf8_encode cs = concat (map utf8_encode1 cs)"

record utf8 =
  u_need :: nat
  u_seen :: nat
  u_point :: nat
  u_lower :: nat
  u_upper :: nat

definition utf8_init :: utf8 where
  "utf8_init = \<lparr>u_need = 0, u_seen = 0, u_point = 0, u_lower = 0x80, u_upper = 0xBF\<rparr>"

definition utf8_lead :: "nat \<Rightarrow> utf8 \<times> nat list" where
  "utf8_lead b =
     (if b < 0x80 then (utf8_init, [b])
      else if 0xC2 \<le> b \<and> b \<le> 0xDF then
        (utf8_init\<lparr>u_need := 1, u_point := b - 0xC0\<rparr>, [])
      else if 0xE0 \<le> b \<and> b \<le> 0xEF then
        (utf8_init\<lparr>u_need := 2, u_point := b - 0xE0,
            u_lower := (if b = 0xE0 then 0xA0 else 0x80),
            u_upper := (if b = 0xED then 0x9F else 0xBF)\<rparr>, [])
      else if 0xF0 \<le> b \<and> b \<le> 0xF4 then
        (utf8_init\<lparr>u_need := 3, u_point := b - 0xF0,
            u_lower := (if b = 0xF0 then 0x90 else 0x80),
            u_upper := (if b = 0xF4 then 0x8F else 0xBF)\<rparr>, [])
      else (utf8_init, [0xFFFD]))"

definition utf8_step :: "utf8 \<Rightarrow> nat \<Rightarrow> utf8 \<times> nat list" where
  "utf8_step u b =
     (if u_need u = 0 then utf8_lead b
      else if \<not> (u_lower u \<le> b \<and> b \<le> u_upper u) then
        (let (u', out) = utf8_lead b in (u', 0xFFFD # out))
      else let p = u_point u * 64 + (b - 0x80)
           in if u_seen u + 1 = u_need u then (utf8_init, [p])
              else (u\<lparr>u_lower := 0x80, u_upper := 0xBF, u_point := p, u_seen := u_seen u + 1\<rparr>, []))"

fun utf8_feed :: "utf8 \<Rightarrow> nat list \<Rightarrow> utf8 \<times> nat list" where
  "utf8_feed u [] = (u, [])"
| "utf8_feed u (b # bs) =
     (let (u1, out1) = utf8_step u b; (u2, out2) = utf8_feed u1 bs in (u2, out1 @ out2))"

text \<open>One \<open>TextDecoder\<close> object: \<open>d_bom\<close> tells that the start of the stream has passed.\<close>

record decoder =
  d_utf8 :: utf8
  d_bom :: bool

definition new_decoder :: decoder where
  "new_decoder = \<lparr>d_utf8 = utf8_init, d_bom = False\<rparr>"

definition strip_bom :: "bool \<Rightarrow> nat list \<Rightarrow> bool \<times> nat list" where
  "strip_bom passed cs =
     (if passed then (True, cs)
      else case cs of [] \<Rightarrow> (False, []) | c # r \<Rightarrow> (True, if c = 0xFEFF then r else cs))"

definition decode_stream :: "decoder \<Rightarrow> nat list \<Rightarrow> decoder \<times> nat list" where
  "decode_stream d bs =
     (let (u, cs) = utf8_feed (d_utf8 d) bs; (p, out) = strip_bom (d_bom d) cs
      in (\<lparr>d_utf8 = u, d_bom = p\<rparr>, out))"

text \<open>\<open>new TextDecoder().decode(bytes)\<close>: a whole decode flushes an unfinished sequence.\<close>

definition utf8_decode_raw :: "nat list \<Rightarrow> nat list" where
  "utf8_decode_raw bs =
     (let (u, cs) = utf8_feed utf8_init bs in cs @ (if u_need u = 0 then [] else [0xFFFD]))"

definition utf8_decode :: "nat list \<Rightarrow> nat list" where
  "utf8_decode bs = snd (strip_bom False (utf8_decode_raw bs))"

lemma utf8_feed_append:
  "utf8_feed u (xs @ ys) =
     (let (u1, o1) = utf8_feed u xs; (u2, o2) = utf8_feed u1 ys in (u2, o1 @ o2))"
  by (induction xs arbitrary: u) (auto simp: Let_def split: prod.splits)

lemma strip_bom_append:
  "strip_bom p (xs @ ys) =
     (let (p1, o1) = strip_bom p xs; (p2, o2) = strip_bom p1 ys in (p2, o1 @ o2))"
  by (cases xs; cases ys) (auto simp: strip_bom_def)

lemma decode_stream_append:
  "decode_stream d (xs @ ys) =
     (let (d1, o1) = decode_stream d xs; (d2, o2) = decode_stream d1 ys in (d2, o1 @ o2))"
  by (auto simp: decode_stream_def utf8_feed_append strip_bom_append Let_def split: prod.splits)

lemma nat_base64: "(n::nat) = n div 64 * 64 + n mod 64" "n mod 64 < 64"
  by simp_all

lemma utf8_step_encode1:
  assumes "scalar c"
  shows "utf8_feed utf8_init (utf8_encode1 c) = (utf8_init, [c])"
proof -
  consider "c < 0x80" | "0x80 \<le> c" "c < 0x800" | "0x800 \<le> c" "c < 0x10000"
    | "0x10000 \<le> c" "c < 0x110000"
    using assms unfolding scalar_def by linarith
  then show ?thesis
  proof cases
    case 1
    then show ?thesis using assms
      by (simp add: utf8_encode1_def utf8_step_def utf8_lead_def utf8_init_def)
  next
    case 2
    define q r where "q = c div 64" and "r = c mod 64"
    have c: "c = q * 64 + r" and r: "r < 64" by (simp_all add: q_def r_def)
    with 2 have q: "2 \<le> q" "q < 32" by linarith+
    have e: "utf8_encode1 c = [0xC0 + q, 0x80 + r]"
      using assms 2 by (simp add: utf8_encode1_def q_def r_def)
    show ?thesis unfolding e using q r c
      by (simp add: utf8_step_def utf8_lead_def utf8_init_def)
  next
    case 3
    define q r t where "q = c div 4096" and "r = c div 64 mod 64" and "t = c mod 64"
    have c: "c = (q * 64 + r) * 64 + t" and rt: "r < 64" "t < 64"
      using nat_base64 [of c] nat_base64 [of "c div 64"]
      by (simp_all add: q_def r_def t_def div_mult2_eq [of c 64 64, simplified])
    have q: "q < 16" using 3 by (simp add: q_def div_less_iff_less_mult)
    have q0: "q = 0 \<longrightarrow> 32 \<le> r" using 3 c rt by auto
    have q13: "q = 13 \<longrightarrow> r < 32" using assms c rt unfolding scalar_def by auto
    have e: "utf8_encode1 c = [0xE0 + q, 0x80 + r, 0x80 + t]"
      using assms 3 by (simp add: utf8_encode1_def q_def r_def t_def)
    show ?thesis unfolding e using q q0 q13 rt c
      by (auto simp: utf8_step_def utf8_lead_def utf8_init_def)
  next
    case 4
    define q r t v where "q = c div 262144" and "r = c div 4096 mod 64"
      and "t = c div 64 mod 64" and "v = c mod 64"
    have c: "c = ((q * 64 + r) * 64 + t) * 64 + v" and rtv: "r < 64" "t < 64" "v < 64"
      using nat_base64 [of c] nat_base64 [of "c div 64"] nat_base64 [of "c div 64 div 64"]
      by (simp_all add: q_def r_def t_def v_def div_mult2_eq [of c 64 64, simplified]
            div_mult2_eq [of c 4096 64, simplified])
    have q: "q < 5" using 4 by (simp add: q_def div_less_iff_less_mult)
    have q0: "q = 0 \<longrightarrow> 16 \<le> r" using 4 c rtv by auto
    have q4: "q = 4 \<longrightarrow> r < 16" using 4 c rtv by auto
    have e: "utf8_encode1 c = [0xF0 + q, 0x80 + r, 0x80 + t, 0x80 + v]"
      using assms 4 by (simp add: utf8_encode1_def q_def r_def t_def v_def)
    show ?thesis unfolding e using q q0 q4 rtv c
      by (auto simp: utf8_step_def utf8_lead_def utf8_init_def)
  qed
qed

lemma utf8_roundtrip:
  "list_all scalar cs \<Longrightarrow> utf8_feed utf8_init (utf8_encode cs) = (utf8_init, cs)"
  by (induction cs) (simp_all add: utf8_encode_def utf8_feed_append utf8_step_encode1)

lemma utf8_decode_raw_encode:
  "list_all scalar cs \<Longrightarrow> utf8_decode_raw (utf8_encode cs) = cs"
  by (simp add: utf8_decode_raw_def utf8_roundtrip) (simp add: utf8_init_def)

lemma utf8_encode_bytes: "\<forall>b \<in> set (utf8_encode cs). b < 256"
proof -
  have "\<forall>b \<in> set (utf8_encode1 c). b < 256" for c
    by (auto simp: utf8_encode1_def scalar_def div_less_iff_less_mult)
  then show ?thesis by (auto simp: utf8_encode_def)
qed

end
