(* ===== verification/Terminal_Model.thy ===== *)
theory Terminal_Model
  imports Utf8
begin

text \<open>
  The VT/ANSI screen model of \<open>terminal/model.js\<close>: the state of a \<open>TerminalModel\<close> object as the
  record \<open>model\<close>, its two screens as \<open>screen\<close>, and one definition per method, in the order of
  the source. Numbers that come from escape sequences are arbitrary finite Numbers (\<open>rat\<close>);
  cursor positions are integers, because every setter goes through \<open>value | 0\<close>.
  Conventions:
  \<^item> \<open>this.active\<close> always aliases \<open>this.primary\<close> or \<open>this.alternate\<close>; the model keeps which one;
  \<^item> cell objects are replaced and never mutated by the model, so they are values. An array
    slot is \<open>Cell c\<close>, the value \<open>Undefined\<close>, or \<open>Bare\<close>, the object \<open>{...undefined}\<close>;
  \<^item> a colour is a string or \<open>None\<close> for \<open>undefined\<close>;
  \<^item> \<open>restoreCursor\<close> spreads the saved record, with its \<open>x\<close> and \<open>y\<close>, into \<open>this.current\<close>; the
    field \<open>stray\<close> records these two extra properties, which later spreads carry along.
\<close>

subsection \<open>Data\<close>

definition PALETTE :: "string list" where
  "PALETTE = [
    ''#000000'', ''#aa0000'', ''#00aa00'', ''#aa5500'',
    ''#0000aa'', ''#aa00aa'', ''#00aaaa'', ''#aaaaaa'',
    ''#555555'', ''#ff5555'', ''#55ff55'', ''#ffff55'',
    ''#5555ff'', ''#ff55ff'', ''#55ffff'', ''#ffffff'']"

record attrs =
  fg :: "string option"
  bg :: "string option"
  bold :: bool
  underline :: bool
  inverse :: bool
  stray :: "(int \<times> int) option"

record cell =
  code :: nat
  look :: attrs

datatype slot = Undefined | Bare | Cell cell

record screen =
  s_columns :: int
  s_rows :: int
  s_x :: int
  s_y :: int
  scrollTop :: rat
  scrollBottom :: rat
  cells :: "slot list"

record saved_cursor =
  saved_x :: int
  saved_y :: int
  saved_attrs :: attrs

datatype parse_state = Normal | Osc | Csi | Charset | Esc

record model =
  columns :: int
  rows :: int
  primary :: screen
  alternate :: screen
  alternate_active :: bool
  saved :: saved_cursor
  cursorVisible :: bool
  applicationCursorKeys :: bool
  applicationKeypad :: bool
  insertMode :: bool
  state :: parse_state
  csi :: "nat list"
  osc :: "nat list"
  oscEscaped :: bool
  lastGraphic :: "cell option"
  text_decoder :: decoder
  current :: attrs

definition palette :: "rat \<Rightarrow> string option" where
  "palette q = js_get None (map Some PALETTE) q"

definition default_attrs :: attrs where
  "default_attrs = \<lparr>fg = palette 7, bg = palette 0, bold = False, underline = False,
     inverse = False, stray = None\<rparr>"

definition blankCell :: cell where
  "blankCell = \<lparr>code = 32, look = default_attrs\<rparr>"

definition clamp :: "'a::linorder \<Rightarrow> 'a \<Rightarrow> 'a \<Rightarrow> 'a" where
  "clamp value low high = max low (min high value)"

subsection \<open>Screens and construction\<close>

definition makeScreen :: "int \<Rightarrow> int \<Rightarrow> screen completion" where
  "makeScreen c r =
     (if c * r > 2 ^ 32 - 1 then Inl (RangeError ''Invalid array length'')
      else Inr \<lparr>s_columns = c, s_rows = r, s_x = 0, s_y = 0, scrollTop = 0,
             scrollBottom = of_int (r - 1), cells = replicate (nat (c * r)) (Cell blankCell)\<rparr>)"

definition new_model :: "rat \<Rightarrow> rat \<Rightarrow> model completion" where
  "new_model cols rws =
     (let c = max 1 (to_int32 cols); r = max 1 (to_int32 rws)
      in bind_c (makeScreen c r) (\<lambda>p. bind_c (makeScreen c r) (\<lambda>a.
           Inr \<lparr>columns = c, rows = r, primary = p, alternate = a, alternate_active = False,
             saved = \<lparr>saved_x = 0, saved_y = 0, saved_attrs = default_attrs\<rparr>,
             cursorVisible = True, applicationCursorKeys = False, applicationKeypad = False,
             insertMode = False, state = Normal, csi = [], osc = [], oscEscaped = False,
             lastGraphic = None, text_decoder = new_decoder, current = default_attrs\<rparr>)))"

definition resetScreen :: "int \<Rightarrow> screen \<Rightarrow> screen" where
  "resetScreen r s = s\<lparr>s_x := 0, s_y := 0, scrollTop := 0, scrollBottom := of_int (r - 1),
     cells := replicate (length (cells s)) (Cell blankCell)\<rparr>"

definition active :: "model \<Rightarrow> screen" where
  "active m = (if alternate_active m then alternate m else primary m)"

definition map_active :: "(screen \<Rightarrow> screen) \<Rightarrow> model \<Rightarrow> model" where
  "map_active f m =
     (if alternate_active m then m\<lparr>alternate := f (alternate m)\<rparr> else m\<lparr>primary := f (primary m)\<rparr>)"

definition get_x :: "model \<Rightarrow> int" where "get_x m = s_x (active m)"
definition get_y :: "model \<Rightarrow> int" where "get_y m = s_y (active m)"

definition set_x :: "rat \<Rightarrow> model \<Rightarrow> model" where
  "set_x v m = map_active (\<lambda>s. s\<lparr>s_x := clamp (to_int32 v) 0 (columns m - 1)\<rparr>) m"

definition set_y :: "rat \<Rightarrow> model \<Rightarrow> model" where
  "set_y v m = map_active (\<lambda>s. s\<lparr>s_y := clamp (to_int32 v) 0 (rows m - 1)\<rparr>) m"

definition index :: "model \<Rightarrow> rat \<Rightarrow> rat \<Rightarrow> rat" where
  "index m x y = js_add (js_mul y (of_int (columns m))) x"

definition cell_at :: "model \<Rightarrow> rat \<Rightarrow> rat \<Rightarrow> slot" where
  "cell_at m x y = js_get Undefined (cells (active m)) (index m x y)"

text \<open>\<open>this.active.cells[i] = v\<close>.\<close>

definition upd_cells :: "(slot list \<Rightarrow> slot list) \<Rightarrow> model \<Rightarrow> model" where
  "upd_cells f m = map_active (\<lambda>s. s\<lparr>cells := f (cells s)\<rparr>) m"

definition put_cell :: "rat \<Rightarrow> slot \<Rightarrow> model \<Rightarrow> model" where
  "put_cell i v m = upd_cells (\<lambda>cs. js_set Undefined cs i v) m"

definition spread :: "slot \<Rightarrow> slot" where
  "spread s = (case s of Cell c \<Rightarrow> Cell c | _ \<Rightarrow> Bare)"

record snapshot_record =
  snap_columns :: int
  snap_rows :: int
  snap_x :: int
  snap_y :: int
  snap_cursorVisible :: bool
  snap_cells :: "slot list"

definition snapshot :: "model \<Rightarrow> snapshot_record" where
  "snapshot m = \<lparr>snap_columns = columns m, snap_rows = rows m, snap_x = get_x m, snap_y = get_y m,
     snap_cursorVisible = cursorVisible m, snap_cells = map spread (cells (active m))\<rparr>"

text \<open>
  \<open>resizeScreen\<close> copies the common upper-left rectangle; index \<open>i\<close> of the new buffer is column
  \<open>i mod c\<close> of row \<open>i div c\<close>.
\<close>

definition resizeScreen :: "int \<Rightarrow> int \<Rightarrow> screen \<Rightarrow> screen completion" where
  "resizeScreen c r old = bind_c (makeScreen c r) (\<lambda>next.
     Inr (next\<lparr>
       cells := map (\<lambda>i. let x = i mod c; y = i div c
                         in if y < min r (s_rows old) \<and> x < min c (s_columns old)
                            then spread (js_get Undefined (cells old) (of_int (y * s_columns old + x)))
                            else Cell blankCell) [0..c * r - 1],
       s_x := clamp (s_x old) 0 (c - 1),
       s_y := clamp (s_y old) 0 (r - 1)\<rparr>))"

text \<open>
  \<open>resize\<close> assigns the new size before it allocates: when an allocation throws, the size has
  changed and the screens have not.
\<close>

definition resize :: "rat \<Rightarrow> rat \<Rightarrow> model \<Rightarrow> js_error option \<times> model" where
  "resize cols rws m =
     (let c = max 1 (to_int32 cols); r = max 1 (to_int32 rws)
      in if c = columns m \<and> r = rows m then (None, m)
         else let m1 = m\<lparr>columns := c, rows := r\<rparr>; old = active m
              in case resizeScreen c r (primary m) of
                   Inl e \<Rightarrow> (Some e, m1)
                 | Inr p \<Rightarrow>
                   (case resizeScreen c r (alternate m) of
                      Inl e \<Rightarrow> (Some e, m1\<lparr>primary := p\<rparr>)
                    | Inr a \<Rightarrow> (None, set_y (of_int (s_y old)) (set_x (of_int (s_x old))
                                 (m1\<lparr>primary := p, alternate := a\<rparr>)))))"

subsection \<open>Scrolling\<close>

definition eraseCell :: "model \<Rightarrow> cell" where
  "eraseCell m =
     (let c = current m
      in \<lparr>code = 32, look = \<lparr>fg = (if inverse c then bg c else fg c),
            bg = (if inverse c then fg c else bg c),
            bold = False, underline = False, inverse = False, stray = None\<rparr>\<rparr>)"

definition scrollLines :: "rat \<Rightarrow> rat \<Rightarrow> rat \<Rightarrow> bool \<Rightarrow> model \<Rightarrow> model" where
  "scrollLines topRow bottomRow cnt down m =
     (let count = clamp cnt 1 (js_add (js_sub bottomRow topRow) 1);
          cols = (of_int (columns m) :: rat);
          start = js_mul topRow cols; stop = js_mul (js_add bottomRow 1) cols;
          offset = js_mul count cols;
          moved = (\<lambda>cs :: slot list. if down then copy_within cs (js_add start offset) start (js_sub stop offset)
                        else copy_within cs start (js_add start offset) stop);
          blankStart = (if down then start else js_sub stop offset);
          blankEnd = js_add blankStart offset
      in upd_cells (\<lambda>cs. js_for (loop_fuel blankStart blankEnd) blankStart blankEnd
           (\<lambda>i cs. js_set Undefined cs i (Cell (eraseCell m))) (moved cs)) m)"

definition lineFeed :: "model \<Rightarrow> model" where
  "lineFeed m =
     (if of_int (get_y m) = scrollBottom (active m)
      then scrollLines (scrollTop (active m)) (scrollBottom (active m)) 1 False m
      else set_y (js_add (of_int (get_y m)) 1) m)"

definition reverseIndex :: "model \<Rightarrow> model" where
  "reverseIndex m =
     (if of_int (get_y m) = scrollTop (active m)
      then scrollLines (scrollTop (active m)) (scrollBottom (active m)) 1 True m
      else set_y (js_sub (of_int (get_y m)) 1) m)"

definition changeLines :: "rat \<Rightarrow> bool \<Rightarrow> model \<Rightarrow> model" where
  "changeLines count ins m =
     (if of_int (get_y m) < scrollTop (active m) \<or> of_int (get_y m) > scrollBottom (active m) then m
      else set_x 0 (scrollLines (of_int (get_y m)) (scrollBottom (active m)) count ins m))"

text \<open>The arguments of \<open>setScrollRegion\<close> are \<open>None\<close> when the parameter list is too short.\<close>

definition js_or_opt :: "rat option \<Rightarrow> rat \<Rightarrow> rat" where
  "js_or_opt v d = (case v of None \<Rightarrow> d | Some w \<Rightarrow> js_or w d)"

definition setScrollRegion :: "rat option \<Rightarrow> rat option \<Rightarrow> model \<Rightarrow> model" where
  "setScrollRegion t b m =
     (let topRow = js_sub (js_or_opt t 1) 1; bottomRow = js_sub (js_or_opt b (of_int (rows m))) 1
      in if topRow < 0 \<or> bottomRow \<ge> of_int (rows m) \<or> topRow \<ge> bottomRow then m
         else set_y 0 (set_x 0 (map_active (\<lambda>s. s\<lparr>scrollTop := topRow, scrollBottom := bottomRow\<rparr>) m)))"

subsection \<open>Printing\<close>

definition swap_colours :: "attrs \<Rightarrow> attrs" where
  "swap_colours a = a\<lparr>fg := bg a, bg := fg a\<rparr>"

definition put :: "nat \<Rightarrow> cell option \<Rightarrow> model \<Rightarrow> model" where
  "put c cellOverride m =
     (if c < 0x20 \<or> c = 0x7f then m
      else
        let cell = (case cellOverride of
              Some g \<Rightarrow> g
            | None \<Rightarrow> \<lparr>code = c, look = (if inverse (current m) then swap_colours (current m)
                                         else current m)\<rparr>);
            row = (of_int (get_y m) :: rat);
            m1 = (if insertMode m
                  then js_for_down (nat (columns m)) (of_int (columns m - 1)) (of_int (get_x m + 1))
                         (\<lambda>column m. put_cell (index m column row)
                            (cell_at m (js_sub column 1) row) m) m
                  else m);
            m2 = put_cell (index m1 (of_int (get_x m1)) (of_int (get_y m1))) (Cell cell) m1;
            m3 = m2\<lparr>lastGraphic := Some cell\<rparr>
        in if get_x m3 = columns m3 - 1 then lineFeed (map_active (\<lambda>s. s\<lparr>s_x := 0\<rparr>) m3)
           else set_x (js_add (of_int (get_x m3)) 1) m3)"

definition repeatLast :: "rat \<Rightarrow> model \<Rightarrow> model" where
  "repeatLast cnt m =
     (case lastGraphic m of
        None \<Rightarrow> m
      | Some _ \<Rightarrow>
        let count = clamp (js_or cnt 1) 1 (of_int (columns m * rows m))
        in js_for (loop_fuel 0 count) 0 count
             (\<lambda>_ m. case lastGraphic m of None \<Rightarrow> m | Some g \<Rightarrow> put (code g) (Some g) m) m)"

text \<open>\<open>keySequence\<close> maps a named key to its byte sequence; other keys have none.\<close>

abbreviation ESC :: char where "ESC \<equiv> CHR 0x1B"

definition key_table :: "string \<Rightarrow> (string \<times> string) list" where
  "key_table cursorPrefix = [
     (''ArrowUp'', cursorPrefix @ ''A''), (''ArrowDown'', cursorPrefix @ ''B''),
     (''ArrowRight'', cursorPrefix @ ''C''), (''ArrowLeft'', cursorPrefix @ ''D''),
     (''Home'', cursorPrefix @ ''H''), (''End'', cursorPrefix @ ''F''),
     (''Insert'', ESC # ''[2~''), (''Delete'', ESC # ''[3~''),
     (''PageUp'', ESC # ''[5~''), (''PageDown'', ESC # ''[6~''),
     (''Escape'', [ESC]), (''F1'', ESC # ''OP''), (''F2'', ESC # ''OQ''),
     (''F3'', ESC # ''OR''), (''F4'', ESC # ''OS''), (''F5'', ESC # ''[15~''),
     (''F6'', ESC # ''[17~''), (''F7'', ESC # ''[18~''), (''F8'', ESC # ''[19~''),
     (''F9'', ESC # ''[20~''), (''F10'', ESC # ''[21~''), (''F11'', ESC # ''[23~''),
     (''F12'', ESC # ''[24~'')]"

definition keySequence :: "model \<Rightarrow> string \<Rightarrow> string option" where
  "keySequence m key =
     map_of (key_table (if applicationCursorKeys m then ESC # ''O'' else ESC # ''['')) key"

subsection \<open>Erasing and editing\<close>

definition pen_blank :: "model \<Rightarrow> cell" where
  "pen_blank m = \<lparr>code = 32, look = (if inverse (current m) then swap_colours (current m)
                                    else current m)\<rparr>"

definition eraseCharacters :: "rat \<Rightarrow> model \<Rightarrow> model" where
  "eraseCharacters count m =
     (let x0 = (of_int (get_x m) :: rat);
          stop = js_add x0 (clamp count 1 (of_int (columns m - get_x m)))
      in js_for (loop_fuel x0 stop) x0 stop
           (\<lambda>x m. put_cell (index m x (of_int (get_y m))) (Cell (pen_blank m)) m) m)"

definition insertCharacters :: "rat \<Rightarrow> model \<Rightarrow> model" where
  "insertCharacters cnt m =
     (let x0 = (of_int (get_x m) :: rat); count = clamp cnt 1 (of_int (columns m - get_x m));
          row = (of_int (get_y m) :: rat); stop = js_add x0 count;
          m1 = js_for_down (nat (columns m)) (of_int (columns m - 1)) stop
                 (\<lambda>column m. put_cell (index m column row)
                    (cell_at m (js_sub column count) row) m) m
      in js_for (loop_fuel x0 stop) x0 stop
           (\<lambda>column m. put_cell (index m column row) (Cell (pen_blank m)) m) m1)"

definition deleteCharacters :: "rat \<Rightarrow> model \<Rightarrow> model" where
  "deleteCharacters cnt m =
     (let x0 = (of_int (get_x m) :: rat); count = clamp cnt 1 (of_int (columns m - get_x m));
          row = (of_int (get_y m) :: rat); cols = (of_int (columns m) :: rat); stop = js_sub cols count;
          m1 = js_for (loop_fuel x0 stop) x0 stop
                 (\<lambda>column m. put_cell (index m column row)
                    (cell_at m (js_add column count) row) m) m
      in js_for (loop_fuel stop cols) stop cols
           (\<lambda>column m. put_cell (index m column row) (Cell (pen_blank m)) m) m1)"

definition blank_columns :: "int \<Rightarrow> int \<Rightarrow> int \<Rightarrow> model \<Rightarrow> model" where
  "blank_columns from to y m =
     fold (\<lambda>x. put_cell (index m (of_int x) (of_int y)) (Cell blankCell)) [from..to] m"

definition eraseLine :: "rat \<Rightarrow> model \<Rightarrow> model" where
  "eraseLine mode m =
     (let from = (if mode = 1 then 0 else get_x m);
          to = (if mode = 1 then get_x m else if mode = 2 then columns m - 1 else columns m - 1)
      in blank_columns from to (get_y m) m)"

definition eraseDisplay :: "rat \<Rightarrow> model \<Rightarrow> model" where
  "eraseDisplay mode m =
     (if mode = 2 \<or> mode = 3 then
        upd_cells (\<lambda>cs. replicate (length cs) (Cell blankCell)) m
      else if mode = 1 then
        eraseLine 1 (fold (\<lambda>y. blank_columns 0 (columns m - 1) y) [0..get_y m - 1] m)
      else
        fold (\<lambda>y. blank_columns 0 (columns m - 1) y) [get_y m + 1..rows m - 1] (eraseLine 0 m))"

subsection \<open>Colours and the cursor\<close>

definition hex_digit :: "int \<Rightarrow> char" where
  "hex_digit d = ''0123456789abcdef'' ! nat d"

definition hex2 :: "rat \<Rightarrow> string" where
  "hex2 value = (let v = clamp (to_int32 value) 0 255 in [hex_digit (v div 16), hex_digit (v mod 16)])"

definition rgb :: "rat \<Rightarrow> rat \<Rightarrow> rat \<Rightarrow> string" where
  "rgb red green blue = ''#'' @ hex2 red @ hex2 green @ hex2 blue"

definition channel :: "int \<Rightarrow> rat" where
  "channel i = [0, 95, 135, 175, 215, 255] ! nat i"

definition xtermColor :: "rat \<Rightarrow> string" where
  "xtermColor v =
     (let value = clamp (to_int32 v) 0 255
      in if value < 16 then PALETTE ! nat value
         else if value \<ge> 232 then (let shade = of_int (8 + (value - 232) * 10) in rgb shade shade shade)
         else let n = value - 16
              in rgb (channel (n div 36)) (channel (n div 6 mod 6)) (channel (n mod 6)))"

definition set_colour :: "rat \<Rightarrow> string option \<Rightarrow> attrs \<Rightarrow> attrs" where
  "set_colour value c a = (if value = 38 then a\<lparr>fg := c\<rparr> else a\<lparr>bg := c\<rparr>)"

definition sgr_simple :: "rat \<Rightarrow> attrs \<Rightarrow> attrs" where
  "sgr_simple value a =
     (if value = 0 then default_attrs
      else if value = 1 then a\<lparr>bold := True\<rparr>
      else if value = 22 then a\<lparr>bold := False\<rparr>
      else if value = 4 then a\<lparr>underline := True\<rparr>
      else if value = 24 then a\<lparr>underline := False\<rparr>
      else if value = 7 then a\<lparr>inverse := True\<rparr>
      else if value = 27 then a\<lparr>inverse := False\<rparr>
      else if value = 39 then a\<lparr>fg := palette 7\<rparr>
      else if value = 49 then a\<lparr>bg := palette 0\<rparr>
      else if value \<ge> 30 \<and> value \<le> 37 then a\<lparr>fg := palette (value - 30)\<rparr>
      else if value \<ge> 40 \<and> value \<le> 47 then a\<lparr>bg := palette (value - 40)\<rparr>
      else if value \<ge> 90 \<and> value \<le> 97 then a\<lparr>fg := palette (value - 90 + 8)\<rparr>
      else if value \<ge> 100 \<and> value \<le> 107 then a\<lparr>bg := palette (value - 100 + 8)\<rparr>
      else a)"

function sgr_loop :: "rat list \<Rightarrow> attrs \<Rightarrow> attrs" where
  "sgr_loop [] a = a"
| "sgr_loop (value # rest) a =
     (if value = 38 \<or> value = 48 then
        (if length rest \<ge> 2 \<and> rest ! 0 = 5 then
           sgr_loop (drop 2 rest) (set_colour value (Some (xtermColor (rest ! 1))) a)
         else if length rest \<ge> 4 \<and> rest ! 0 = 2 then
           sgr_loop (drop 4 rest)
             (set_colour value (Some (rgb (rest ! 1) (rest ! 2) (rest ! 3))) a)
         else sgr_loop rest a)
      else sgr_loop rest (sgr_simple value a))"
  by pat_completeness auto
termination by (relation "measure (\<lambda>(vs, _). length vs)") auto

definition sgr :: "rat list \<Rightarrow> model \<Rightarrow> model" where
  "sgr values m = m\<lparr>current := sgr_loop (if values = [] then [0] else values) (current m)\<rparr>"

definition saveCursor :: "model \<Rightarrow> model" where
  "saveCursor m =
     (let (x, y) = (case stray (current m) of None \<Rightarrow> (get_x m, get_y m) | Some p \<Rightarrow> p)
      in m\<lparr>saved := \<lparr>saved_x = x, saved_y = y, saved_attrs = (current m)\<lparr>stray := None\<rparr>\<rparr>\<rparr>)"

definition restoreCursor :: "model \<Rightarrow> model" where
  "restoreCursor m =
     (let m1 = set_y (of_int (saved_y (saved m))) (set_x (of_int (saved_x (saved m))) m)
      in m1\<lparr>current := (saved_attrs (saved m))
               \<lparr>stray := Some (saved_x (saved m), saved_y (saved m))\<rparr>\<rparr>)"

definition enterAlternate :: "model \<Rightarrow> model" where
  "enterAlternate m =
     (let m1 = saveCursor m
      in m1\<lparr>alternate := resetScreen (rows m1) (alternate m1), alternate_active := True\<rparr>)"

definition leaveAlternate :: "model \<Rightarrow> model" where
  "leaveAlternate m = restoreCursor (m\<lparr>alternate_active := False\<rparr>)"

definition fullReset :: "model \<Rightarrow> model" where
  "fullReset m =
     m\<lparr>primary := resetScreen (rows m) (primary m), alternate := resetScreen (rows m) (alternate m),
       alternate_active := False, cursorVisible := True, state := Normal,
       applicationCursorKeys := False, applicationKeypad := False, insertMode := False,
       lastGraphic := None, current := default_attrs\<rparr>"

subsection \<open>Control sequences\<close>

fun split_on :: "'a \<Rightarrow> 'a list \<Rightarrow> 'a list list" where
  "split_on d [] = [[]]"
| "split_on d (c # cs) =
     (if c = d then [] # split_on d cs
      else case split_on d cs of [] \<Rightarrow> [[c]] | w # ws \<Rightarrow> (c # w) # ws)"

record csi_params =
  privateMode :: bool
  prefix :: "nat option"
  param_values :: "rat list"

definition param_value :: "nat list \<Rightarrow> rat" where
  "param_value s = (if s = [] then 0 else case js_number s of Some v \<Rightarrow> v | None \<Rightarrow> 0)"

definition params :: "model \<Rightarrow> csi_params" where
  "params m =
     (let pre = (case csi m of c # _ \<Rightarrow> if 60 \<le> c \<and> c \<le> 63 then Some c else None | [] \<Rightarrow> None);
          source = (if pre = None then csi m else tl (csi m))
      in \<lparr>privateMode = (pre = Some 63), prefix = pre,
          param_values = map param_value (split_on 59 source)\<rparr>)"

definition value_at :: "rat list \<Rightarrow> nat \<Rightarrow> rat option" where
  "value_at vs i = (if i < length vs then Some (vs ! i) else None)"

definition set_modes :: "bool \<Rightarrow> bool \<Rightarrow> rat list \<Rightarrow> model \<Rightarrow> model" where
  "set_modes privmode on values m =
     (let m1 = (if \<not> privmode \<and> 4 \<in> set values then m\<lparr>insertMode := on\<rparr> else m);
          m2 = (if privmode \<and> 1 \<in> set values then m1\<lparr>applicationCursorKeys := on\<rparr> else m1);
          m3 = (if privmode \<and> (1049 \<in> set values \<or> 47 \<in> set values)
                then (if on then enterAlternate m2 else leaveAlternate m2) else m2)
      in if privmode \<and> 25 \<in> set values then m3\<lparr>cursorVisible := on\<rparr> else m3)"

text \<open>The final byte is a code point: 64 is @, 65 is A and so on.\<close>

definition executeCsi :: "nat \<Rightarrow> model \<Rightarrow> model" where
  "executeCsi final m =
     (let p = params m; values = param_values p;
          x = (of_int (get_x m) :: rat); y = (of_int (get_y m) :: rat);
          first = js_or_opt (value_at values 0) 0; first1 = js_or first 1;
          topRow = scrollTop (active m); bottomRow = scrollBottom (active m)
      in if prefix p \<noteq> None \<and> \<not> (privateMode p \<and> (final = 104 \<or> final = 108)) then m
         else if final = 65 then set_y (js_sub y first1) m
         else if final = 66 \<or> final = 101 then set_y (js_add y first1) m
         else if final = 67 \<or> final = 97 then set_x (js_add x first1) m
         else if final = 68 then set_x (js_sub x first1) m
         else if final = 69 then set_x 0 (set_y (js_add y first1) m)
         else if final = 70 then set_x 0 (set_y (js_sub y first1) m)
         else if final = 71 \<or> final = 96 then set_x (js_sub first1 1) m
         else if final = 100 then set_y (js_sub first1 1) m
         else if final = 72 \<or> final = 102 then
           set_x (js_sub (js_or_opt (value_at values 1) 1) 1)
             (set_y (js_sub (js_or_opt (value_at values 0) 1) 1) m)
         else if final = 74 then eraseDisplay first m
         else if final = 75 then eraseLine first m
         else if final = 88 then eraseCharacters first1 m
         else if final = 64 then insertCharacters first1 m
         else if final = 80 then deleteCharacters first1 m
         else if final = 76 then changeLines first1 True m
         else if final = 77 then changeLines first1 False m
         else if final = 83 then scrollLines topRow bottomRow first1 False m
         else if final = 84 then scrollLines topRow bottomRow first1 True m
         else if final = 98 then repeatLast first1 m
         else if final = 109 then sgr values m
         else if final = 115 then saveCursor m
         else if final = 117 then restoreCursor m
         else if final = 104 \<or> final = 108 then set_modes (privateMode p) (final = 104) values m
         else if final = 114 then
           (if \<not> privateMode p then setScrollRegion (value_at values 0) (value_at values 1) m else m)
         else m)"

subsection \<open>The input state machine\<close>

definition utf16_length :: "nat list \<Rightarrow> nat" where
  "utf16_length cs = sum_list (map (\<lambda>c. if c < 0x10000 then 1 else 2) cs)"

definition consume_osc :: "nat \<Rightarrow> model \<Rightarrow> model" where
  "consume_osc c m =
     (if c = 7 then m\<lparr>state := Normal, osc := []\<rparr>
      else if c = 27 then m\<lparr>oscEscaped := True\<rparr>
      else if oscEscaped m \<and> c = 92 then m\<lparr>state := Normal, osc := [], oscEscaped := False\<rparr>
      else let m1 = m\<lparr>oscEscaped := False\<rparr>
           in if utf16_length (osc m1) < 4096 then m1\<lparr>osc := osc m1 @ [c]\<rparr> else m1)"

definition consume_csi :: "nat \<Rightarrow> model \<Rightarrow> model" where
  "consume_csi c m =
     (if 0x40 \<le> c \<and> c \<le> 0x7e then (executeCsi c m)\<lparr>state := Normal\<rparr>
      else if utf16_length (csi m) < 128 then m\<lparr>csi := csi m @ [c]\<rparr>
      else m\<lparr>state := Normal\<rparr>)"

definition consume_esc :: "nat \<Rightarrow> model \<Rightarrow> model" where
  "consume_esc c m =
     (if c = 91 then m\<lparr>state := Csi, csi := []\<rparr>
      else if c = 93 then m\<lparr>state := Osc, osc := []\<rparr>
      else if c = 40 \<or> c = 41 then m\<lparr>state := Charset\<rparr>
      else
        (if c = 55 then saveCursor m
         else if c = 56 then restoreCursor m
         else if c = 99 then fullReset m
         else if c = 61 then m\<lparr>applicationKeypad := True\<rparr>
         else if c = 62 then m\<lparr>applicationKeypad := False\<rparr>
         else if c = 68 then lineFeed m
         else if c = 69 then lineFeed (set_x 0 m)
         else if c = 77 then reverseIndex m
         else m)\<lparr>state := Normal\<rparr>)"

text \<open>\<open>(this.x + 8) & ~7\<close> clears the low three bits of an int32: the next multiple of eight.\<close>

definition tab_stop :: "int \<Rightarrow> int" where
  "tab_stop x = wrap32 ((x + 8) div 8 * 8)"

definition consume_normal :: "nat \<Rightarrow> model \<Rightarrow> model" where
  "consume_normal c m =
     (if c = 27 then m\<lparr>state := Esc\<rparr>
      else if c = 10 \<or> c = 11 \<or> c = 12 then lineFeed m
      else if c = 13 then set_x 0 m
      else if c = 8 then set_x (js_sub (of_int (get_x m)) 1) m
      else if c = 9 then set_x (of_int (min (columns m - 1) (tab_stop (get_x m)))) m
      else if c < 0x20 \<or> c = 0x7f then m
      else put c None m)"

definition consume :: "nat \<Rightarrow> model \<Rightarrow> model" where
  "consume c m =
     (case state m of
        Osc \<Rightarrow> consume_osc c m
      | Csi \<Rightarrow> consume_csi c m
      | Charset \<Rightarrow> m\<lparr>state := Normal\<rparr>
      | Esc \<Rightarrow> consume_esc c m
      | Normal \<Rightarrow> consume_normal c m)"

definition write_text :: "nat list \<Rightarrow> model \<Rightarrow> model" where
  "write_text text m = fold consume text m"

definition write_bytes :: "nat list \<Rightarrow> model \<Rightarrow> model" where
  "write_bytes bytes m =
     (let (d, text) = decode_stream (text_decoder m) bytes
      in write_text text (m\<lparr>text_decoder := d\<rparr>))"

end
