(* ===== verification/Terminal_Cells.thy ===== *)
theory Terminal_Cells
  imports Terminal_Model
begin

text \<open>
  The library under the terminal properties: the loops of \<open>model.js\<close> as folds over list
  indices, and the closed form of each loop (\<open>nth_fill\<close>, \<open>nth_shift_right\<close>, \<open>nth_shift_left\<close>).
  Loops over the model that only write cells are moved onto the cell list (\<open>js_for_upd_cells\<close>).
\<close>

subsection \<open>Counting loops over naturals\<close>

lemma map_of_int_upto:
  "0 \<le> a \<Longrightarrow> map of_int [a..b - 1] = (map of_nat [nat a..<nat b] :: rat list)"
proof (induction "nat (b - a)" arbitrary: a)
  case 0
  then show ?case by simp
next
  case (Suc n)
  then have ab: "a < b" by linarith
  have "[a..b - 1] = a # [a + 1..b - 1]" using ab by (simp add: upto_rec1)
  moreover have "[nat a..<nat b] = nat a # [nat (a + 1)..<nat b]"
    using ab Suc.prems by (simp add: upt_conv_Cons nat_add_distrib)
  moreover have "map of_int [a + 1..b - 1] = (map of_nat [nat (a + 1)..<nat b] :: rat list)"
    using Suc ab by (intro Suc.hyps) auto
  ultimately show ?case using Suc.prems by simp
qed

lemma js_for_of_nat:
  assumes "a < 2 ^ 52" "b < 2 ^ 52" and "b - a \<le> n"
  shows "js_for n (of_nat a) (of_nat b) f s = fold (\<lambda>i. f (of_nat i)) [a..<b] s"
proof -
  have p: "int (2 ^ 52) = 2 ^ 52" by simp
  have "js_for n (of_int (int a)) (of_int (int b)) f s = fold f (map of_int [int a..int b - 1]) s"
    using assms p by (intro js_for_of_int) linarith+
  also have "\<dots> = fold f (map of_nat [a..<b]) s"
    by (subst map_of_int_upto) simp_all
  finally show ?thesis by (simp add: fold_map comp_def)
qed

lemma js_for_down_of_nat:
  assumes "b < 2 ^ 52" and "b - a \<le> n"
  shows "js_for_down n (of_int (int b - 1)) (of_nat a) f s
       = fold (\<lambda>i. f (of_nat i)) (rev [a..<b]) s"
proof -
  have p: "int (2 ^ 52) = 2 ^ 52" by simp
  have "js_for_down n (of_int (int b - 1)) (of_int (int a)) f s
      = fold f (map of_int (rev [int a..int b - 1])) s"
    using assms p by (intro js_for_down_of_int) linarith+
  also have "\<dots> = fold f (rev (map of_nat [a..<b])) s"
    by (simp only: rev_map [symmetric] map_of_int_upto [of "int a" "int b"]) simp
  finally show ?thesis by (simp add: fold_map comp_def rev_map)
qed

lemma loop_fuel_of_nat: "b - a \<le> loop_fuel (of_nat a) (of_nat b)"
proof -
  have "nat (int b - int a + 1) \<le> loop_fuel (of_int (int a)) (of_int (int b))"
    by (rule loop_fuel_of_int)
  then show ?thesis by simp
qed

lemma js_set_of_nat [js_arr]: "j < length xs \<Longrightarrow> js_set u xs (of_nat j) v = xs[j := v]"
  using js_set_of_int [of "int j" xs u v] by simp

lemma js_get_of_nat [js_arr]: "j < length xs \<Longrightarrow> js_get u xs (of_nat j) = xs ! j"
  using js_get_of_int [of "int j" xs u] by simp

subsection \<open>Closed forms of the cell loops\<close>

lemma length_fold_update:
  "(\<And>i xs. length (f i xs) = length xs) \<Longrightarrow> length (fold f is xs) = length xs"
  by (induction "is" arbitrary: xs) auto

lemma nth_fill:
  assumes "b \<le> n" and "off + n \<le> length xs" and "j < length xs"
  shows "fold (\<lambda>i xs. xs[off + i := v]) [a..<b] xs ! j
       = (if off + a \<le> j \<and> j < off + b then v else xs ! j)"
  using assms
proof (induction b)
  case 0
  then show ?case by auto
next
  case (Suc b)
  let ?f = "\<lambda>i xs. xs[off + i := v]"
  have len: "length (fold ?f [a..<b] xs) = length xs" by (rule length_fold_update) simp
  show ?case
  proof (cases "a \<le> b")
    case True
    then have "fold ?f [a..<Suc b] xs = (fold ?f [a..<b] xs)[off + b := v]" by simp
    with Suc True len show ?thesis by (auto simp: nth_list_update)
  next
    case False
    then show ?thesis by auto
  qed
qed

lemma nth_shift_left:
  assumes "b + k \<le> n" and "off + n \<le> length xs" and "j < length xs"
  shows "fold (\<lambda>i xs. xs[off + i := xs ! (off + (i + k))]) [a..<b] xs ! j
       = (if off + a \<le> j \<and> j < off + b then xs ! (j + k) else xs ! j)"
  using assms
proof (induction b arbitrary: j)
  case 0
  then show ?case by auto
next
  case (Suc b)
  let ?f = "\<lambda>i xs. xs[off + i := xs ! (off + (i + k))]"
  have len: "length (fold ?f [a..<b] xs) = length xs" by (rule length_fold_update) simp
  show ?case
  proof (cases "a \<le> b")
    case True
    let ?ys = "fold ?f [a..<b] xs"
    have "?ys ! (off + (b + k)) = xs ! (off + (b + k))" using Suc by (subst Suc.IH) auto
    moreover have "?ys ! j = (if off + a \<le> j \<and> j < off + b then xs ! (j + k) else xs ! j)"
      using Suc by (intro Suc.IH) auto
    moreover have "fold ?f [a..<Suc b] xs = ?ys[off + b := ?ys ! (off + (b + k))]" using True by simp
    ultimately show ?thesis using Suc.prems True len
      by (auto simp: nth_list_update algebra_simps)
  next
    case False
    then show ?thesis by auto
  qed
qed

lemma nth_shift_right:
  assumes "k \<le> a" and "b \<le> n" and "off + n \<le> length xs" and "j < length xs"
  shows "fold (\<lambda>i xs. xs[off + i := xs ! (off + (i - k))]) (rev [a..<b]) xs ! j
       = (if off + a \<le> j \<and> j < off + b then xs ! (j - k) else xs ! j)"
  using assms
proof (induction "b - a" arbitrary: a j)
  case 0
  then show ?case by auto
next
  case (Suc d)
  let ?f = "\<lambda>i xs. xs[off + i := xs ! (off + (i - k))]"
  have ab: "a < b" using Suc.hyps(2) by linarith
  let ?ys = "fold ?f (rev [Suc a..<b]) xs"
  have len: "length ?ys = length xs" by (rule length_fold_update) simp
  have "?ys ! (off + (a - k)) = xs ! (off + (a - k))"
    using Suc ab by (subst Suc.hyps(1)) auto
  moreover have "?ys ! j = (if off + Suc a \<le> j \<and> j < off + b then xs ! (j - k) else xs ! j)"
    using Suc ab by (intro Suc.hyps(1)) auto
  moreover have "fold ?f (rev [a..<b]) xs = ?ys[off + a := ?ys ! (off + (a - k))]"
    using ab by (simp add: upt_conv_Cons)
  ultimately show ?case using Suc.prems ab len
    by (auto simp: nth_list_update)
qed

subsection \<open>Loops over the model that write cells\<close>

lemma active_map_active [simp]: "active (map_active f m) = f (active m)"
  by (simp add: active_def map_active_def)

lemma map_active_map_active: "map_active f (map_active g m) = map_active (\<lambda>s. f (g s)) m"
  by (simp add: map_active_def)

lemma upd_cells_upd_cells: "upd_cells f (upd_cells g m) = upd_cells (\<lambda>cs. f (g cs)) m"
  by (simp add: upd_cells_def map_active_map_active)

lemma upd_cells_id [simp]: "upd_cells (\<lambda>cs. cs) m = m"
  by (simp add: upd_cells_def map_active_def)

lemma map_active_frame [simp]:
  "columns (map_active f m) = columns m" "rows (map_active f m) = rows m"
  "saved (map_active f m) = saved m" "current (map_active f m) = current m"
  "state (map_active f m) = state m" "csi (map_active f m) = csi m" "osc (map_active f m) = osc m"
  "oscEscaped (map_active f m) = oscEscaped m" "insertMode (map_active f m) = insertMode m"
  "lastGraphic (map_active f m) = lastGraphic m"
  "alternate_active (map_active f m) = alternate_active m"
  "cursorVisible (map_active f m) = cursorVisible m"
  "applicationCursorKeys (map_active f m) = applicationCursorKeys m"
  "applicationKeypad (map_active f m) = applicationKeypad m"
  "text_decoder (map_active f m) = text_decoder m"
  by (simp_all add: map_active_def)

lemma upd_cells_frame [simp]:
  "columns (upd_cells f m) = columns m" "rows (upd_cells f m) = rows m"
  "saved (upd_cells f m) = saved m" "current (upd_cells f m) = current m"
  "state (upd_cells f m) = state m" "csi (upd_cells f m) = csi m" "osc (upd_cells f m) = osc m"
  "oscEscaped (upd_cells f m) = oscEscaped m" "insertMode (upd_cells f m) = insertMode m"
  "lastGraphic (upd_cells f m) = lastGraphic m"
  "alternate_active (upd_cells f m) = alternate_active m"
  "get_x (upd_cells f m) = get_x m" "get_y (upd_cells f m) = get_y m"
  "cells (active (upd_cells f m)) = f (cells (active m))"
  "scrollTop (active (upd_cells f m)) = scrollTop (active m)"
  "scrollBottom (active (upd_cells f m)) = scrollBottom (active m)"
  by (simp_all add: upd_cells_def get_x_def get_y_def)

lemma index_upd_cells [simp]: "index (upd_cells f m) = index m"
  by (simp add: index_def fun_eq_iff)

lemma pen_blank_upd_cells [simp]: "pen_blank (upd_cells f m) = pen_blank m"
  by (simp add: pen_blank_def)

lemma cell_at_upd_cells [simp]:
  "cell_at (upd_cells f m) x y = js_get Undefined (f (cells (active m))) (index m x y)"
  by (simp add: cell_at_def)

lemma upd_cells_cong:
  "f (cells (active m)) = g (cells (active m)) \<Longrightarrow> upd_cells f m = upd_cells g m"
  by (auto simp: upd_cells_def map_active_def active_def split: if_splits)

lemma js_for_upd_cells:
  assumes "\<And>i h. body i (upd_cells h m) = upd_cells (\<lambda>cs. g i (h cs)) m"
  shows "js_for n i hi body (upd_cells h m) = upd_cells (\<lambda>cs. js_for n i hi g (h cs)) m"
proof (induction n arbitrary: i h)
  case 0
  then show ?case by simp
next
  case (Suc n)
  show ?case
  proof (cases "i < hi")
    case True
    then have "js_for (Suc n) i hi body (upd_cells h m)
        = js_for n (js_add i 1) hi body (upd_cells (\<lambda>cs. g i (h cs)) m)"
      by (simp add: assms)
    also have "\<dots> = upd_cells (\<lambda>cs. js_for n (js_add i 1) hi g (g i (h cs))) m"
      by (rule Suc.IH)
    finally show ?thesis using True by simp
  next
    case False
    then show ?thesis by simp
  qed
qed

lemma js_for_down_upd_cells:
  assumes "\<And>i h. body i (upd_cells h m) = upd_cells (\<lambda>cs. g i (h cs)) m"
  shows "js_for_down n i lo body (upd_cells h m) = upd_cells (\<lambda>cs. js_for_down n i lo g (h cs)) m"
proof (induction n arbitrary: i h)
  case 0
  then show ?case by simp
next
  case (Suc n)
  show ?case
  proof (cases "i \<ge> lo")
    case True
    then have "js_for_down (Suc n) i lo body (upd_cells h m)
        = js_for_down n (js_sub i 1) lo body (upd_cells (\<lambda>cs. g i (h cs)) m)"
      by (simp add: assms)
    also have "\<dots> = upd_cells (\<lambda>cs. js_for_down n (js_sub i 1) lo g (g i (h cs))) m"
      by (rule Suc.IH)
    finally show ?thesis using True by simp
  next
    case False
    then show ?thesis by simp
  qed
qed

lemmas js_for_upd_cells0 = js_for_upd_cells [where h = "\<lambda>cs. cs", unfolded upd_cells_id]
lemmas js_for_down_upd_cells0 = js_for_down_upd_cells [where h = "\<lambda>cs. cs", unfolded upd_cells_id]

lemma fold_upd_cells:
  assumes "\<And>i h. body i (upd_cells h m) = upd_cells (\<lambda>cs. g i (h cs)) m"
  shows "fold body is (upd_cells h m) = upd_cells (\<lambda>cs. fold g is (h cs)) m"
  using assms by (induction "is" arbitrary: h) auto

lemmas fold_upd_cells0 = fold_upd_cells [where h = "\<lambda>cs. cs", unfolded upd_cells_id]

lemma fold_cong_length:
  assumes "length xs = n" and "\<And>i ys. i \<in> set is \<Longrightarrow> length ys = n \<Longrightarrow> f i ys = g i ys"
    and "\<And>i ys. length (g i ys) = length ys"
  shows "fold f is xs = fold g is xs"
  using assms by (induction "is" arbitrary: xs) auto

end
