(* ===== verification/Terminal_Ops.thy ===== *)
theory Terminal_Ops
  imports Terminal_Cells
begin

text \<open>
  Well-formed terminal states (\<open>wf\<close>) and, under well-formedness and integral parameters, the
  closed form of every cell operation of \<open>model.js\<close> on the cell list: scrolling as a
  rotation of list segments, character insertion and deletion as shifts of one row, erasing as
  a fill. The bounds that hold for every input, fractional parameters included, are
  \<open>in_bounds\<close>.
\<close>

subsection \<open>Well-formedness\<close>

definition hex_char :: "char \<Rightarrow> bool" where
  "hex_char ch \<longleftrightarrow> ch \<in> set ''0123456789abcdef''"

definition is_colour :: "string option \<Rightarrow> bool" where
  "is_colour c = (case c of
      None \<Rightarrow> False
    | Some s \<Rightarrow> (case s of [] \<Rightarrow> False | h # t \<Rightarrow> h = CHR ''#'' \<and> length t = 6 \<and> list_all hex_char t))"

definition wf_attrs :: "attrs \<Rightarrow> bool" where
  "wf_attrs a \<longleftrightarrow> is_colour (fg a) \<and> is_colour (bg a)"

definition wf_cell :: "cell \<Rightarrow> bool" where
  "wf_cell c \<longleftrightarrow> wf_attrs (look c) \<and> 32 \<le> code c \<and> code c \<noteq> 127 \<and> code c \<le> 0x10FFFF"

definition wf_slot :: "slot \<Rightarrow> bool" where
  "wf_slot s = (case s of Cell c \<Rightarrow> wf_cell c | _ \<Rightarrow> False)"

definition wf_region :: "int \<Rightarrow> screen \<Rightarrow> bool" where
  "wf_region r s \<longleftrightarrow>
     scrollTop s = of_int \<lfloor>scrollTop s\<rfloor> \<and> scrollBottom s = of_int \<lfloor>scrollBottom s\<rfloor> \<and>
     0 \<le> scrollTop s \<and> scrollTop s \<le> scrollBottom s \<and> scrollBottom s < of_int r"

definition wf_screen :: "int \<Rightarrow> int \<Rightarrow> screen \<Rightarrow> bool" where
  "wf_screen c r s \<longleftrightarrow>
     s_columns s = c \<and> s_rows s = r \<and> 0 \<le> s_x s \<and> s_x s < c \<and> 0 \<le> s_y s \<and> s_y s < r \<and>
     wf_region r s \<and> length (cells s) = nat (c * r) \<and> list_all wf_slot (cells s)"

definition wf_size :: "int \<Rightarrow> int \<Rightarrow> bool" where
  "wf_size c r \<longleftrightarrow> 1 \<le> c \<and> 1 \<le> r \<and> c < 2 ^ 31 \<and> r < 2 ^ 31 \<and> c * r \<le> 2 ^ 32 - 1"

text \<open>A control sequence under construction: no final byte, and no decimal point.\<close>

definition wf_csi :: "nat list \<Rightarrow> bool" where
  "wf_csi cs \<longleftrightarrow> list_all (\<lambda>c. c \<noteq> 46 \<and> \<not> (0x40 \<le> c \<and> c \<le> 0x7e)) cs"

definition wf :: "model \<Rightarrow> bool" where
  "wf m \<longleftrightarrow>
     wf_size (columns m) (rows m) \<and>
     wf_screen (columns m) (rows m) (primary m) \<and> wf_screen (columns m) (rows m) (alternate m) \<and>
     wf_attrs (current m) \<and> wf_attrs (saved_attrs (saved m)) \<and>
     (case lastGraphic m of None \<Rightarrow> True | Some g \<Rightarrow> wf_cell g) \<and> wf_csi (csi m)"

definition cursor_in :: "int \<Rightarrow> int \<Rightarrow> screen \<Rightarrow> bool" where
  "cursor_in c r s \<longleftrightarrow> 0 \<le> s_x s \<and> s_x s < c \<and> 0 \<le> s_y s \<and> s_y s < r"

definition in_bounds :: "model \<Rightarrow> bool" where
  "in_bounds m \<longleftrightarrow> 1 \<le> columns m \<and> 1 \<le> rows m \<and>
     cursor_in (columns m) (rows m) (primary m) \<and> cursor_in (columns m) (rows m) (alternate m) \<and>
     utf16_length (csi m) \<le> 129 \<and> utf16_length (osc m) \<le> 4097"

lemma wf_active: "wf m \<Longrightarrow> wf_screen (columns m) (rows m) (active m)"
  by (simp add: wf_def active_def)

lemma wf_map_active:
  "wf m \<Longrightarrow> wf_screen (columns m) (rows m) (f (active m)) \<Longrightarrow> wf (map_active f m)"
  by (auto simp: wf_def map_active_def active_def split: if_splits)

lemma wf_upd_cells:
  assumes "wf m" and "length (f (cells (active m))) = length (cells (active m))"
    and "list_all wf_slot (f (cells (active m)))"
  shows "wf (upd_cells f m)"
  unfolding upd_cells_def
  by (rule wf_map_active [OF assms(1)])
     (use wf_active [OF assms(1)] assms(2,3) in \<open>simp add: wf_screen_def wf_region_def\<close>)

subsection \<open>Dimensions as naturals\<close>

definition C :: "model \<Rightarrow> nat" where "C m = nat (columns m)"
definition R :: "model \<Rightarrow> nat" where "R m = nat (rows m)"
definition X :: "model \<Rightarrow> nat" where "X m = nat (get_x m)"
definition Y :: "model \<Rightarrow> nat" where "Y m = nat (get_y m)"

lemma dims_upd_cells [simp]:
  "C (upd_cells f m) = C m" "R (upd_cells f m) = R m"
  "X (upd_cells f m) = X m" "Y (upd_cells f m) = Y m"
  by (simp_all add: C_def R_def X_def Y_def)

lemma js_add_nat [js_num]: "a + b < 2 ^ 53 \<Longrightarrow> js_add (of_nat a) (of_nat b) = of_nat (a + b)"
  using js_add_int [of "int a" "int b"] by simp

lemma js_sub_nat [js_num]: "b \<le> a \<Longrightarrow> a < 2 ^ 53 \<Longrightarrow> js_sub (of_nat a) (of_nat b) = of_nat (a - b)"
  using js_sub_int [of "int a" "int b"] by (simp add: of_nat_diff)

lemma js_mul_nat [js_num]: "a * b < 2 ^ 53 \<Longrightarrow> js_mul (of_nat a) (of_nat b) = of_nat (a * b)"
  using js_mul_int [of "int a" "int b"] by (simp flip: of_nat_mult)

lemma wf_dims:
  assumes "wf m"
  shows "of_int (columns m) = (of_nat (C m) :: rat)" "of_int (rows m) = (of_nat (R m) :: rat)"
    "of_int (get_x m) = (of_nat (X m) :: rat)" "of_int (get_y m) = (of_nat (Y m) :: rat)"
    "X m < C m" "Y m < R m" "C m * R m < 2 ^ 32" "C m < 2 ^ 31" "R m < 2 ^ 31"
    "length (cells (active m)) = C m * R m" "columns m = int (C m)" "rows m = int (R m)"
    "get_x m = int (X m)" "get_y m = int (Y m)"
proof -
  from assms have s: "wf_size (columns m) (rows m)" by (simp add: wf_def)
  note a = wf_active [OF assms]
  from s have pos: "1 \<le> columns m" "1 \<le> rows m" by (simp_all add: wf_size_def)
  show c: "columns m = int (C m)" and r: "rows m = int (R m)"
    using pos by (simp_all add: C_def R_def)
  show x: "get_x m = int (X m)" and y: "get_y m = int (Y m)"
    using a by (simp_all add: X_def Y_def get_x_def get_y_def wf_screen_def)
  show "of_int (columns m) = (of_nat (C m) :: rat)" "of_int (rows m) = (of_nat (R m) :: rat)"
    "of_int (get_x m) = (of_nat (X m) :: rat)" "of_int (get_y m) = (of_nat (Y m) :: rat)"
    by (simp_all add: c r x y)
  show "X m < C m" "Y m < R m"
    using a pos by (simp_all add: X_def Y_def C_def R_def get_x_def get_y_def wf_screen_def)
  have "columns m * rows m = int (C m * R m)" by (simp add: c r)
  moreover from s have "columns m * rows m \<le> 2 ^ 32 - 1" by (simp add: wf_size_def)
  ultimately have "int (C m * R m) < int (2 ^ 32)" by simp
  then show "C m * R m < 2 ^ 32" by (simp only: of_nat_less_iff)
  show "C m < 2 ^ 31" "R m < 2 ^ 31" using s by (auto simp: wf_size_def C_def R_def nat_less_iff)
  show "length (cells (active m)) = C m * R m"
    using a \<open>columns m * rows m = int (C m * R m)\<close>
    by (simp only: wf_screen_def nat_int)
qed

lemma cell_offset_less:
  "y < r \<Longrightarrow> x < c \<Longrightarrow> y * c + x < c * (r :: nat)"
proof -
  assume "y < r" "x < c"
  then have "y * c + x < y * c + c" by simp
  also have "\<dots> = Suc y * c" by simp
  also have "\<dots> \<le> r * c" using \<open>y < r\<close> by (intro mult_right_mono) simp_all
  finally show ?thesis by (simp add: mult.commute)
qed

lemma index_of_nat:
  assumes "wf m" and "x < C m" and "y < R m"
  shows "index m (of_nat x) (of_nat y) = of_nat (y * C m + x)"
proof -
  note d = wf_dims [OF assms(1)]
  have l: "y * C m + x < C m * R m" using assms by (intro cell_offset_less)
  then have b: "y * C m + x < 2 ^ 53" using d(7) by simp
  have "js_mul (of_nat y) (of_int (columns m)) = of_nat (y * C m)"
    unfolding d(1) using b by (intro js_mul_nat) simp
  then show ?thesis unfolding index_def by (simp only: js_add_nat [OF b])
qed

definition clamp_count :: "nat \<Rightarrow> rat \<Rightarrow> nat" where
  "clamp_count n v = nat (max 1 (min (int n) \<lfloor>v\<rfloor>))"

lemma clamp_count_bounds: "1 \<le> clamp_count n v" "1 \<le> n \<Longrightarrow> clamp_count n v \<le> n"
  by (auto simp: clamp_count_def)

lemma clamp_Ints:
  assumes "v \<in> \<int>"
  shows "clamp v 1 (of_nat n) = of_nat (clamp_count n v)"
proof -
  from assms obtain i where i: "v = of_int i" by (rule Ints_cases)
  have "clamp v 1 (of_nat n) = max (of_int 1) (min (of_int (int n)) (of_int i))"
    by (simp add: clamp_def i)
  also have "\<dots> = of_int (max 1 (min (int n) i))"
    by (simp only: of_int_max of_int_min)
  also have "max 1 (min (int n) i) = int (clamp_count n v)" by (simp add: clamp_count_def i)
  finally show ?thesis by (simp only: of_int_of_nat_eq)
qed

subsection \<open>Scrolling\<close>

definition scroll_spec :: "nat \<Rightarrow> nat \<Rightarrow> nat \<Rightarrow> nat \<Rightarrow> bool \<Rightarrow> 'a \<Rightarrow> 'a list \<Rightarrow> 'a list" where
  "scroll_spec c t b k down e cs =
     (let kept = (b + 1 - t - k) * c
      in take (t * c) cs
         @ (if down then replicate (k * c) e @ take kept (drop (t * c) cs)
            else take kept (drop ((t + k) * c) cs) @ replicate (k * c) e)
         @ drop ((b + 1) * c) cs)"

lemma fold_fill:
  assumes "a \<le> b" and "b \<le> length xs"
  shows "fold (\<lambda>i xs. xs[i := v]) [a..<b] xs = take a xs @ replicate (b - a) v @ drop b xs"
proof (rule nth_equalityI)
  have len: "length (fold (\<lambda>i xs. xs[i := v]) [a..<b] xs) = length xs"
    by (rule length_fold_update) simp
  then show "length (fold (\<lambda>i xs. xs[i := v]) [a..<b] xs)
      = length (take a xs @ replicate (b - a) v @ drop b xs)"
    using assms by simp
  fix j assume "j < length (fold (\<lambda>i xs. xs[i := v]) [a..<b] xs)"
  then have j: "j < length xs" using len by simp
  have "fold (\<lambda>i xs. xs[0 + i := v]) [a..<b] xs ! j = (if 0 + a \<le> j \<and> j < 0 + b then v else xs ! j)"
    using assms j by (intro nth_fill [where n = "length xs"]) auto
  then show "fold (\<lambda>i xs. xs[i := v]) [a..<b] xs ! j
      = (take a xs @ replicate (b - a) v @ drop b xs) ! j"
    using assms j by (auto simp: nth_append)
qed

lemma js_fill:
  assumes "a \<le> b" "b \<le> length xs" "length xs < 2 ^ 52"
  shows "js_for (loop_fuel (of_nat a) (of_nat b)) (of_nat a) (of_nat b)
           (\<lambda>i cs. js_set u cs i v) xs
       = take a xs @ replicate (b - a) v @ drop b xs"
proof -
  have "js_for (loop_fuel (of_nat a) (of_nat b)) (of_nat a) (of_nat b) (\<lambda>i cs. js_set u cs i v) xs
      = fold (\<lambda>i cs. js_set u cs (of_nat i) v) [a..<b] xs"
    using assms by (intro js_for_of_nat loop_fuel_of_nat) auto
  also have "\<dots> = fold (\<lambda>i cs. cs[i := v]) [a..<b] xs"
    using assms by (intro fold_cong_length [where n = "length xs"]) (auto simp: js_arr)
  finally show ?thesis using assms by (simp add: fold_fill)
qed

lemma copy_within_of_nat:
  assumes "s \<le> e" "e \<le> length xs" "t + (e - s) \<le> length xs"
  shows "copy_within xs (of_nat t) (of_nat s) (of_nat e)
       = take t xs @ take (e - s) (drop s xs) @ drop (t + (e - s)) xs"
proof -
  have "copy_within xs (of_int (int t)) (of_int (int s)) (of_int (int e)) =
     take (nat (int t)) xs @ take (nat (int e - int s)) (drop (nat (int s)) xs)
     @ drop (nat (int t + (int e - int s))) xs"
    using assms by (intro copy_within_of_int) auto
  moreover have "nat (int e - int s) = e - s" "nat (int t + (int e - int s)) = t + (e - s)"
    using assms by linarith+
  ultimately show ?thesis by simp
qed

lemma scroll_lists:
  assumes "p + kc + jc \<le> length cs"
  shows "take (p + jc) (take p cs @ take jc (drop (p + kc) cs) @ drop (p + jc) cs)
           @ replicate kc e @ drop (p + kc + jc) (take p cs @ take jc (drop (p + kc) cs) @ drop (p + jc) cs)
       = take p cs @ take jc (drop (p + kc) cs) @ replicate kc e @ drop (p + kc + jc) cs"
    and "take p (take (p + kc) cs @ take jc (drop p cs) @ drop (p + kc + jc) cs)
           @ replicate kc e @ drop (p + kc) (take (p + kc) cs @ take jc (drop p cs) @ drop (p + kc + jc) cs)
       = take p cs @ replicate kc e @ take jc (drop p cs) @ drop (p + kc + jc) cs"
  using assms by (simp_all add: add.commute add.left_commute)

lemma scrollLines_closed:
  assumes wf: "wf m" and tb: "t \<le> b" "b < R m" and cnt: "cnt \<in> \<int>"
  shows "scrollLines (of_nat t) (of_nat b) cnt down m
       = upd_cells (scroll_spec (C m) t b (clamp_count (b - t + 1) cnt) down (Cell (eraseCell m))) m"
proof -
  note d = wf_dims [OF wf]
  let ?c = "C m" and ?cs = "cells (active m)"
  define k where "k = clamp_count (b - t + 1) cnt"
  have k: "1 \<le> k" "k \<le> b - t + 1" unfolding k_def by (rule clamp_count_bounds, simp)+
  have k': "clamp cnt 1 (of_nat (b - t + 1)) = (of_nat k :: rat)"
    unfolding k_def by (rule clamp_Ints [OF cnt])
  have big: "n \<le> ?c * R m \<Longrightarrow> n < 2 ^ 52" for n using d(7) by simp
  have le: "j \<le> b + 1 \<Longrightarrow> j * ?c \<le> ?c * R m" for j
    using tb by (metis Suc_eq_plus1 Suc_leI le_trans mult.commute mult_le_mono1)
  have one: "(1::rat) = of_nat 1" by simp
  have count: "clamp cnt 1 (js_add (js_sub (of_nat b) (of_nat t)) 1) = of_nat k"
  proof -
    have "js_sub (of_nat b) (of_nat t) = of_nat (b - t)"
      using tb d(9) by (intro js_sub_nat) simp_all
    moreover have "js_add (of_nat (b - t)) (of_nat 1) = of_nat (b - t + 1)"
      using tb d(9) by (intro js_add_nat) simp
    ultimately show ?thesis using k' by (simp only: of_nat_1)
  qed
  have start: "js_mul (of_nat t) (of_int (columns m)) = of_nat (t * ?c)"
    using le [of t] big [of "t * ?c"] tb unfolding d(1) by (intro js_mul_nat) simp
  have stop: "js_mul (js_add (of_nat b) 1) (of_int (columns m)) = of_nat ((b + 1) * ?c)"
  proof -
    have "js_add (of_nat b) 1 = of_nat (b + 1)" unfolding one using tb d(9) by (intro js_add_nat) simp
    then show ?thesis using le [of "b + 1"] big [of "(b + 1) * ?c"] unfolding d(1)
      by (simp only:) (intro js_mul_nat, simp)
  qed
  have off: "js_mul (of_nat k) (of_int (columns m)) = of_nat (k * ?c)"
    using le [of k] k big [of "k * ?c"] unfolding d(1) by (intro js_mul_nat) simp
  have tk: "t * ?c + k * ?c = (t + k) * ?c" by (simp add: add_mult_distrib)
  have so: "js_add (of_nat (t * ?c)) (of_nat (k * ?c)) = of_nat ((t + k) * ?c)"
    using le [of "t + k"] k tb big [of "(t + k) * ?c"] unfolding tk [symmetric]
    by (intro js_add_nat) simp
  have bk: "(b + 1) * ?c - k * ?c = (b + 1 - k) * ?c" by (simp add: diff_mult_distrib)
  have eo: "js_sub (of_nat ((b + 1) * ?c)) (of_nat (k * ?c)) = of_nat ((b + 1 - k) * ?c)"
    using le [of "b + 1"] k tb big [of "(b + 1) * ?c"] unfolding bk [symmetric]
    by (intro js_sub_nat mult_right_mono) simp_all
  have be: "js_add (of_nat ((b + 1 - k) * ?c)) (of_nat (k * ?c)) = of_nat ((b + 1) * ?c)"
  proof -
    have "(b + 1 - k) * ?c + k * ?c = (b + 1) * ?c"
      using k tb by (simp flip: add_mult_distrib)
    moreover from this have "(b + 1 - k) * ?c + k * ?c < 2 ^ 53"
      using le [of "b + 1"] big [of "(b + 1) * ?c"] by simp
    ultimately show ?thesis by (simp only: js_add_nat)
  qed
  define j where "j = b + 1 - t - k"
  have b1: "b + 1 = t + k + j" "b + 1 - k = t + j" using k tb by (simp_all add: j_def)
  define p kc jc where "p = t * ?c" and "kc = k * ?c" and "jc = j * ?c"
  have sums: "(b + 1) * ?c = p + kc + jc" "(t + k) * ?c = p + kc" "(b + 1 - k) * ?c = p + jc"
    by (simp_all only: b1(2) p_def kc_def jc_def add_mult_distrib [symmetric]) (simp only: b1(1))
  have len: "p + kc + jc \<le> length ?cs" "length ?cs < 2 ^ 52"
    using le [of "b + 1"] big [of "length ?cs"] d(10) sums(1) by simp_all
  note eqs = count start stop off so eo be
  note eqs = eqs [unfolded sums, folded p_def kc_def]
  show ?thesis
  proof (cases down)
    case True
    have "copy_within ?cs (of_nat (p + kc)) (of_nat p) (of_nat (p + jc))
        = take (p + kc) ?cs @ take jc (drop p ?cs) @ drop (p + kc + jc) ?cs" (is "_ = ?dn")
      using len by (subst copy_within_of_nat) simp_all
    moreover have "js_for (loop_fuel (of_nat p) (of_nat (p + kc))) (of_nat p) (of_nat (p + kc))
        (\<lambda>i cs. js_set Undefined cs i (Cell (eraseCell m))) ?dn
        = take p ?dn @ replicate kc (Cell (eraseCell m)) @ drop (p + kc) ?dn"
      using len by (subst js_fill) simp_all
    ultimately show ?thesis using True len(1)
      unfolding k_def [symmetric] scrollLines_def Let_def eqs
      by (intro upd_cells_cong) (simp only: eqs if_True scroll_lists(2) scroll_spec_def Let_def j_def [symmetric] jc_def [symmetric]
            p_def [symmetric] kc_def [symmetric] sums append_assoc)
  next
    case False
    have "copy_within ?cs (of_nat p) (of_nat (p + kc)) (of_nat (p + kc + jc))
        = take p ?cs @ take jc (drop (p + kc) ?cs) @ drop (p + jc) ?cs" (is "_ = ?up")
      using len by (subst copy_within_of_nat) simp_all
    moreover have "js_for (loop_fuel (of_nat (p + jc)) (of_nat (p + kc + jc))) (of_nat (p + jc))
        (of_nat (p + kc + jc)) (\<lambda>i cs. js_set Undefined cs i (Cell (eraseCell m))) ?up
        = take (p + jc) ?up @ replicate kc (Cell (eraseCell m)) @ drop (p + kc + jc) ?up"
      using len by (subst js_fill) simp_all
    ultimately show ?thesis using False len(1)
      unfolding k_def [symmetric] scrollLines_def Let_def eqs
      by (intro upd_cells_cong) (simp only: eqs if_False scroll_lists(1) scroll_spec_def Let_def j_def [symmetric] jc_def [symmetric]
            p_def [symmetric] kc_def [symmetric] sums append_assoc)
  qed
qed

subsection \<open>Operations on one row\<close>

definition row_map :: "nat \<Rightarrow> nat \<Rightarrow> ('a list \<Rightarrow> 'a list) \<Rightarrow> 'a list \<Rightarrow> 'a list" where
  "row_map y c f cs = take (y * c) cs @ f (take c (drop (y * c) cs)) @ drop (y * c + c) cs"

definition erase_row :: "nat \<Rightarrow> nat \<Rightarrow> 'a \<Rightarrow> 'a list \<Rightarrow> 'a list" where
  "erase_row x k e row = take x row @ replicate k e @ drop (x + k) row"

definition insert_row :: "nat \<Rightarrow> nat \<Rightarrow> 'a \<Rightarrow> 'a list \<Rightarrow> 'a list" where
  "insert_row x k e row = take x row @ replicate k e @ take (length row - x - k) (drop x row)"

definition delete_row :: "nat \<Rightarrow> nat \<Rightarrow> 'a \<Rightarrow> 'a list \<Rightarrow> 'a list" where
  "delete_row x k e row = take x row @ drop (x + k) row @ replicate k e"

lemma length_row_ops:
  "x + k \<le> length row \<Longrightarrow> length (erase_row x k e row) = length row"
  "x + k \<le> length row \<Longrightarrow> length (insert_row x k e row) = length row"
  "x + k \<le> length row \<Longrightarrow> length (delete_row x k e row) = length row"
  by (simp_all add: erase_row_def insert_row_def delete_row_def)

lemma row_ops_all:
  "list_all P row \<Longrightarrow> P e \<Longrightarrow> list_all P (erase_row x k e row)"
  "list_all P row \<Longrightarrow> P e \<Longrightarrow> list_all P (insert_row x k e row)"
  "list_all P row \<Longrightarrow> P e \<Longrightarrow> list_all P (delete_row x k e row)"
  by (auto simp: list_all_iff erase_row_def insert_row_def delete_row_def
      dest: in_set_takeD in_set_dropD)

lemma row_map_ext:
  assumes len: "y * c + c \<le> length cs" "length cs' = length cs"
    and row: "length (f (take c (drop (y * c) cs))) = c"
    and nth: "\<And>j. j < length cs \<Longrightarrow> cs' ! j =
      (if y * c \<le> j \<and> j < y * c + c then f (take c (drop (y * c) cs)) ! (j - y * c) else cs ! j)"
  shows "cs' = row_map y c f cs"
proof (rule nth_equalityI)
  show "length cs' = length (row_map y c f cs)"
    using len row by (simp add: row_map_def)
  fix j assume "j < length cs'"
  then have j: "j < length cs" using len(2) by simp
  consider "j < y * c" | "y * c \<le> j" "j < y * c + c" | "y * c + c \<le> j" by linarith
  then show "cs' ! j = row_map y c f cs ! j"
    using nth [OF j] len(1) row j
    by cases (auto simp: row_map_def nth_append less_diff_conv2)
qed

lemma row_map_fill:
  assumes "y * c + c \<le> length cs" and "x + k \<le> c"
  shows "fold (\<lambda>i cs. cs[y * c + i := v]) [x..<x + k] cs = row_map y c (erase_row x k v) cs"
proof (rule row_map_ext)
  show "length (fold (\<lambda>i cs. cs[y * c + i := v]) [x..<x + k] cs) = length cs"
    by (rule length_fold_update) simp
  show "length (erase_row x k v (take c (drop (y * c) cs))) = c"
    using assms by (simp add: length_row_ops)
  fix j assume j: "j < length cs"
  have "fold (\<lambda>i cs. cs[y * c + i := v]) [x..<x + k] cs ! j
      = (if y * c + x \<le> j \<and> j < y * c + (x + k) then v else cs ! j)"
    using assms j by (intro nth_fill [where n = c]) auto
  then show "fold (\<lambda>i cs. cs[y * c + i := v]) [x..<x + k] cs ! j = (if y * c \<le> j \<and> j < y * c + c
        then erase_row x k v (take c (drop (y * c) cs)) ! (j - y * c) else cs ! j)"
    using assms j by (auto simp: erase_row_def nth_append)
qed (use assms in simp)

lemma row_map_insert:
  assumes "y * c + c \<le> length cs" and "x + k \<le> c"
  shows "fold (\<lambda>i cs. cs[y * c + i := v]) [x..<x + k]
           (fold (\<lambda>i cs. cs[y * c + i := cs ! (y * c + (i - k))]) (rev [x + k..<c]) cs)
       = row_map y c (insert_row x k v) cs" (is "?l = _")
proof (rule row_map_ext)
  let ?sh = "fold (\<lambda>i cs. cs[y * c + i := cs ! (y * c + (i - k))]) (rev [x + k..<c]) cs"
  have ls: "length ?sh = length cs" by (rule length_fold_update) simp
  have "length ?l = length ?sh" by (rule length_fold_update) simp
  with ls show "length ?l = length cs" by simp
  show "length (insert_row x k v (take c (drop (y * c) cs))) = c"
    using assms by (simp add: length_row_ops)
  fix j assume j: "j < length cs"
  have "?sh ! j = (if y * c + (x + k) \<le> j \<and> j < y * c + c then cs ! (j - k) else cs ! j)"
    using assms j by (intro nth_shift_right [where n = c]) auto
  moreover have "?l ! j = (if y * c + x \<le> j \<and> j < y * c + (x + k) then v else ?sh ! j)"
    using assms j ls by (intro nth_fill [where n = c]) auto
  ultimately show "?l ! j = (if y * c \<le> j \<and> j < y * c + c
        then insert_row x k v (take c (drop (y * c) cs)) ! (j - y * c) else cs ! j)"
    using assms j by (auto simp: insert_row_def nth_append)
qed (use assms in simp)

lemma row_map_delete:
  assumes "y * c + c \<le> length cs" and "x + k \<le> c"
  shows "fold (\<lambda>i cs. cs[y * c + i := v]) [c - k..<c]
           (fold (\<lambda>i cs. cs[y * c + i := cs ! (y * c + (i + k))]) [x..<c - k] cs)
       = row_map y c (delete_row x k v) cs" (is "?l = _")
proof (rule row_map_ext)
  let ?sh = "fold (\<lambda>i cs. cs[y * c + i := cs ! (y * c + (i + k))]) [x..<c - k] cs"
  have ls: "length ?sh = length cs" by (rule length_fold_update) simp
  have "length ?l = length ?sh" by (rule length_fold_update) simp
  with ls show "length ?l = length cs" by simp
  show "length (delete_row x k v (take c (drop (y * c) cs))) = c"
    using assms by (simp add: length_row_ops)
  fix j assume j: "j < length cs"
  have "?sh ! j = (if y * c + x \<le> j \<and> j < y * c + (c - k) then cs ! (j + k) else cs ! j)"
    using assms j by (intro nth_shift_left [where n = c]) auto
  moreover have "?l ! j = (if y * c + (c - k) \<le> j \<and> j < y * c + c then v else ?sh ! j)"
    using assms j ls by (intro nth_fill [where n = c]) auto
  ultimately show "?l ! j = (if y * c \<le> j \<and> j < y * c + c
        then delete_row x k v (take c (drop (y * c) cs)) ! (j - y * c) else cs ! j)"
    using assms j by (auto simp: delete_row_def nth_append add.commute add.left_commute)
qed (use assms in simp)

text \<open>The model's row loops are those folds.\<close>

lemma row_loops:
  assumes wf: "wf m" and y: "y < R m" and cs: "length cs = C m * R m"
  shows row_fill_loop: "a \<le> b \<Longrightarrow> b \<le> C m \<Longrightarrow>
      js_for (loop_fuel (of_nat a) (of_nat b)) (of_nat a) (of_nat b)
        (\<lambda>i cs. js_set Undefined cs (index m i (of_nat y)) v) cs
      = fold (\<lambda>i cs. cs[y * C m + i := v]) [a..<b] cs"
    and row_left_loop: "b + k \<le> C m \<Longrightarrow>
      js_for (loop_fuel (of_nat a) (of_nat b)) (of_nat a) (of_nat b)
        (\<lambda>i cs. js_set Undefined cs (index m i (of_nat y))
           (js_get Undefined cs (index m (js_add i (of_nat k)) (of_nat y)))) cs
      = fold (\<lambda>i cs. cs[y * C m + i := cs ! (y * C m + (i + k))]) [a..<b] cs"
    and row_right_loop: "k \<le> a \<Longrightarrow>
      js_for_down (nat (columns m)) (of_int (columns m - 1)) (of_nat a)
        (\<lambda>i cs. js_set Undefined cs (index m i (of_nat y))
           (js_get Undefined cs (index m (js_sub i (of_nat k)) (of_nat y)))) cs
      = fold (\<lambda>i cs. cs[y * C m + i := cs ! (y * C m + (i - k))]) (rev [a..<C m]) cs"
proof -
  note d = wf_dims [OF wf]
  have ix: "i < C m \<Longrightarrow> index m (of_nat i) (of_nat y) = of_nat (y * C m + i)" for i
    using wf y by (intro index_of_nat) simp_all
  have lt: "i < C m \<Longrightarrow> length ys = C m * R m \<Longrightarrow> y * C m + i < length ys" for i and ys :: "slot list"
    using cell_offset_less [OF y, of i "C m"] by simp
  have small: "i \<le> C m \<Longrightarrow> i < 2 ^ 52" for i using d(8) by simp
  show "js_for (loop_fuel (of_nat a) (of_nat b)) (of_nat a) (of_nat b)
        (\<lambda>i cs. js_set Undefined cs (index m i (of_nat y)) v) cs
      = fold (\<lambda>i cs. cs[y * C m + i := v]) [a..<b] cs" if "a \<le> b" "b \<le> C m"
  proof -
    have "a < 2 ^ 52" "b < 2 ^ 52" using small [of a] small [of b] that by simp_all
    then have "js_for (loop_fuel (of_nat a) (of_nat b)) (of_nat a) (of_nat b)
        (\<lambda>i cs. js_set Undefined cs (index m i (of_nat y)) v) cs
      = fold (\<lambda>i cs. js_set Undefined cs (index m (of_nat i) (of_nat y)) v) [a..<b] cs"
      by (intro js_for_of_nat loop_fuel_of_nat)
    also have "\<dots> = fold (\<lambda>i cs. cs[y * C m + i := v]) [a..<b] cs"
      using that lt by (intro fold_cong_length [OF cs]) (simp_all add: ix js_set_of_nat del: of_nat_add of_nat_mult)
    finally show ?thesis .
  qed
  show "js_for (loop_fuel (of_nat a) (of_nat b)) (of_nat a) (of_nat b)
        (\<lambda>i cs. js_set Undefined cs (index m i (of_nat y))
           (js_get Undefined cs (index m (js_add i (of_nat k)) (of_nat y)))) cs
      = fold (\<lambda>i cs. cs[y * C m + i := cs ! (y * C m + (i + k))]) [a..<b] cs" if "b + k \<le> C m"
  proof (cases "a < b")
    case True
    then have "a < 2 ^ 52" "b < 2 ^ 52" using small [of a] small [of b] that by simp_all
    then have "js_for (loop_fuel (of_nat a) (of_nat b)) (of_nat a) (of_nat b)
        (\<lambda>i cs. js_set Undefined cs (index m i (of_nat y))
           (js_get Undefined cs (index m (js_add i (of_nat k)) (of_nat y)))) cs
      = fold (\<lambda>i cs. js_set Undefined cs (index m (of_nat i) (of_nat y))
           (js_get Undefined cs (index m (js_add (of_nat i) (of_nat k)) (of_nat y)))) [a..<b] cs"
      by (intro js_for_of_nat loop_fuel_of_nat)
    also have "\<dots> = fold (\<lambda>i cs. cs[y * C m + i := cs ! (y * C m + (i + k))]) [a..<b] cs"
    proof (intro fold_cong_length [OF cs])
      fix i and ys :: "slot list" assume i: "i \<in> set [a..<b]" and ys: "length ys = C m * R m"
      have "i + k < C m" using i that by simp
      moreover from this have "js_add (of_nat i) (of_nat k) = of_nat (i + k)"
        using small [of "i + k"] by (intro js_add_nat) simp
      ultimately show "js_set Undefined ys (index m (of_nat i) (of_nat y))
           (js_get Undefined ys (index m (js_add (of_nat i) (of_nat k)) (of_nat y)))
          = ys[y * C m + i := ys ! (y * C m + (i + k))]"
        using lt [of i ys] lt [of "i + k" ys] ys
        by (simp add: ix js_set_of_nat js_get_of_nat del: of_nat_add of_nat_mult)
    qed simp
    finally show ?thesis .
  next
    case False
    then show ?thesis by (simp add: loop_fuel_def)
  qed
  show "js_for_down (nat (columns m)) (of_int (columns m - 1)) (of_nat a)
        (\<lambda>i cs. js_set Undefined cs (index m i (of_nat y))
           (js_get Undefined cs (index m (js_sub i (of_nat k)) (of_nat y)))) cs
      = fold (\<lambda>i cs. cs[y * C m + i := cs ! (y * C m + (i - k))]) (rev [a..<C m]) cs" if "k \<le> a"
  proof -
    have "js_for_down (nat (columns m)) (of_int (int (C m) - 1)) (of_nat a)
        (\<lambda>i cs. js_set Undefined cs (index m i (of_nat y))
           (js_get Undefined cs (index m (js_sub i (of_nat k)) (of_nat y)))) cs
      = fold (\<lambda>i cs. js_set Undefined cs (index m (of_nat i) (of_nat y))
           (js_get Undefined cs (index m (js_sub (of_nat i) (of_nat k)) (of_nat y)))) (rev [a..<C m]) cs"
      using small [of "C m"] by (intro js_for_down_of_nat) (simp_all add: C_def)
    also have "\<dots> = fold (\<lambda>i cs. cs[y * C m + i := cs ! (y * C m + (i - k))]) (rev [a..<C m]) cs"
    proof (intro fold_cong_length [OF cs])
      fix i and ys :: "slot list" assume i: "i \<in> set (rev [a..<C m])" and ys: "length ys = C m * R m"
      have "i < C m" "k \<le> i" "i - k < C m" using i that by auto
      moreover from this have "js_sub (of_nat i) (of_nat k) = of_nat (i - k)"
        using small [of i] by (intro js_sub_nat) simp_all
      ultimately show "js_set Undefined ys (index m (of_nat i) (of_nat y))
           (js_get Undefined ys (index m (js_sub (of_nat i) (of_nat k)) (of_nat y)))
          = ys[y * C m + i := ys ! (y * C m + (i - k))]"
        using lt [of i ys] lt [of "i - k" ys] ys
        by (simp add: ix js_set_of_nat js_get_of_nat del: of_nat_add of_nat_mult of_nat_diff)
    qed simp
    finally show ?thesis using d(11) by simp
  qed
qed

subsection \<open>Closed forms of the editing operations\<close>

definition pen_count :: "model \<Rightarrow> rat \<Rightarrow> nat" where
  "pen_count m n = clamp_count (C m - X m) n"

lemma pen_count:
  assumes wf: "wf m" and n: "n \<in> \<int>"
  shows "1 \<le> pen_count m n" and "X m + pen_count m n \<le> C m"
    and "clamp n 1 (of_int (columns m - get_x m)) = of_nat (pen_count m n)"
    and "js_add (of_nat (X m)) (of_nat (pen_count m n)) = of_nat (X m + pen_count m n)"
    and "js_sub (of_nat (C m)) (of_nat (pen_count m n)) = of_nat (C m - pen_count m n)"
    and "Y m * C m + C m \<le> C m * R m"
proof -
  note d = wf_dims [OF wf]
  have "1 \<le> C m - X m" using d(5) by simp
  note b = clamp_count_bounds(1) [of "C m - X m" n] clamp_count_bounds(2) [OF this, of n]
  show k1: "1 \<le> pen_count m n" unfolding pen_count_def by (rule b(1))
  show k2: "X m + pen_count m n \<le> C m" using b(2) d(5) unfolding pen_count_def by linarith
  have "(of_int (columns m - get_x m) :: rat) = of_nat (C m - X m)"
    using d(5) by (simp add: d(11,13) of_nat_diff)
  then show "clamp n 1 (of_int (columns m - get_x m)) = of_nat (pen_count m n)"
    using clamp_Ints [OF n] by (simp only: pen_count_def)
  show "js_add (of_nat (X m)) (of_nat (pen_count m n)) = of_nat (X m + pen_count m n)"
    using k2 d(8) by (intro js_add_nat) simp
  show "js_sub (of_nat (C m)) (of_nat (pen_count m n)) = of_nat (C m - pen_count m n)"
    using k2 d(8) by (intro js_sub_nat) simp_all
  show "Y m * C m + C m \<le> C m * R m"
    using d(6) by (metis Suc_leI add.commute mult.commute mult_Suc mult_le_mono1)
qed

lemma eraseCharacters_closed:
  assumes wf: "wf m" and n: "n \<in> \<int>"
  shows "eraseCharacters n m = upd_cells (row_map (Y m) (C m)
           (erase_row (X m) (pen_count m n) (Cell (pen_blank m)))) m"
proof -
  note d = wf_dims [OF wf] and p = pen_count [OF wf n]
  let ?e = "Cell (pen_blank m)"
  have "eraseCharacters n m = upd_cells (js_for (loop_fuel (of_nat (X m)) (of_nat (X m + pen_count m n)))
      (of_nat (X m)) (of_nat (X m + pen_count m n))
      (\<lambda>i cs. js_set Undefined cs (index m i (of_nat (Y m))) ?e)) m"
    unfolding eraseCharacters_def Let_def d(3) p(3,4)
    by (rule js_for_upd_cells0) (simp add: put_cell_def upd_cells_upd_cells d(4) del: of_int_of_nat_eq)
  also have "\<dots> = upd_cells (row_map (Y m) (C m) (erase_row (X m) (pen_count m n) ?e)) m"
    by (rule upd_cells_cong, subst row_fill_loop [OF wf d(6) d(10)])
       (use p d(10) in \<open>simp_all add: row_map_fill\<close>)
  finally show ?thesis .
qed

lemma insertCharacters_closed:
  assumes wf: "wf m" and n: "n \<in> \<int>"
  shows "insertCharacters n m = upd_cells (row_map (Y m) (C m)
           (insert_row (X m) (pen_count m n) (Cell (pen_blank m)))) m"
proof -
  note d = wf_dims [OF wf] and p = pen_count [OF wf n]
  let ?e = "Cell (pen_blank m)" and ?k = "pen_count m n"
  let ?shift = "js_for_down (nat (columns m)) (of_int (columns m - 1)) (of_nat (X m + ?k))
      (\<lambda>i cs. js_set Undefined cs (index m i (of_nat (Y m)))
         (js_get Undefined cs (index m (js_sub i (of_nat ?k)) (of_nat (Y m)))))"
  have shift: "js_for_down (nat (columns m)) (of_int (columns m - 1)) (of_nat (X m + ?k))
      (\<lambda>column m'. put_cell (index m' column (of_nat (Y m)))
         (cell_at m' (js_sub column (of_nat ?k)) (of_nat (Y m))) m') m = upd_cells ?shift m"
    by (rule js_for_down_upd_cells0)
       (auto simp: put_cell_def upd_cells_upd_cells intro!: upd_cells_cong)
  have "insertCharacters n m = upd_cells (\<lambda>cs. js_for (loop_fuel (of_nat (X m)) (of_nat (X m + ?k)))
      (of_nat (X m)) (of_nat (X m + ?k))
      (\<lambda>i cs. js_set Undefined cs (index m i (of_nat (Y m))) ?e) (?shift cs)) m"
    unfolding insertCharacters_def Let_def d(3,4) p(3,4) shift
    by (rule js_for_upd_cells) (simp add: put_cell_def upd_cells_upd_cells)
  also have "\<dots> = upd_cells (row_map (Y m) (C m) (insert_row (X m) ?k ?e)) m"
  proof (rule upd_cells_cong)
    have "?shift (cells (active m)) = fold (\<lambda>i cs. cs[Y m * C m + i := cs ! (Y m * C m + (i - ?k))])
        (rev [X m + ?k..<C m]) (cells (active m))"
      by (rule row_right_loop [OF wf d(6) d(10)]) simp
    moreover have "length (fold (\<lambda>i cs. cs[Y m * C m + i := cs ! (Y m * C m + (i - ?k))])
        (rev [X m + ?k..<C m]) (cells (active m))) = C m * R m"
      unfolding d(10) [symmetric] by (rule length_fold_update) simp
    ultimately show "js_for (loop_fuel (of_nat (X m)) (of_nat (X m + ?k)))
      (of_nat (X m)) (of_nat (X m + ?k))
      (\<lambda>i cs. js_set Undefined cs (index m i (of_nat (Y m))) ?e) (?shift (cells (active m)))
      = row_map (Y m) (C m) (insert_row (X m) ?k ?e) (cells (active m))"
      using p d(10) row_map_insert [of "Y m" "C m" "cells (active m)" "X m" ?k ?e]
      by (simp only:) (subst row_fill_loop [OF wf d(6)], simp_all)
  qed
  finally show ?thesis .
qed

lemma deleteCharacters_closed:
  assumes wf: "wf m" and n: "n \<in> \<int>"
  shows "deleteCharacters n m = upd_cells (row_map (Y m) (C m)
           (delete_row (X m) (pen_count m n) (Cell (pen_blank m)))) m"
proof -
  note d = wf_dims [OF wf] and p = pen_count [OF wf n]
  let ?e = "Cell (pen_blank m)" and ?k = "pen_count m n"
  let ?shift = "js_for (loop_fuel (of_nat (X m)) (of_nat (C m - ?k))) (of_nat (X m)) (of_nat (C m - ?k))
      (\<lambda>i cs. js_set Undefined cs (index m i (of_nat (Y m)))
         (js_get Undefined cs (index m (js_add i (of_nat ?k)) (of_nat (Y m)))))"
  have shift: "js_for (loop_fuel (of_nat (X m)) (of_nat (C m - ?k))) (of_nat (X m)) (of_nat (C m - ?k))
      (\<lambda>column m'. put_cell (index m' column (of_nat (Y m)))
         (cell_at m' (js_add column (of_nat ?k)) (of_nat (Y m))) m') m = upd_cells ?shift m"
    by (rule js_for_upd_cells0)
       (auto simp: put_cell_def upd_cells_upd_cells intro!: upd_cells_cong)
  have "deleteCharacters n m = upd_cells (\<lambda>cs. js_for (loop_fuel (of_nat (C m - ?k)) (of_nat (C m)))
      (of_nat (C m - ?k)) (of_nat (C m))
      (\<lambda>i cs. js_set Undefined cs (index m i (of_nat (Y m))) ?e) (?shift cs)) m"
    unfolding deleteCharacters_def Let_def d(1,3,4) p(3,5) shift
    by (rule js_for_upd_cells) (simp add: put_cell_def upd_cells_upd_cells)
  also have "\<dots> = upd_cells (row_map (Y m) (C m) (delete_row (X m) ?k ?e)) m"
  proof (rule upd_cells_cong)
    have "?shift (cells (active m)) = fold (\<lambda>i cs. cs[Y m * C m + i := cs ! (Y m * C m + (i + ?k))])
        [X m..<C m - ?k] (cells (active m))"
      by (rule row_left_loop [OF wf d(6) d(10)]) (use p(2) in simp)
    moreover have "length (fold (\<lambda>i cs. cs[Y m * C m + i := cs ! (Y m * C m + (i + ?k))])
        [X m..<C m - ?k] (cells (active m))) = C m * R m"
      unfolding d(10) [symmetric] by (rule length_fold_update) simp
    ultimately show "js_for (loop_fuel (of_nat (C m - ?k)) (of_nat (C m)))
      (of_nat (C m - ?k)) (of_nat (C m))
      (\<lambda>i cs. js_set Undefined cs (index m i (of_nat (Y m))) ?e) (?shift (cells (active m)))
      = row_map (Y m) (C m) (delete_row (X m) ?k ?e) (cells (active m))"
      using p d(10) row_map_delete [of "Y m" "C m" "cells (active m)" "X m" ?k ?e]
      by (simp only:) (subst row_fill_loop [OF wf d(6)], simp_all)
  qed
  finally show ?thesis .
qed

lemma row_end:
  assumes "wf m" and "y < R m"
  shows "y * C m + C m \<le> C m * R m"
  using assms(2) by (metis Suc_leI add.commute mult.commute mult_Suc mult_le_mono1)

lemma blank_columns_closed:
  assumes wf: "wf m" and y: "y < R m" and ab: "a \<le> b" "b \<le> C m"
  shows "blank_columns (int a) (int b - 1) (int y) m
       = upd_cells (row_map y (C m) (erase_row a (b - a) (Cell blankCell))) m"
proof -
  note d = wf_dims [OF wf]
  let ?g = "\<lambda>i cs. js_set Undefined cs (index m (of_nat i) (of_nat y)) (Cell blankCell)"
  have "blank_columns (int a) (int b - 1) (int y) m
      = fold (\<lambda>q. put_cell (index m q (of_nat y)) (Cell blankCell)) (map of_int [int a..int b - 1]) m"
    by (simp add: blank_columns_def fold_map comp_def)
  also have "\<dots> = fold (\<lambda>i. put_cell (index m (of_nat i) (of_nat y)) (Cell blankCell)) [a..<b] m"
    by (subst map_of_int_upto) (simp_all add: fold_map comp_def)
  also have "\<dots> = upd_cells (fold ?g [a..<b]) m"
    by (rule fold_upd_cells0) (simp add: put_cell_def upd_cells_upd_cells)
  also have "\<dots> = upd_cells (row_map y (C m) (erase_row a (b - a) (Cell blankCell))) m"
  proof (rule upd_cells_cong)
    have "fold ?g [a..<b] (cells (active m))
        = fold (\<lambda>i cs. cs[y * C m + i := Cell blankCell]) [a..<b] (cells (active m))"
    proof (rule fold_cong_length [OF d(10)])
      fix i and ys :: "slot list" assume "i \<in> set [a..<b]" and ys: "length ys = C m * R m"
      then have i: "i < C m" using ab by simp
      show "?g i ys = ys[y * C m + i := Cell blankCell]"
        using index_of_nat [OF wf i y] cell_offset_less [OF y i] ys
        by (simp add: js_set_of_nat del: of_nat_add of_nat_mult)
    qed simp
    also have "\<dots> = row_map y (C m) (erase_row a (b - a) (Cell blankCell)) (cells (active m))"
      using row_map_fill [of y "C m" "cells (active m)" a "b - a"] row_end [OF wf y] d(10) ab by simp
    finally show "fold ?g [a..<b] (cells (active m))
        = row_map y (C m) (erase_row a (b - a) (Cell blankCell)) (cells (active m))" .
  qed
  finally show ?thesis .
qed

lemma eraseLine_closed:
  assumes wf: "wf m"
  shows "eraseLine mode m = upd_cells (row_map (Y m) (C m)
           (if mode = 1 then erase_row 0 (X m + 1) (Cell blankCell)
            else erase_row (X m) (C m - X m) (Cell blankCell))) m"
proof -
  note d = wf_dims [OF wf]
  show ?thesis
    using blank_columns_closed [OF wf d(6), of 0 "X m + 1"]
      blank_columns_closed [OF wf d(6), of "X m" "C m"] d(5)
    by (simp add: eraseLine_def d(11,13,14))
qed

lemma fold_rows:
  assumes "(a + n) * c \<le> length cs"
  shows "fold (\<lambda>y. row_map y c (erase_row 0 c v)) [a..<a + n] cs
       = take (a * c) cs @ replicate (n * c) v @ drop ((a + n) * c) cs"
  using assms
proof (induction n)
  case 0
  then show ?case by simp
next
  case (Suc n)
  let ?ys = "take (a * c) cs @ replicate (n * c) v"
  have len: "a * c + n * c + c \<le> length cs"
    using Suc.prems by (simp add: add_mult_distrib)
  have ih: "fold (\<lambda>y. row_map y c (erase_row 0 c v)) [a..<a + n] cs = ?ys @ drop (a * c + n * c) cs"
    using Suc.IH len by (simp add: add_mult_distrib)
  have step: "row_map (a + n) c (erase_row 0 c v) (ys @ zs) = ys @ replicate c v @ drop c zs"
    if "length ys = a * c + n * c" "c \<le> length zs" for ys zs
    using that by (simp add: row_map_def erase_row_def add_mult_distrib)
  have "row_map (a + n) c (erase_row 0 c v)
        (fold (\<lambda>y. row_map y c (erase_row 0 c v)) [a..<a + n] cs)
      = ?ys @ replicate c v @ drop c (drop (a * c + n * c) cs)"
    unfolding ih by (rule step) (use len in simp_all)
  moreover have "replicate (Suc n * c) v = replicate (n * c) v @ replicate c v"
    by (simp add: replicate_add [symmetric] add.commute)
  ultimately show ?case
    by (simp add: add_mult_distrib add.commute add.left_commute)
qed

lemma wf_slot_blank [simp]: "wf_slot (Cell blankCell)"
  by (simp add: wf_slot_def wf_cell_def wf_attrs_def blankCell_def default_attrs_def palette_def
      PALETTE_def js_get_def is_index_def is_colour_def hex_char_def)

lemma wf_blank_rows:
  assumes wf: "wf m" and "a + n \<le> R m"
  shows "fold (\<lambda>y. blank_columns 0 (columns m - 1) y) (map int [a..<a + n]) m
       = upd_cells (fold (\<lambda>y. row_map y (C m) (erase_row 0 (C m) (Cell blankCell))) [a..<a + n]) m
     \<and> wf (upd_cells (fold (\<lambda>y. row_map y (C m) (erase_row 0 (C m) (Cell blankCell))) [a..<a + n]) m)"
  using assms(2)
proof (induction n)
  case 0
  then show ?case using wf by (simp add: id_def)
next
  case (Suc n)
  note d = wf_dims [OF wf]
  let ?F = "fold (\<lambda>y. row_map y (C m) (erase_row 0 (C m) (Cell blankCell))) [a..<a + n]"
  let ?F' = "fold (\<lambda>y. row_map y (C m) (erase_row 0 (C m) (Cell blankCell))) [a..<a + Suc n]"
  let ?m = "upd_cells ?F m"
  have ih: "fold (\<lambda>y. blank_columns 0 (columns m - 1) y) (map int [a..<a + n]) m = ?m" "wf ?m"
    using Suc by auto
  have "blank_columns 0 (columns m - 1) (int (a + n)) ?m = upd_cells ?F' m"
    using blank_columns_closed [OF ih(2), of "a + n" 0 "C m"] Suc.prems d(11)
    by (simp add: upd_cells_upd_cells comp_def)
  then have e: "fold (\<lambda>y. blank_columns 0 (columns m - 1) y) (map int [a..<a + Suc n]) m = upd_cells ?F' m"
    using ih(1) by simp
  have fit: "(a + Suc n) * C m \<le> length (cells (active m))"
    using Suc.prems by (simp add: d(10) mult.commute [of "C m"] del: mult_Suc)
  have "list_all wf_slot (cells (active m))"
    using wf_active [OF wf] by (simp add: wf_screen_def)
  moreover have "a * C m + (Suc n * C m + (length (cells (active m)) - (a + Suc n) * C m))
      = length (cells (active m))"
    using fit by (simp add: add_mult_distrib)
  ultimately have "wf (upd_cells ?F' m)"
    using fit by (intro wf_upd_cells [OF wf])
      (auto simp: fold_rows list_all_iff min_def add_mult_distrib
            simp del: add_Suc_right dest: in_set_takeD in_set_dropD)
  with e show ?case by (rule conjI)
qed

lemma int_upto: "[int a..int b - 1] = map int [a..<b]"
proof (induction b)
  case (Suc b)
  show ?case
  proof (cases "a \<le> b")
    case True
    then have "[int a..int b] = [int a..int b - 1] @ [int b]" by (intro upto_rec2) simp
    then show ?thesis using True Suc by simp
  qed simp
qed simp

lemma erase_upto:
  assumes "p + c \<le> length cs" "x < c" "length ys = p"
  shows "take p (ys @ drop p cs) @ erase_row 0 (x + 1) v (take c (drop p (ys @ drop p cs)))
           @ drop (p + c) (ys @ drop p cs)
       = ys @ replicate (x + 1) v @ drop (p + x + 1) cs"
proof -
  have "drop p cs = take c (drop p cs) @ drop (p + c) cs"
    by (metis append_take_drop_id drop_drop add.commute)
  then have "drop (x + 1) (drop p cs) = drop (x + 1) (take c (drop p cs) @ drop (p + c) cs)"
    by (rule arg_cong)
  then have "drop (p + x + 1) cs = drop (x + 1) (take c (drop p cs) @ drop (p + c) cs)"
    by (simp only: drop_drop add.assoc add.commute add.left_commute)
  also have "\<dots> = drop (x + 1) (take c (drop p cs)) @ drop (p + c) cs"
    using assms by simp
  finally show ?thesis using assms by (simp add: erase_row_def add.commute)
qed

lemma erase_from:
  assumes "p + c \<le> length cs" "x < c"
  shows "take p cs @ erase_row x (c - x) v (take c (drop p cs)) @ drop (p + c) cs
       = take (p + x) cs @ replicate (c - x) v @ drop (p + c) cs"
  using assms by (simp add: erase_row_def take_add min_def)

text \<open>
  Erasing the display is a fill of the cell list: a prefix up to and including the cursor, a
  suffix from the cursor, or all of it.
\<close>

definition erase_display_spec :: "rat \<Rightarrow> nat \<Rightarrow> 'a \<Rightarrow> 'a list \<Rightarrow> 'a list" where
  "erase_display_spec mode p v cs =
     (if mode = 2 \<or> mode = 3 then replicate (length cs) v
      else if mode = 1 then replicate (p + 1) v @ drop (p + 1) cs
      else take p cs @ replicate (length cs - p) v)"

lemma eraseDisplay_above:
  assumes wf: "wf m"
  shows "eraseDisplay 1 m
       = upd_cells (erase_display_spec 1 (Y m * C m + X m) (Cell blankCell)) m"
proof -
  note d = wf_dims [OF wf]
  let ?v = "Cell blankCell" and ?cs = "cells (active m)"
  let ?F = "fold (\<lambda>y. row_map y (C m) (erase_row 0 (C m) ?v)) [0..<0 + Y m]"
  have row: "Y m * C m + C m \<le> length ?cs" unfolding d(10) by (rule row_end [OF wf d(6)])
  have "[0..get_y m - 1] = map int [0..<0 + Y m]"
    using int_upto [of 0 "Y m"] d(14) by simp
  then have a: "fold (\<lambda>y. blank_columns 0 (columns m - 1) y) [0..get_y m - 1] m = upd_cells ?F m"
    and w: "wf (upd_cells ?F m)"
    using wf_blank_rows [OF wf, of 0 "Y m"] d(6) by auto
  have "eraseDisplay 1 m = upd_cells (\<lambda>cs. row_map (Y m) (C m) (erase_row 0 (X m + 1) ?v) (?F cs)) m"
    using eraseLine_closed [OF w, of 1]
    by (simp add: eraseDisplay_def a upd_cells_upd_cells)
  moreover have "?F ?cs = replicate (Y m * C m) ?v @ drop (Y m * C m) ?cs"
    using fold_rows [of 0 "Y m" "C m" ?cs ?v] row by simp
  ultimately show ?thesis using row d(5)
      erase_upto [of "Y m * C m" "C m" ?cs "X m" "replicate (Y m * C m) ?v" ?v]
    by (simp only:) (intro upd_cells_cong,
        simp only: row_map_def erase_display_spec_def replicate_add append_assoc add.assoc, simp)
qed

lemma wf_upd_row:
  assumes wf: "wf m" and y: "y < R m"
    and f: "\<And>row. length row = C m \<Longrightarrow> list_all wf_slot row \<Longrightarrow>
              length (f row) = C m \<and> list_all wf_slot (f row)"
  shows "wf (upd_cells (row_map y (C m) f) m)"
proof (rule wf_upd_cells [OF wf])
  let ?row = "take (C m) (drop (y * C m) (cells (active m)))"
  note d = wf_dims [OF wf] and e = row_end [OF wf y]
  have all: "list_all wf_slot (cells (active m))"
    using wf_active [OF wf] by (simp add: wf_screen_def)
  then have "length (f ?row) = C m \<and> list_all wf_slot (f ?row)"
    using d(10) e by (intro f) (auto simp: list_all_iff dest: in_set_takeD in_set_dropD)
  then show "length (row_map y (C m) f (cells (active m))) = length (cells (active m))"
    "list_all wf_slot (row_map y (C m) f (cells (active m)))"
    using d(10) e all by (auto simp: row_map_def list_all_iff dest: in_set_takeD in_set_dropD)
qed

lemma eraseDisplay_below:
  assumes wf: "wf m" and mode: "mode \<noteq> 1" "mode \<noteq> 2" "mode \<noteq> 3"
  shows "eraseDisplay mode m
       = upd_cells (erase_display_spec mode (Y m * C m + X m) (Cell blankCell)) m"
proof -
  note d = wf_dims [OF wf]
  let ?v = "Cell blankCell" and ?cs = "cells (active m)"
  let ?G = "row_map (Y m) (C m) (erase_row (X m) (C m - X m) ?v)"
  let ?m = "upd_cells ?G m" and ?n = "R m - (Y m + 1)"
  let ?F = "fold (\<lambda>y. row_map y (C m) (erase_row 0 (C m) ?v)) [Y m + 1..<Y m + 1 + ?n]"
  have row: "Y m * C m + C m \<le> length ?cs" unfolding d(10) by (rule row_end [OF wf d(6)])
  have e: "eraseLine 0 m = ?m" using eraseLine_closed [OF wf, of 0] by simp
  have w: "wf ?m"
    using d(5) by (intro wf_upd_row [OF wf d(6)]) (simp add: length_row_ops row_ops_all)
  have n: "Y m + 1 + ?n = R m" using d(6) by simp
  have "[get_y m + 1..rows m - 1] = map int [Y m + 1..<Y m + 1 + ?n]"
    using int_upto [of "Y m + 1" "R m"] unfolding n by (simp add: d(12,14) add.commute)
  then have "eraseDisplay mode m = upd_cells (\<lambda>cs. ?F (?G cs)) m"
    using wf_blank_rows [OF w, of "Y m + 1" ?n] mode n
    by (simp only: eraseDisplay_def e dims_upd_cells upd_cells_frame if_False simp_thms
        upd_cells_upd_cells)
  moreover have "?G ?cs = take (Y m * C m + X m) ?cs @ replicate (C m - X m) ?v @ drop (Y m * C m + C m) ?cs"
    unfolding row_map_def by (rule erase_from [OF row d(5)])
  moreover have "R m * C m = Y m * C m + C m + ?n * C m"
    by (subst n [symmetric]) (simp add: add_mult_distrib del: n)
  ultimately show ?thesis using row mode d(5,6,10) by (simp only:) (intro upd_cells_cong, subst fold_rows,
       simp_all add: erase_display_spec_def replicate_add [symmetric] mult.commute [of "C m" "R m"])
qed

lemma eraseDisplay_closed:
  assumes wf: "wf m"
  shows "eraseDisplay mode m
       = upd_cells (erase_display_spec mode (Y m * C m + X m) (Cell blankCell)) m"
proof (cases "mode = 2 \<or> mode = 3")
  case True
  then show ?thesis by (auto simp: eraseDisplay_def erase_display_spec_def intro!: upd_cells_cong)
next
  case False
  then show ?thesis
    using eraseDisplay_above [OF wf] eraseDisplay_below [OF wf] by (cases "mode = 1") auto
qed

subsection \<open>Printing\<close>

text \<open>
  Printing writes one cell of the cursor's row, after a shift in insert mode, and advances the
  cursor, with a line feed past the last column.
\<close>

definition printed :: "nat \<Rightarrow> cell option \<Rightarrow> model \<Rightarrow> cell" where
  "printed c cellOverride m = (case cellOverride of
       Some g \<Rightarrow> g
     | None \<Rightarrow> \<lparr>code = c, look = (if inverse (current m) then swap_colours (current m) else current m)\<rparr>)"

definition advance :: "model \<Rightarrow> model" where
  "advance m = (if get_x m = columns m - 1 then lineFeed (map_active (\<lambda>s. s\<lparr>s_x := 0\<rparr>) m)
                else set_x (of_int (get_x m + 1)) m)"

lemma active_frame [simp]:
  "active (m\<lparr>lastGraphic := g\<rparr>) = active m" "active (m\<lparr>state := st\<rparr>) = active m"
  "active (m\<lparr>current := a\<rparr>) = active m" "active (m\<lparr>saved := sv\<rparr>) = active m"
  "active (m\<lparr>insertMode := b\<rparr>) = active m" "active (m\<lparr>cursorVisible := b\<rparr>) = active m"
  "active (m\<lparr>applicationCursorKeys := b\<rparr>) = active m"
  "active (m\<lparr>applicationKeypad := b\<rparr>) = active m"
  "active (m\<lparr>csi := cs\<rparr>) = active m" "active (m\<lparr>osc := cs\<rparr>) = active m"
  "active (m\<lparr>oscEscaped := b\<rparr>) = active m" "active (m\<lparr>text_decoder := d\<rparr>) = active m"
  by (simp_all add: active_def)

lemma put_cell_frame [simp]:
  "columns (put_cell i v m) = columns m" "get_x (put_cell i v m) = get_x m"
  "get_x (m\<lparr>lastGraphic := g\<rparr>) = get_x m" "get_y (m\<lparr>lastGraphic := g\<rparr>) = get_y m"
  by (simp_all add: put_cell_def get_x_def [of "m\<lparr>lastGraphic := g\<rparr>"]
      get_y_def [of "m\<lparr>lastGraphic := g\<rparr>"] get_x_def [of m, symmetric] get_y_def [of m, symmetric])

lemma put_write:
  assumes wf: "wf m" and cs: "length cs = C m * R m"
  shows "js_set Undefined cs (index m (of_int (get_x m)) (of_int (get_y m))) v
       = fold (\<lambda>i cs. cs[Y m * C m + i := v]) [X m..<X m + 1] cs"
proof -
  note d = wf_dims [OF wf]
  show ?thesis
    unfolding d(3,4) index_of_nat [OF wf d(5,6)]
    using cell_offset_less [OF d(6,5)] cs by (simp add: js_set_of_nat del: of_nat_add of_nat_mult)
qed

lemma put_insert:
  assumes wf: "wf m"
  shows "js_for_down (nat (columns m)) (of_int (columns m - 1)) (of_int (get_x m + 1))
           (\<lambda>column m'. put_cell (index m' column (of_int (get_y m)))
              (cell_at m' (js_sub column 1) (of_int (get_y m))) m') m
       = upd_cells (fold (\<lambda>i cs. cs[Y m * C m + i := cs ! (Y m * C m + (i - 1))])
           (rev [X m + 1..<C m])) m"
proof -
  note d = wf_dims [OF wf]
  have x: "of_int (get_x m + 1) = (of_nat (X m + 1) :: rat)" by (simp add: d(13))
  have one: "(1::rat) = of_nat 1" by simp
  have "js_for_down (nat (columns m)) (of_int (columns m - 1)) (of_nat (X m + 1))
      (\<lambda>column m'. put_cell (index m' column (of_nat (Y m)))
         (cell_at m' (js_sub column (of_nat 1)) (of_nat (Y m))) m') m
      = upd_cells (js_for_down (nat (columns m)) (of_int (columns m - 1)) (of_nat (X m + 1))
          (\<lambda>i cs. js_set Undefined cs (index m i (of_nat (Y m)))
             (js_get Undefined cs (index m (js_sub i (of_nat 1)) (of_nat (Y m)))))) m"
    by (rule js_for_down_upd_cells0)
       (auto simp: put_cell_def upd_cells_upd_cells intro!: upd_cells_cong)
  also have "\<dots> = upd_cells (fold (\<lambda>i cs. cs[Y m * C m + i := cs ! (Y m * C m + (i - 1))])
      (rev [X m + 1..<C m])) m"
    by (intro upd_cells_cong row_right_loop [OF wf d(6) d(10)]) simp
  finally show ?thesis unfolding x d(4) one .
qed

lemma put_closed:
  assumes wf: "wf m" and c: "32 \<le> c" "c \<noteq> 127"
  shows "put c cellOverride m =
    (let g = printed c cellOverride m
     in advance ((upd_cells (row_map (Y m) (C m)
          (if insertMode m then insert_row (X m) 1 (Cell g) else erase_row (X m) 1 (Cell g))) m)
          \<lparr>lastGraphic := Some g\<rparr>))"
proof -
  note d = wf_dims [OF wf] and e = row_end [OF wf d(6)]
  let ?g = "printed c cellOverride m"
  let ?S = "if insertMode m then fold (\<lambda>i cs. cs[Y m * C m + i := cs ! (Y m * C m + (i - 1))])
           (rev [X m + 1..<C m]) else (\<lambda>cs. cs)"
  define w where "w = row_map (Y m) (C m)
          (if insertMode m then insert_row (X m) 1 (Cell ?g) else erase_row (X m) 1 (Cell ?g))"
  have "length (?S (cells (active m))) = C m * R m"
    unfolding d(10) [symmetric] by (auto intro!: length_fold_update)
  then have "js_set Undefined (?S (cells (active m)))
      (index m (of_int (get_x m)) (of_int (get_y m))) (Cell ?g) = w (cells (active m))"
    using d(5,10) e row_map_insert [of "Y m" "C m" "cells (active m)" "X m" 1 "Cell ?g"]
      row_map_fill [of "Y m" "C m" "cells (active m)" "X m" 1 "Cell ?g"]
    by (simp add: put_write [OF wf] w_def split: if_splits)
  then have cells: "put_cell (index m (of_int (get_x m)) (of_int (get_y m))) (Cell ?g)
      (upd_cells ?S m) = upd_cells w m"
    unfolding put_cell_def upd_cells_upd_cells by (rule upd_cells_cong)
  have x: "js_add (of_int (get_x m)) 1 = of_int (get_x m + 1)"
    using js_add_int [of "get_x m" 1] d(5,8,13) by simp
  show ?thesis unfolding w_def [symmetric] Let_def cells [symmetric]
    using c put_insert [OF wf] x
    by (auto simp: put_def Let_def printed_def advance_def)
qed

end
