(* ===== verification/Terminal_Safety.thy ===== *)
theory Terminal_Safety
  imports Terminal_Ops
begin

text \<open>
  What every input keeps of the terminal's state. The locale \<open>screen_ops\<close> is the interface
  between the input state machine of \<open>model.js\<close> (\<open>consume\<close>, \<open>executeCsi\<close>) and the
  screen operations it dispatches to: an invariant that each operation keeps when its
  parameters are acceptable. The dispatch is analysed once, in the locale; \<open>screen_modes\<close> adds
  the two operations that change the active screen. The interpretations give the three invariants
  of the development: \<open>in_bounds\<close>, for every input; \<open>wf\<close>, for input whose control
  sequences contain no decimal point; and that the primary screen is not touched while the
  alternate one is shown.
\<close>

subsection \<open>The interface\<close>

text \<open>The input bytes that may switch screens: CSI h, CSI l and ESC c.\<close>

definition switching :: "nat \<Rightarrow> model \<Rightarrow> bool" where
  "switching c m \<longleftrightarrow> state m = Csi \<and> (c = 104 \<or> c = 108) \<or> state m = Esc \<and> c = 99"

locale screen_ops =
  fixes inv :: "model \<Rightarrow> bool" and ok :: "rat \<Rightarrow> bool" and ok_char :: "nat \<Rightarrow> bool"
    and ok_csi :: "nat \<Rightarrow> bool"
  assumes inv_set_x: "inv m \<Longrightarrow> inv (set_x v m)"
    and inv_set_y: "inv m \<Longrightarrow> inv (set_y v m)"
    and inv_put: "inv m \<Longrightarrow> ok_char c \<Longrightarrow> inv (put c None m)"
    and inv_repeatLast: "inv m \<Longrightarrow> ok v \<Longrightarrow> inv (repeatLast v m)"
    and inv_lineFeed: "inv m \<Longrightarrow> inv (lineFeed m)"
    and inv_reverseIndex: "inv m \<Longrightarrow> inv (reverseIndex m)"
    and inv_changeLines: "inv m \<Longrightarrow> ok v \<Longrightarrow> inv (changeLines v b m)"
    and inv_scroll: "inv m \<Longrightarrow> ok v \<Longrightarrow>
          inv (scrollLines (scrollTop (active m)) (scrollBottom (active m)) v b m)"
    and inv_setScrollRegion: "inv m \<Longrightarrow> list_all ok vs \<Longrightarrow>
          inv (setScrollRegion (value_at vs 0) (value_at vs 1) m)"
    and inv_eraseCharacters: "inv m \<Longrightarrow> ok v \<Longrightarrow> inv (eraseCharacters v m)"
    and inv_insertCharacters: "inv m \<Longrightarrow> ok v \<Longrightarrow> inv (insertCharacters v m)"
    and inv_deleteCharacters: "inv m \<Longrightarrow> ok v \<Longrightarrow> inv (deleteCharacters v m)"
    and inv_eraseLine: "inv m \<Longrightarrow> inv (eraseLine v m)"
    and inv_eraseDisplay: "inv m \<Longrightarrow> inv (eraseDisplay v m)"
    and inv_sgr: "inv m \<Longrightarrow> list_all ok vs \<Longrightarrow> inv (sgr vs m)"
    and inv_saveCursor: "inv m \<Longrightarrow> inv (saveCursor m)"
    and inv_restoreCursor: "inv m \<Longrightarrow> inv (restoreCursor m)"
    and inv_state: "inv m \<Longrightarrow> inv (m\<lparr>state := s\<rparr>)"
    and inv_keypad: "inv m \<Longrightarrow> inv (m\<lparr>applicationKeypad := b\<rparr>)"
    and inv_csi_start: "inv m \<Longrightarrow> inv (m\<lparr>csi := []\<rparr>)"
    and inv_csi_push: "inv m \<Longrightarrow> utf16_length (csi m) < 128 \<Longrightarrow> \<not> (0x40 \<le> c \<and> c \<le> 0x7e) \<Longrightarrow>
          ok_csi c \<Longrightarrow> inv (m\<lparr>csi := csi m @ [c]\<rparr>)"
    and inv_osc_start: "inv m \<Longrightarrow> inv (m\<lparr>osc := []\<rparr>)"
    and inv_osc_escape: "inv m \<Longrightarrow> inv (m\<lparr>oscEscaped := b\<rparr>)"
    and inv_osc_push: "inv m \<Longrightarrow> utf16_length (osc m) < 4096 \<Longrightarrow> inv (m\<lparr>osc := osc m @ [c]\<rparr>)"
    and ok_params: "inv m \<Longrightarrow> list_all ok (param_values (params m))"
    and ok_0: "ok 0" and ok_1: "ok 1"
begin

lemma ok_first:
  assumes "inv m"
  shows "ok (js_or (js_or_opt (value_at (param_values (params m)) 0) 0) 1)"
  using ok_params [OF assms] ok_0 ok_1
  by (auto simp: js_or_def js_or_opt_def value_at_def list_all_length split: option.splits if_splits)

lemmas inv_ops = inv_set_x inv_set_y inv_put inv_repeatLast inv_lineFeed inv_reverseIndex
  inv_changeLines inv_scroll inv_setScrollRegion inv_eraseCharacters inv_insertCharacters
  inv_deleteCharacters inv_eraseLine inv_eraseDisplay inv_sgr inv_saveCursor inv_restoreCursor
  inv_state inv_keypad ok_params ok_first

lemma executeCsi_ops:
  assumes "inv m" and "final \<noteq> 104" "final \<noteq> 108"
  shows "inv (executeCsi final m)"
  using assms by (simp add: executeCsi_def Let_def inv_ops inv_setScrollRegion [simplified])

lemma consume_osc_inv:
  assumes "inv m"
  shows "inv (consume_osc c m)"
proof -
  have "inv (m\<lparr>oscEscaped := False, osc := osc (m\<lparr>oscEscaped := False\<rparr>) @ [c]\<rparr>)"
    if "utf16_length (osc m) < 4096"
    using that by (intro inv_osc_push inv_osc_escape assms) simp
  moreover have "inv (m\<lparr>state := Normal, osc := []\<rparr>)"
    "inv (m\<lparr>state := Normal, osc := [], oscEscaped := False\<rparr>)"
    by (intro inv_osc_escape inv_osc_start inv_state assms)+
  ultimately show ?thesis
    using assms by (simp add: consume_osc_def Let_def inv_osc_escape)
qed

lemma consume_ops:
  assumes "inv m" and "ok_char c" and "state m = Csi \<Longrightarrow> ok_csi c" and "\<not> switching c m"
  shows "inv (consume c m)"
proof (cases "state m")
  case Csi
  then show ?thesis
    using assms
    by (simp add: consume_def consume_csi_def inv_state executeCsi_ops inv_csi_push switching_def)
next
  case Esc
  have "inv (m\<lparr>state := Csi, csi := []\<rparr>)" "inv (m\<lparr>state := Osc, osc := []\<rparr>)"
    by (intro inv_csi_start inv_osc_start inv_state assms)+
  with Esc show ?thesis
    using assms by (simp add: consume_def consume_esc_def inv_ops switching_def)
next
  case Normal
  then show ?thesis using assms by (simp add: consume_def consume_normal_def inv_ops)
qed (use assms in \<open>simp_all add: consume_def consume_osc_inv inv_state\<close>)

end

locale screen_modes = screen_ops +
  assumes inv_set_modes: "inv m \<Longrightarrow> inv (set_modes p b vs m)"
    and inv_fullReset: "inv m \<Longrightarrow> inv (fullReset m)"
begin

lemma consume_inv:
  assumes "inv m" and "ok_char c" and "state m = Csi \<Longrightarrow> ok_csi c"
  shows "inv (consume c m)"
proof (cases "switching c m")
  case True
  have "inv (executeCsi 104 m)" "inv (executeCsi 108 m)"
    using assms by (simp_all add: executeCsi_def Let_def inv_set_modes)
  with True show ?thesis
    using assms(1)
    by (auto simp: switching_def consume_def consume_csi_def consume_esc_def inv_state inv_fullReset)
qed (use assms in \<open>simp add: consume_ops\<close>)

lemma write_text_inv:
  assumes "inv m"
    and "\<And>i. i < length cs \<Longrightarrow> ok_char (cs ! i) \<and>
           (state (write_text (take i cs) m) = Csi \<longrightarrow> ok_csi (cs ! i))"
  shows "inv (write_text cs m)"
  using assms(2)
proof (induction cs rule: rev_induct)
  case Nil
  then show ?case using assms(1) by (simp add: write_text_def)
next
  case (snoc c cs)
  have "inv (write_text cs m)"
  proof (rule snoc.IH)
    fix i assume "i < length cs"
    then show "ok_char (cs ! i) \<and>
        (state (write_text (take i cs) m) = Csi \<longrightarrow> ok_csi (cs ! i))"
      using snoc.prems [of i] by (simp add: nth_append)
  qed
  moreover have "ok_char c" "state (write_text cs m) = Csi \<Longrightarrow> ok_csi c"
    using snoc.prems [of "length cs"] by simp_all
  ultimately have "inv (consume c (write_text cs m))" by (rule consume_inv)
  then show ?case by (simp add: write_text_def)
qed

end
subsection \<open>Bounds that hold for every input\<close>

lemma js_for_inv: "P s \<Longrightarrow> (\<And>i s. P s \<Longrightarrow> P (f i s)) \<Longrightarrow> P (js_for n i hi f s)"
  by (induction n arbitrary: i s) auto

lemma js_for_down_inv: "P s \<Longrightarrow> (\<And>i s. P s \<Longrightarrow> P (f i s)) \<Longrightarrow> P (js_for_down n i lo f s)"
  by (induction n arbitrary: i s) auto

lemma fold_inv: "P s \<Longrightarrow> (\<And>i s. P s \<Longrightarrow> P (f i s)) \<Longrightarrow> P (fold f is s)"
  by (induction "is" arbitrary: s) auto

lemma clamp_range: "lo \<le> hi \<Longrightarrow> lo \<le> clamp v lo hi \<and> clamp v lo hi \<le> (hi::int)"
  by (simp add: clamp_def)

lemmas in_bounds_loops = js_for_inv [where P = in_bounds] js_for_down_inv [where P = in_bounds]
  fold_inv [where P = in_bounds]

lemma in_bounds_upd_cells [simp]: "in_bounds (upd_cells f m) = in_bounds m"
  by (simp add: in_bounds_def cursor_in_def upd_cells_def map_active_def)

lemma in_bounds_put_cell: "in_bounds m \<Longrightarrow> in_bounds (put_cell i v m)"
  by (simp add: put_cell_def)

lemma in_bounds_set_x: "in_bounds m \<Longrightarrow> in_bounds (set_x v m)"
  using clamp_range [of 0 "columns m - 1" "to_int32 v"]
  by (auto simp: in_bounds_def cursor_in_def set_x_def map_active_def)

lemma in_bounds_set_y: "in_bounds m \<Longrightarrow> in_bounds (set_y v m)"
  using clamp_range [of 0 "rows m - 1" "to_int32 v"]
  by (auto simp: in_bounds_def cursor_in_def set_y_def map_active_def)

lemma in_bounds_frame [simp]:
  "in_bounds (m\<lparr>lastGraphic := g\<rparr>) = in_bounds m" "in_bounds (m\<lparr>state := st\<rparr>) = in_bounds m"
  "in_bounds (m\<lparr>current := a\<rparr>) = in_bounds m" "in_bounds (m\<lparr>saved := sv\<rparr>) = in_bounds m"
  "in_bounds (m\<lparr>insertMode := b\<rparr>) = in_bounds m" "in_bounds (m\<lparr>cursorVisible := b\<rparr>) = in_bounds m"
  "in_bounds (m\<lparr>applicationCursorKeys := b\<rparr>) = in_bounds m"
  "in_bounds (m\<lparr>applicationKeypad := b\<rparr>) = in_bounds m"
  "in_bounds (m\<lparr>alternate_active := b\<rparr>) = in_bounds m"
  "in_bounds (m\<lparr>oscEscaped := b\<rparr>) = in_bounds m" "in_bounds (m\<lparr>text_decoder := d\<rparr>) = in_bounds m"
  by (simp_all add: in_bounds_def)

lemma in_bounds_scrollLines [simp]: "in_bounds (scrollLines t b v down m) = in_bounds m"
  by (simp add: scrollLines_def Let_def)

lemma in_bounds_lineFeed: "in_bounds m \<Longrightarrow> in_bounds (lineFeed m)"
  by (simp add: lineFeed_def in_bounds_set_y)

lemma in_bounds_put: "in_bounds m \<Longrightarrow> in_bounds (put c g m)"
proof -
  assume b: "in_bounds m"
  have home: "in_bounds (map_active (\<lambda>s. s\<lparr>s_x := 0\<rparr>) m')" if "in_bounds m'" for m'
    using that by (auto simp: in_bounds_def cursor_in_def map_active_def)
  show ?thesis using b
    by (auto simp: put_def Let_def
        intro!: in_bounds_lineFeed home in_bounds_set_x in_bounds_put_cell in_bounds_loops)
qed

lemma in_bounds_blank_columns: "in_bounds m \<Longrightarrow> in_bounds (blank_columns a b y m)"
  unfolding blank_columns_def by (intro in_bounds_loops in_bounds_put_cell)

lemma in_bounds_saveCursor: "in_bounds m \<Longrightarrow> in_bounds (saveCursor m)"
  by (simp add: saveCursor_def split: option.splits)

lemma in_bounds_restoreCursor: "in_bounds m \<Longrightarrow> in_bounds (restoreCursor m)"
  by (simp add: restoreCursor_def Let_def in_bounds_set_x in_bounds_set_y)

lemma in_bounds_set_modes: "in_bounds m \<Longrightarrow> in_bounds (set_modes p b vs m)"
proof -
  assume b: "in_bounds m"
  have "in_bounds (enterAlternate m')" "in_bounds (leaveAlternate m')" if "in_bounds m'" for m'
    using in_bounds_saveCursor [OF that] that
    by (auto simp: enterAlternate_def leaveAlternate_def Let_def resetScreen_def
        intro: in_bounds_restoreCursor) (simp add: in_bounds_def cursor_in_def)
  with b show ?thesis by (simp add: set_modes_def Let_def)
qed

lemma utf16_length_snoc: "utf16_length (cs @ [c]) \<le> utf16_length cs + 2"
  by (simp add: utf16_length_def)

lemma in_bounds_repeatLast: "in_bounds m \<Longrightarrow> in_bounds (repeatLast v m)"
  by (auto simp: repeatLast_def Let_def intro!: in_bounds_loops in_bounds_put split: option.split)

lemma in_bounds_reverseIndex: "in_bounds m \<Longrightarrow> in_bounds (reverseIndex m)"
  by (simp add: reverseIndex_def in_bounds_set_y)

lemma in_bounds_changeLines: "in_bounds m \<Longrightarrow> in_bounds (changeLines v b m)"
  by (simp add: changeLines_def in_bounds_set_x)

lemma in_bounds_region:
  "in_bounds (map_active (\<lambda>s. s\<lparr>scrollTop := t, scrollBottom := b\<rparr>) m) = in_bounds m"
  by (simp add: in_bounds_def cursor_in_def map_active_def)

lemma in_bounds_setScrollRegion: "in_bounds m \<Longrightarrow> in_bounds (setScrollRegion t b m)"
  by (simp add: setScrollRegion_def Let_def in_bounds_set_x in_bounds_set_y in_bounds_region)

lemma in_bounds_editing:
  assumes "in_bounds m"
  shows "in_bounds (eraseCharacters v m)" "in_bounds (insertCharacters v m)"
    "in_bounds (deleteCharacters v m)" "in_bounds (eraseLine v m)" "in_bounds (eraseDisplay v m)"
proof -
  show "in_bounds (eraseCharacters v m)" "in_bounds (insertCharacters v m)"
    "in_bounds (deleteCharacters v m)"
    using assms unfolding eraseCharacters_def insertCharacters_def deleteCharacters_def Let_def
    by (auto intro!: in_bounds_loops in_bounds_put_cell)
  show "in_bounds (eraseLine v m)"
    using assms by (simp add: eraseLine_def Let_def in_bounds_blank_columns)
  have line: "in_bounds (eraseLine w m')" if "in_bounds m'" for w m'
    using that by (simp add: eraseLine_def Let_def in_bounds_blank_columns)
  show "in_bounds (eraseDisplay v m)"
    using assms by (auto simp: eraseDisplay_def intro!: line in_bounds_loops in_bounds_blank_columns)
qed

lemma in_bounds_fullReset: "in_bounds m \<Longrightarrow> in_bounds (fullReset m)"
  by (simp add: fullReset_def in_bounds_def cursor_in_def resetScreen_def)

lemma in_bounds_buffers:
  "in_bounds m \<Longrightarrow> in_bounds (m\<lparr>csi := []\<rparr>)" "in_bounds m \<Longrightarrow> in_bounds (m\<lparr>osc := []\<rparr>)"
  "in_bounds m \<Longrightarrow> utf16_length (csi m) < 128 \<Longrightarrow> in_bounds (m\<lparr>csi := csi m @ [c]\<rparr>)"
  "in_bounds m \<Longrightarrow> utf16_length (osc m) < 4096 \<Longrightarrow> in_bounds (m\<lparr>osc := osc m @ [c]\<rparr>)"
  using utf16_length_snoc [of "csi m" c] utf16_length_snoc [of "osc m" c]
  by (simp_all add: in_bounds_def utf16_length_def)

lemmas in_bounds_ops = in_bounds_set_x in_bounds_set_y in_bounds_put in_bounds_repeatLast
  in_bounds_lineFeed in_bounds_reverseIndex in_bounds_changeLines in_bounds_setScrollRegion
  in_bounds_editing in_bounds_saveCursor in_bounds_restoreCursor in_bounds_set_modes
  in_bounds_fullReset in_bounds_buffers

interpretation bounds: screen_modes in_bounds "\<lambda>_. True" "\<lambda>_. True" "\<lambda>_. True"
  by unfold_locales (simp_all add: in_bounds_ops list_all_iff, simp add: sgr_def)

subsection \<open>Well-formed states\<close>

lemma wf_frame [simp]:
  "wf (m\<lparr>state := st\<rparr>) = wf m" "wf (m\<lparr>insertMode := b\<rparr>) = wf m"
  "wf (m\<lparr>cursorVisible := b\<rparr>) = wf m" "wf (m\<lparr>applicationCursorKeys := b\<rparr>) = wf m"
  "wf (m\<lparr>applicationKeypad := b\<rparr>) = wf m" "wf (m\<lparr>alternate_active := b\<rparr>) = wf m"
  "wf (m\<lparr>oscEscaped := b\<rparr>) = wf m" "wf (m\<lparr>osc := cs\<rparr>) = wf m" "wf (m\<lparr>text_decoder := d\<rparr>) = wf m"
  by (simp_all add: wf_def)

lemma wf_current: "wf m \<Longrightarrow> wf_attrs a \<Longrightarrow> wf (m\<lparr>current := a\<rparr>)"
  by (simp add: wf_def)

lemma wf_lastGraphic: "wf m \<Longrightarrow> wf_cell g \<Longrightarrow> wf (m\<lparr>lastGraphic := Some g\<rparr>)"
  by (simp add: wf_def)

lemma wf_attrs_stray [simp]: "wf_attrs (a\<lparr>stray := s\<rparr>) = wf_attrs a"
  by (simp add: wf_attrs_def)

lemma wf_pen:
  assumes "wf m"
  shows "wf_attrs (current m)" "wf_attrs (swap_colours (current m))" "wf_slot (Cell (eraseCell m))"
    "wf_slot (Cell (pen_blank m))"
  using assms
  by (auto simp: wf_def wf_attrs_def swap_colours_def wf_slot_def wf_cell_def eraseCell_def
      pen_blank_def Let_def)

lemma wf_cursor:
  assumes "wf m"
  shows "0 \<le> x \<Longrightarrow> x < columns m \<Longrightarrow> wf (map_active (\<lambda>s. s\<lparr>s_x := x\<rparr>) m)"
    and "0 \<le> y \<Longrightarrow> y < rows m \<Longrightarrow> wf (map_active (\<lambda>s. s\<lparr>s_y := y\<rparr>) m)"
  using wf_active [OF assms]
  by (auto intro!: wf_map_active assms simp: wf_screen_def wf_region_def)

lemma wf_set_x: "wf m \<Longrightarrow> wf (set_x v m)"
  using clamp_range [of 0 "columns m - 1" "to_int32 v"] wf_dims(5,11) [of m]
  unfolding set_x_def by (intro wf_cursor) auto

lemma wf_set_y: "wf m \<Longrightarrow> wf (set_y v m)"
  using clamp_range [of 0 "rows m - 1" "to_int32 v"] wf_dims(6,12) [of m]
  unfolding set_y_def by (intro wf_cursor) auto

lemma wf_scroll_region:
  assumes "wf m"
  obtains t b where "scrollTop (active m) = of_nat t" "scrollBottom (active m) = of_nat b"
    "t \<le> b" "b < R m"
proof -
  let ?t = "\<lfloor>scrollTop (active m)\<rfloor>" and ?b = "\<lfloor>scrollBottom (active m)\<rfloor>"
  from wf_active [OF assms] have w: "scrollTop (active m) = of_int ?t"
    "scrollBottom (active m) = of_int ?b" "0 \<le> scrollTop (active m)"
    "scrollTop (active m) \<le> scrollBottom (active m)" "scrollBottom (active m) < of_int (rows m)"
    by (simp_all add: wf_screen_def wf_region_def)
  from w(3) have t: "0 \<le> ?t" by simp
  from w(4) have tb: "?t \<le> ?b" by (rule floor_mono)
  from w(2,5) have "?b < rows m" by (metis of_int_less_iff)
  then have "nat ?b < R m" using t tb unfolding R_def by linarith
  moreover have "scrollTop (active m) = of_nat (nat ?t)" "scrollBottom (active m) = of_nat (nat ?b)"
    using w(1,2) t tb by simp_all
  ultimately show ?thesis using that [of "nat ?t" "nat ?b"] tb by simp
qed

lemma scroll_spec_props:
  assumes "t + k \<le> b + 1" "(b + 1) * c \<le> length cs"
  shows "length (scroll_spec c t b k down e cs) = length cs"
    and "list_all P cs \<Longrightarrow> P e \<Longrightarrow> list_all P (scroll_spec c t b k down e cs)"
proof -
  define j where "j = b + 1 - t - k"
  have b1: "b + 1 = t + k + j" using assms(1) by (simp add: j_def)
  have "t * c + (k * c + j * c) \<le> length cs" using assms(2) unfolding b1 by (simp add: add_mult_distrib)
  then show "length (scroll_spec c t b k down e cs) = length cs"
    unfolding scroll_spec_def Let_def j_def [symmetric] unfolding b1 by (simp add: add_mult_distrib)
  show "list_all P (scroll_spec c t b k down e cs)" if "list_all P cs" "P e"
    using that by (auto simp: scroll_spec_def Let_def list_all_iff dest: in_set_takeD in_set_dropD)
qed

lemma wf_scrollLines:
  assumes wf: "wf m" and tb: "t \<le> b" "b < R m" and v: "v \<in> \<int>"
  shows "wf (scrollLines (of_nat t) (of_nat b) v down m)"
proof -
  note d = wf_dims [OF wf]
  have "(b + 1) * C m \<le> length (cells (active m))"
    using tb(2) unfolding d(10) by (metis Suc_eq_plus1 Suc_leI mult.commute mult_le_mono2)
  moreover have "t + clamp_count (b - t + 1) v \<le> b + 1"
    using clamp_count_bounds(2) [of "b - t + 1" v] tb by simp
  moreover have "list_all wf_slot (cells (active m))"
    using wf_active [OF wf] by (simp add: wf_screen_def)
  ultimately show ?thesis
    unfolding scrollLines_closed [OF wf tb v]
    by (intro wf_upd_cells [OF wf] scroll_spec_props wf_pen(3) [OF wf])
qed

lemma wf_region_scroll:
  assumes "wf m" and "v \<in> \<int>"
  shows "wf (scrollLines (scrollTop (active m)) (scrollBottom (active m)) v down m)"
  by (rule wf_scroll_region [OF assms(1)]) (use assms in \<open>simp add: wf_scrollLines\<close>)

lemma wf_lineFeed: "wf m \<Longrightarrow> wf (lineFeed m)"
  by (simp add: lineFeed_def wf_region_scroll wf_set_y)

lemma wf_reverseIndex: "wf m \<Longrightarrow> wf (reverseIndex m)"
  by (simp add: reverseIndex_def wf_region_scroll wf_set_y)

lemma wf_changeLines: "wf m \<Longrightarrow> v \<in> \<int> \<Longrightarrow> wf (changeLines v b m)"
proof (cases "of_int (get_y m) < scrollTop (active m) \<or> of_int (get_y m) > scrollBottom (active m)")
  case False
  assume wf: "wf m" and v: "v \<in> \<int>"
  obtain t u where r: "scrollTop (active m) = of_nat t" "scrollBottom (active m) = of_nat u" "u < R m"
    using wf_scroll_region [OF wf] by metis
  from False have "Y m \<le> u" unfolding r wf_dims(4) [OF wf] by simp
  then have "wf (scrollLines (of_int (get_y m)) (scrollBottom (active m)) v b m)"
    unfolding wf_dims(4) [OF wf] r by (intro wf_scrollLines wf v r(3))
  with False show ?thesis by (simp add: changeLines_def wf_set_x)
qed (simp add: changeLines_def)

lemma wf_setScrollRegion:
  assumes wf: "wf m" and ok: "list_all (\<lambda>v. v \<in> \<int>) vs"
  shows "wf (setScrollRegion (value_at vs i) (value_at vs j) m)"
proof -
  have int: "js_or_opt (value_at vs k) (of_int n) \<in> \<int>" for k n
    using ok by (auto simp: js_or_opt_def js_or_def value_at_def list_all_length)
  let ?t = "js_sub (js_or_opt (value_at vs i) 1) 1"
  let ?b = "js_sub (js_or_opt (value_at vs j) (of_int (rows m))) 1"
  have "?t \<in> \<int>" "?b \<in> \<int>" using int [of i 1] int by (auto intro!: js_arith_Ints)
  then have f: "?t = of_int \<lfloor>?t\<rfloor>" "?b = of_int \<lfloor>?b\<rfloor>" by (auto elim!: Ints_cases)
  have "wf (map_active (\<lambda>s. s\<lparr>scrollTop := ?t, scrollBottom := ?b\<rparr>) m)"
    if "\<not> (?t < 0 \<or> ?b \<ge> of_int (rows m) \<or> ?t \<ge> ?b)"
    using that f wf_active [OF wf] by (intro wf_map_active [OF wf]) (simp add: wf_screen_def wf_region_def)
  then show ?thesis
    using wf by (simp add: setScrollRegion_def Let_def wf_set_x wf_set_y)
qed

lemma wf_advance: "wf m \<Longrightarrow> wf (advance m)"
  using wf_cursor(1) [of m 0] wf_dims(5,11) [of m]
  by (auto simp: advance_def intro!: wf_lineFeed wf_set_x)

lemma wf_put_cell:
  assumes wf: "wf m" and c: "32 \<le> c" "c \<noteq> 127" and g: "wf_cell (printed c h m)"
  shows "wf (put c h m)"
proof -
  note d = wf_dims [OF wf]
  have "wf_slot (Cell (printed c h m))" using g by (simp add: wf_slot_def)
  then have "wf (upd_cells (row_map (Y m) (C m) (if insertMode m
      then insert_row (X m) 1 (Cell (printed c h m))
      else erase_row (X m) 1 (Cell (printed c h m)))) m)"
    using d(5) by (intro wf_upd_row [OF wf d(6)]) (simp add: length_row_ops row_ops_all)
  then show ?thesis
    unfolding put_closed [OF wf c] Let_def by (intro wf_advance wf_lastGraphic g)
qed

lemma wf_put: "wf m \<Longrightarrow> c \<le> 0x10FFFF \<Longrightarrow> wf (put c None m)"
proof (cases "c < 0x20 \<or> c = 0x7f")
  case False
  assume "wf m" "c \<le> 0x10FFFF"
  with False show ?thesis
    by (intro wf_put_cell) (auto simp: printed_def wf_cell_def wf_pen)
qed (simp add: put_def)

lemma wf_repeatLast: "wf m \<Longrightarrow> wf (repeatLast v m)"
proof -
  assume wf: "wf m"
  have "wf (put (code g) (Some g) m')" if "wf m'" "lastGraphic m' = Some g" for m' g
  proof -
    have "wf_cell g" using that by (simp add: wf_def)
    then show ?thesis
      using that by (intro wf_put_cell) (auto simp: printed_def wf_cell_def)
  qed
  then have step: "wf (case lastGraphic m' of None \<Rightarrow> m' | Some g \<Rightarrow> put (code g) (Some g) m')"
    if "wf m'" for m'
    using that by (simp split: option.split)
  show ?thesis using wf
    by (auto simp: repeatLast_def Let_def split: option.split
        intro!: js_for_inv [where P = wf] step)
qed

lemma wf_editing:
  assumes wf: "wf m" and v: "v \<in> \<int>"
  shows "wf (eraseCharacters v m)" "wf (insertCharacters v m)" "wf (deleteCharacters v m)"
  using pen_count(2) [OF wf v] wf_pen(4) [OF wf]
  unfolding eraseCharacters_closed [OF wf v] insertCharacters_closed [OF wf v]
    deleteCharacters_closed [OF wf v]
  by (auto intro!: wf_upd_row [OF wf wf_dims(6) [OF wf]] simp: length_row_ops row_ops_all)

lemma wf_eraseLine: "wf m \<Longrightarrow> wf (eraseLine v m)"
  using wf_dims(5) [of m] unfolding eraseLine_closed
  by (auto intro!: wf_upd_row wf_dims(6) simp: length_row_ops row_ops_all)

lemma wf_eraseDisplay:
  assumes wf: "wf m"
  shows "wf (eraseDisplay v m)"
proof -
  have "Y m * C m + X m < length (cells (active m))"
    unfolding wf_dims(10) [OF wf] by (intro cell_offset_less wf_dims [OF wf])
  moreover have "list_all wf_slot (cells (active m))"
    using wf_active [OF wf] by (simp add: wf_screen_def)
  ultimately show ?thesis unfolding eraseDisplay_closed [OF wf]
    by (intro wf_upd_cells [OF wf])
      (auto simp: erase_display_spec_def list_all_iff dest: in_set_takeD in_set_dropD)
qed

subsection \<open>Colours\<close>

lemma hex_digit_char: "0 \<le> d \<Longrightarrow> d < 16 \<Longrightarrow> hex_char (hex_digit d)"
  unfolding hex_char_def hex_digit_def by (rule nth_mem) simp

lemma hex2_chars: "length (hex2 v) = 2" "list_all hex_char (hex2 v)"
proof -
  have "0 \<le> clamp (to_int32 v) 0 255" "clamp (to_int32 v) 0 255 \<le> 255"
    using clamp_range [of 0 255 "to_int32 v"] by simp_all
  then show "list_all hex_char (hex2 v)" by (simp add: hex2_def Let_def hex_digit_char)
  show "length (hex2 v) = 2" by (simp add: hex2_def Let_def)
qed

lemma rgb_colour: "is_colour (Some (rgb r g b))"
  by (simp add: rgb_def is_colour_def hex2_chars)

lemma PALETTE_colours: "list_all (\<lambda>s. is_colour (Some s)) PALETTE"
  by (simp add: PALETTE_def is_colour_def hex_char_def)

lemma palette_colour:
  assumes "q \<in> \<int>" "0 \<le> q" "q < 16"
  shows "is_colour (palette q)"
proof -
  from assms(1) obtain k where k: "q = of_int k" by (rule Ints_cases)
  have "nat k < length PALETTE" using assms by (simp add: k PALETTE_def)
  then show ?thesis
    using PALETTE_colours assms by (simp add: palette_def k js_get_of_int list_all_length)
qed

lemma xtermColor_colour: "is_colour (Some (xtermColor v))"
proof -
  have "0 \<le> clamp (to_int32 v) 0 255" using clamp_range [of 0 255 "to_int32 v"] by simp
  then show ?thesis
    using PALETTE_colours by (auto simp: xtermColor_def Let_def rgb_colour list_all_length PALETTE_def)
qed

lemma wf_default_attrs [simp]: "wf_attrs default_attrs"
  by (simp add: default_attrs_def wf_attrs_def palette_colour)

lemma wf_sgr_simple:
  assumes "wf_attrs a" and "v \<in> \<int>"
  shows "wf_attrs (sgr_simple v a)"
proof -
  have "is_colour (palette (v - of_int k + of_int j))"
    if "of_int k \<le> v" "v \<le> of_int (k + 7)" "0 \<le> j" "j \<le> 8" for k j
    using that assms(2) by (intro palette_colour) auto
  from this [of 30 0] this [of 40 0] this [of 90 8] this [of 100 8] show ?thesis
    using assms(1) wf_default_attrs by (auto simp: sgr_simple_def wf_attrs_def palette_colour)
qed

lemma wf_sgr_loop: "wf_attrs a \<Longrightarrow> list_all (\<lambda>v. v \<in> \<int>) vs \<Longrightarrow> wf_attrs (sgr_loop vs a)"
proof (induction vs a rule: sgr_loop.induct)
  case (2 v rest a)
  have c: "wf_attrs (set_colour v (Some (xtermColor q)) a)" "wf_attrs (set_colour v (Some (rgb q r s)) a)"
    for q r s
    using "2.prems"(1) by (simp_all add: set_colour_def wf_attrs_def xtermColor_colour rgb_colour)
  have d: "list_all (\<lambda>v. v \<in> \<int>) (drop k rest)" for k
    using "2.prems"(2) by (auto simp: list_all_iff dest: in_set_dropD)
  show ?case
    using 2 c d by (cases "v = 38 \<or> v = 48") (auto simp: wf_sgr_simple)
qed simp

lemma wf_sgr: "wf m \<Longrightarrow> list_all (\<lambda>v. v \<in> \<int>) vs \<Longrightarrow> wf (sgr vs m)"
  by (auto simp: sgr_def wf_pen(1) simp del: sgr_loop.simps intro!: wf_current wf_sgr_loop)

subsection \<open>Saving, restoring, resetting\<close>

lemma wf_saved: "wf m \<Longrightarrow> wf_attrs (saved_attrs s) \<Longrightarrow> wf (m\<lparr>saved := s\<rparr>)"
  by (simp add: wf_def)

lemma wf_saveCursor: "wf m \<Longrightarrow> wf (saveCursor m)"
  by (auto simp: saveCursor_def wf_pen(1) intro!: wf_saved split: option.split)

lemma wf_restoreCursor: "wf m \<Longrightarrow> wf (restoreCursor m)"
  by (auto simp: restoreCursor_def Let_def wf_def [of m] intro!: wf_current wf_set_x wf_set_y)

lemma wf_resetScreen: "wf_size c r \<Longrightarrow> wf_screen c r s \<Longrightarrow> wf_screen c r (resetScreen r s)"
  by (auto simp: wf_screen_def resetScreen_def wf_region_def wf_size_def list_all_iff)

lemma wf_set_modes: "wf m \<Longrightarrow> wf (set_modes p b vs m)"
proof -
  have "wf (enterAlternate m)" "wf (leaveAlternate m)" if w: "wf m" for m
  proof -
    have "wf (saveCursor m)" by (rule wf_saveCursor [OF w])
    then show "wf (enterAlternate m)"
      by (simp add: enterAlternate_def Let_def wf_def [of "saveCursor m"])
        (simp add: wf_def wf_resetScreen)
    show "wf (leaveAlternate m)" using w by (simp add: leaveAlternate_def wf_restoreCursor)
  qed
  then show "wf m \<Longrightarrow> ?thesis" by (simp add: set_modes_def Let_def)
qed

lemma wf_fullReset: "wf m \<Longrightarrow> wf (fullReset m)"
  by (simp add: fullReset_def wf_def wf_resetScreen)

subsection \<open>Parameters\<close>

lemma split_on_sets: "w \<in> set (split_on d cs) \<Longrightarrow> set w \<subseteq> set cs"
  by (induction d cs arbitrary: w rule: split_on.induct) (fastforce split: if_splits list.splits)+

lemma wf_csi_params:
  assumes "wf_csi (csi m)"
  shows "list_all (\<lambda>v. v \<in> \<int>) (param_values (params m))"
proof -
  have "param_value w \<in> \<int>" if "set w \<subseteq> set (csi m)" for w
  proof -
    have "46 \<notin> set w" "101 \<notin> set w" "69 \<notin> set w"
      using that assms by (fastforce simp: wf_csi_def list_all_iff)+
    then show ?thesis by (auto simp: param_value_def split: option.split dest: js_number_Ints)
  qed
  moreover have "set w \<subseteq> set (csi m)" if "w \<in> set (split_on 59 (tl (csi m)))" for w
    using split_on_sets [OF that] by (cases "csi m") auto
  ultimately show ?thesis
    by (auto simp: params_def Let_def list_all_iff split: list.split dest!: split_on_sets)
qed

lemma wf_csi_buffer:
  "wf m \<Longrightarrow> wf (m\<lparr>csi := []\<rparr>)"
  "wf m \<Longrightarrow> \<not> (0x40 \<le> c \<and> c \<le> 0x7e) \<Longrightarrow> c \<noteq> 46 \<Longrightarrow> wf (m\<lparr>csi := csi m @ [c]\<rparr>)"
  by (auto simp: wf_def wf_csi_def)

lemma wf_params: "wf m \<Longrightarrow> list_all (\<lambda>v. v \<in> \<int>) (param_values (params m))"
  by (intro wf_csi_params) (simp add: wf_def)

lemmas wf_ops = wf_set_x wf_set_y wf_put wf_repeatLast wf_lineFeed wf_reverseIndex wf_changeLines
  wf_region_scroll wf_setScrollRegion wf_editing wf_eraseLine wf_eraseDisplay wf_sgr wf_saveCursor
  wf_restoreCursor wf_set_modes wf_fullReset wf_csi_buffer wf_params

interpretation wf_states: screen_modes wf "\<lambda>v. v \<in> \<int>" "\<lambda>c. c \<le> 0x10FFFF" "\<lambda>c. c \<noteq> 46"
  by unfold_locales (simp_all add: wf_ops)

subsection \<open>The hidden screen\<close>

definition hides :: "screen \<Rightarrow> model \<Rightarrow> bool" where
  "hides p m \<longleftrightarrow> alternate_active m \<and> primary m = p"

lemmas hides_loops = js_for_inv [where P = "hides p"] js_for_down_inv [where P = "hides p"]
  fold_inv [where P = "hides p"] for p

lemma hides_map_active [simp]: "hides p m \<Longrightarrow> hides p (map_active f m)"
  by (simp add: hides_def map_active_def)

lemma hides_upd_cells [simp]: "hides p m \<Longrightarrow> hides p (upd_cells f m)"
  by (simp add: upd_cells_def)

lemma hides_frame [simp]:
  "hides p (m\<lparr>lastGraphic := g\<rparr>) = hides p m" "hides p (m\<lparr>state := st\<rparr>) = hides p m"
  "hides p (m\<lparr>current := a\<rparr>) = hides p m" "hides p (m\<lparr>saved := sv\<rparr>) = hides p m"
  "hides p (m\<lparr>applicationKeypad := b\<rparr>) = hides p m" "hides p (m\<lparr>text_decoder := d\<rparr>) = hides p m"
  "hides p (m\<lparr>osc := cs\<rparr>) = hides p m" "hides p (m\<lparr>csi := cs\<rparr>) = hides p m"
  "hides p (m\<lparr>oscEscaped := b\<rparr>) = hides p m"
  by (simp_all add: hides_def)

lemma hides_moves [simp]:
  assumes "hides p m"
  shows "hides p (set_x v m)" "hides p (set_y v m)" "hides p (put_cell i u m)"
    "hides p (scrollLines t b v down m)" "hides p (lineFeed m)" "hides p (blank_columns c d y m)"
  using assms
  by (auto simp: set_x_def set_y_def put_cell_def scrollLines_def Let_def lineFeed_def
      blank_columns_def intro!: hides_loops)

lemma hides_put [simp]: "hides p m \<Longrightarrow> hides p (put c g m)"
  by (auto simp: put_def Let_def intro!: hides_loops hides_moves hides_map_active)

interpretation hidden: screen_ops "hides p" "\<lambda>_. True" "\<lambda>_. True" "\<lambda>_. True" for p
proof unfold_locales
  fix m v
  assume h: "hides p m"
  have line: "hides p (eraseLine w m')" if "hides p m'" for w m'
    using that by (simp add: eraseLine_def Let_def)
  from h show "hides p (eraseLine v m)" "hides p (eraseDisplay v m)"
    by (auto simp: eraseDisplay_def intro!: line hides_loops hides_moves)
qed (auto simp: repeatLast_def reverseIndex_def changeLines_def setScrollRegion_def
      eraseCharacters_def insertCharacters_def deleteCharacters_def sgr_def saveCursor_def
      restoreCursor_def Let_def list_all_iff intro!: hides_loops hides_moves split: option.split)

subsection \<open>What input leaves alone\<close>

definition steady :: "decoder \<times> int \<times> int \<Rightarrow> model \<Rightarrow> bool" where
  "steady s m \<longleftrightarrow> s = (text_decoder m, columns m, rows m)"

lemmas steady_loops = js_for_inv [where P = "steady s"] js_for_down_inv [where P = "steady s"]
  fold_inv [where P = "steady s"] for s

lemma steady_frame [simp]:
  "steady s (map_active f m) = steady s m" "steady s (upd_cells g m) = steady s m"
  "steady s (m\<lparr>lastGraphic := g'\<rparr>) = steady s m" "steady s (m\<lparr>state := st\<rparr>) = steady s m"
  "steady s (m\<lparr>current := a\<rparr>) = steady s m" "steady s (m\<lparr>saved := sv\<rparr>) = steady s m"
  "steady s (m\<lparr>applicationKeypad := b\<rparr>) = steady s m" "steady s (m\<lparr>insertMode := b\<rparr>) = steady s m"
  "steady s (m\<lparr>applicationCursorKeys := b\<rparr>) = steady s m"
  "steady s (m\<lparr>cursorVisible := b\<rparr>) = steady s m" "steady s (m\<lparr>alternate_active := b\<rparr>) = steady s m"
  "steady s (m\<lparr>alternate := sc\<rparr>) = steady s m"
  "steady s (m\<lparr>osc := cs\<rparr>) = steady s m" "steady s (m\<lparr>csi := cs\<rparr>) = steady s m"
  "steady s (m\<lparr>oscEscaped := b\<rparr>) = steady s m"
  by (simp_all add: steady_def upd_cells_def)

lemma steady_moves [simp]:
  "steady s (set_x v m) = steady s m" "steady s (set_y v m) = steady s m"
  "steady s (put_cell i u m) = steady s m" "steady s (scrollLines t b v down m) = steady s m"
  "steady s (lineFeed m) = steady s m" "steady s (saveCursor m) = steady s m"
  "steady s (restoreCursor m) = steady s m"
  by (simp_all add: set_x_def set_y_def put_cell_def scrollLines_def Let_def lineFeed_def
      saveCursor_def restoreCursor_def split: option.split)

lemma steady_put: "steady s m \<Longrightarrow> steady s (put c g m)"
  by (auto simp: put_def Let_def intro!: steady_loops)

lemma steady_blank: "steady s m \<Longrightarrow> steady s (blank_columns a b y m)"
  by (auto simp: blank_columns_def intro!: steady_loops)

interpretation frame: screen_modes "steady s" "\<lambda>_. True" "\<lambda>_. True" "\<lambda>_. True" for s
proof unfold_locales
  fix m v
  assume h: "steady s m"
  have line: "steady s (eraseLine w m')" if "steady s m'" for w m'
    using that by (simp add: eraseLine_def Let_def steady_blank)
  from h show "steady s (eraseLine v m)" "steady s (eraseDisplay v m)"
    by (auto simp: eraseDisplay_def intro!: line steady_loops steady_blank)
qed (auto simp: repeatLast_def reverseIndex_def changeLines_def setScrollRegion_def steady_put
      eraseCharacters_def insertCharacters_def deleteCharacters_def sgr_def set_modes_def
      enterAlternate_def leaveAlternate_def Let_def list_all_iff
      intro!: steady_loops split: option.split, simp add: fullReset_def steady_def)

subsection \<open>The decoder is not consulted while text is consumed\<close>

definition with_decoder :: "decoder \<Rightarrow> model \<Rightarrow> model" where
  "with_decoder d m = m\<lparr>text_decoder := d\<rparr>"

lemma js_for_commute:
  "(\<And>i s. f i (h s) = h (f i s)) \<Longrightarrow> js_for n i hi f (h s) = h (js_for n i hi f s)"
  by (induction n arbitrary: i s) auto

lemma js_for_down_commute:
  "(\<And>i s. f i (h s) = h (f i s)) \<Longrightarrow> js_for_down n i lo f (h s) = h (js_for_down n i lo f s)"
  by (induction n arbitrary: i s) auto

lemma fold_commute_with: "(\<And>i s. f i (h s) = h (f i s)) \<Longrightarrow> fold f is (h s) = h (fold f is s)"
  by (induction "is" arbitrary: s) auto

lemmas loops_commute = js_for_commute [where h = "with_decoder d"]
  js_for_down_commute [where h = "with_decoder d"] fold_commute_with [where h = "with_decoder d"] for d

lemma with_decoder_fields [simp]:
  "columns (with_decoder d m) = columns m" "rows (with_decoder d m) = rows m"
  "active (with_decoder d m) = active m" "current (with_decoder d m) = current m"
  "get_x (with_decoder d m) = get_x m" "get_y (with_decoder d m) = get_y m"
  "saved (with_decoder d m) = saved m" "lastGraphic (with_decoder d m) = lastGraphic m"
  "state (with_decoder d m) = state m" "csi (with_decoder d m) = csi m"
  "osc (with_decoder d m) = osc m" "oscEscaped (with_decoder d m) = oscEscaped m"
  "insertMode (with_decoder d m) = insertMode m" "index (with_decoder d m) = index m"
  "cell_at (with_decoder d m) = cell_at m" "eraseCell (with_decoder d m) = eraseCell m"
  "pen_blank (with_decoder d m) = pen_blank m" "params (with_decoder d m) = params m"
  "alternate (with_decoder d m) = alternate m" "text_decoder (with_decoder d m) = d" "with_decoder d (with_decoder d' m) = with_decoder d m"
  by (simp_all add: with_decoder_def active_def get_x_def get_y_def index_def cell_at_def
      eraseCell_def pen_blank_def params_def Let_def fun_eq_iff)

lemma with_decoder_updates [simp]:
  "(with_decoder d m)\<lparr>lastGraphic := g\<rparr> = with_decoder d (m\<lparr>lastGraphic := g\<rparr>)"
  "(with_decoder d m)\<lparr>state := st\<rparr> = with_decoder d (m\<lparr>state := st\<rparr>)"
  "(with_decoder d m)\<lparr>current := a\<rparr> = with_decoder d (m\<lparr>current := a\<rparr>)"
  "(with_decoder d m)\<lparr>saved := sv\<rparr> = with_decoder d (m\<lparr>saved := sv\<rparr>)"
  "(with_decoder d m)\<lparr>csi := cs\<rparr> = with_decoder d (m\<lparr>csi := cs\<rparr>)"
  "(with_decoder d m)\<lparr>osc := cs\<rparr> = with_decoder d (m\<lparr>osc := cs\<rparr>)"
  "(with_decoder d m)\<lparr>oscEscaped := b\<rparr> = with_decoder d (m\<lparr>oscEscaped := b\<rparr>)"
  "(with_decoder d m)\<lparr>insertMode := b\<rparr> = with_decoder d (m\<lparr>insertMode := b\<rparr>)"
  "(with_decoder d m)\<lparr>cursorVisible := b\<rparr> = with_decoder d (m\<lparr>cursorVisible := b\<rparr>)"
  "(with_decoder d m)\<lparr>alternate_active := b\<rparr> = with_decoder d (m\<lparr>alternate_active := b\<rparr>)"
  "(with_decoder d m)\<lparr>alternate := sc\<rparr> = with_decoder d (m\<lparr>alternate := sc\<rparr>)"
  "(with_decoder d m)\<lparr>applicationKeypad := b\<rparr> = with_decoder d (m\<lparr>applicationKeypad := b\<rparr>)"
  "(with_decoder d m)\<lparr>applicationCursorKeys := b\<rparr> = with_decoder d (m\<lparr>applicationCursorKeys := b\<rparr>)"
  "map_active f (with_decoder d m) = with_decoder d (map_active f m)"
  "upd_cells f' (with_decoder d m) = with_decoder d (upd_cells f' m)"
  "put_cell i v (with_decoder d m) = with_decoder d (put_cell i v m)"
  by (simp_all add: with_decoder_def map_active_def upd_cells_def put_cell_def)

lemma with_decoder_moves [simp]:
  "set_x v (with_decoder d m) = with_decoder d (set_x v m)"
  "set_y v (with_decoder d m) = with_decoder d (set_y v m)"
  "scrollLines t b v down (with_decoder d m) = with_decoder d (scrollLines t b v down m)"
  "blank_columns x1 x2 y (with_decoder d m) = with_decoder d (blank_columns x1 x2 y m)"
  by (simp_all add: set_x_def set_y_def scrollLines_def Let_def blank_columns_def loops_commute)

lemma with_decoder_ops [simp]:
  "lineFeed (with_decoder d m) = with_decoder d (lineFeed m)"
  "reverseIndex (with_decoder d m) = with_decoder d (reverseIndex m)"
  "changeLines v b (with_decoder d m) = with_decoder d (changeLines v b m)"
  "setScrollRegion t u (with_decoder d m) = with_decoder d (setScrollRegion t u m)"
  "eraseCharacters v (with_decoder d m) = with_decoder d (eraseCharacters v m)"
  "insertCharacters v (with_decoder d m) = with_decoder d (insertCharacters v m)"
  "deleteCharacters v (with_decoder d m) = with_decoder d (deleteCharacters v m)"
  "eraseLine v (with_decoder d m) = with_decoder d (eraseLine v m)"
  "sgr vs (with_decoder d m) = with_decoder d (sgr vs m)"
  "saveCursor (with_decoder d m) = with_decoder d (saveCursor m)"
  "restoreCursor (with_decoder d m) = with_decoder d (restoreCursor m)"
  "fullReset (with_decoder d m) = with_decoder d (fullReset m)"
  by (simp_all add: lineFeed_def reverseIndex_def changeLines_def setScrollRegion_def
      eraseCharacters_def insertCharacters_def deleteCharacters_def eraseLine_def sgr_def
      saveCursor_def restoreCursor_def Let_def loops_commute split: option.split)
     (simp add: fullReset_def with_decoder_def)

lemma with_decoder_put [simp]: "put c g (with_decoder d m) = with_decoder d (put c g m)"
  by (cases g) (simp_all add: put_def Let_def loops_commute)

lemma with_decoder_display [simp]:
  "eraseDisplay v (with_decoder d m) = with_decoder d (eraseDisplay v m)"
  by (simp add: eraseDisplay_def loops_commute)

lemma with_decoder_repeatLast [simp]:
  "repeatLast v (with_decoder d m) = with_decoder d (repeatLast v m)"
  by (simp add: repeatLast_def Let_def loops_commute split: option.split)

lemma with_decoder_set_modes [simp]:
  "set_modes p b vs (with_decoder d m) = with_decoder d (set_modes p b vs m)"
proof -
  have "enterAlternate (with_decoder d m) = with_decoder d (enterAlternate m)"
    "leaveAlternate (with_decoder d m) = with_decoder d (leaveAlternate m)" for m
    by (simp_all add: enterAlternate_def leaveAlternate_def Let_def)
  then show ?thesis by (auto simp: set_modes_def Let_def)
qed

lemma with_decoder_if:
  "with_decoder d (if b then m else m') = (if b then with_decoder d m else with_decoder d m')"
  by simp

lemma executeCsi_with_decoder: "executeCsi c (with_decoder d m) = with_decoder d (executeCsi c m)"
  by (simp add: executeCsi_def Let_def with_decoder_if split del: if_split cong: if_cong)

lemma consume_with_decoder: "consume c (with_decoder d m) = with_decoder d (consume c m)"
  by (simp add: consume_def consume_osc_def consume_csi_def consume_esc_def consume_normal_def
      executeCsi_with_decoder Let_def with_decoder_if if_distrib [of "state_update f" for f]
      split del: if_split cong: if_cong split: parse_state.split)

end
