(* ===== verification/Terminal_Lines.thy ===== *)
theory Terminal_Lines
  imports Terminal_Safety
begin

text \<open>
  The screen as a list of rows. \<open>lines\<close> abstracts the flat cell array of \<open>model.js\<close> to the
  rows a user sees; the operations on the array refine operations on that list: scrolling moves
  whole rows, editing changes the cursor's row, erasing blanks rows.
\<close>

definition chunks :: "nat \<Rightarrow> nat \<Rightarrow> 'a list \<Rightarrow> 'a list list" where
  "chunks c n xs = map (\<lambda>y. take c (drop (y * c) xs)) [0..<n]"

definition lines :: "model \<Rightarrow> slot list list" where
  "lines m = chunks (C m) (R m) (cells (active m))"

definition scroll_rows :: "nat \<Rightarrow> nat \<Rightarrow> nat \<Rightarrow> bool \<Rightarrow> 'a \<Rightarrow> 'a list \<Rightarrow> 'a list" where
  "scroll_rows t b k down blank ls =
     take t ls
     @ (if down then replicate k blank @ take (b + 1 - t - k) (drop t ls)
        else take (b + 1 - t - k) (drop (t + k) ls) @ replicate k blank)
     @ drop (b + 1) ls"

subsection \<open>Lists of rows of one length\<close>

lemma take_drop_concat:
  assumes "list_all (\<lambda>l. length l = c) ls"
  shows take_concat: "take (t * c) (concat ls) = concat (take t ls)"
    and drop_concat: "drop (t * c) (concat ls) = concat (drop t ls)"
  using assms
proof (induction ls arbitrary: t)
  case (Cons l ls)
  {
    case 1
    then show ?case using Cons.IH(1) by (cases t) auto
  next
    case 2
    then show ?case using Cons.IH(2) by (cases t) auto
  }
qed simp_all

lemma row_fits: "y < n \<Longrightarrow> y * c + c \<le> c * (n::nat)"
  by (metis Suc_leI add.commute mult.commute mult_Suc mult_le_mono1)

lemma list_all_take_drop: "list_all P ls \<Longrightarrow> list_all P (take n ls) \<and> list_all P (drop n ls)"
  by (auto simp: list_all_iff dest: in_set_takeD in_set_dropD)

lemma concat_replicate: "concat (replicate k (replicate c e)) = replicate (k * c) e"
  by (induction k) (simp_all add: replicate_add)

lemma length_chunks [simp]: "length (chunks c n xs) = n"
  by (simp add: chunks_def)

lemma chunks_concat:
  assumes "list_all (\<lambda>l. length l = c) ls" and "length ls = n"
  shows "chunks c n (concat ls) = ls"
proof (rule nth_equalityI)
  fix y assume "y < length (chunks c n (concat ls))"
  then have y: "y < length ls" using assms(2) by simp
  then have "drop y ls = ls ! y # drop (Suc y) ls" by (rule Cons_nth_drop_Suc [symmetric])
  moreover have "length (ls ! y) = c" using assms(1) y by (simp add: list_all_length)
  ultimately show "chunks c n (concat ls) ! y = ls ! y"
    using y assms by (simp add: chunks_def drop_concat)
qed (simp add: assms(2))

lemma concat_chunks:
  assumes "length xs = c * n"
  shows "concat (chunks c n xs) = xs" "list_all (\<lambda>l. length l = c) (chunks c n xs)"
proof -
  have "concat (chunks c k xs) = take (c * k) xs" for k
    by (induction k) (simp_all add: chunks_def take_add [symmetric] mult.commute add.commute)
  then show "concat (chunks c n xs) = xs" using assms by simp
  have "c \<le> length xs - y * c" if "y < n" for y
    using row_fits [OF that, of c] assms by simp
  then show "list_all (\<lambda>l. length l = c) (chunks c n xs)"
    by (simp add: chunks_def list_all_iff min_absorb2)
qed

lemma chunks_nth: "y < n \<Longrightarrow> chunks c n xs ! y = take c (drop (y * c) xs)"
  by (simp add: chunks_def)

lemma row_map_concat:
  assumes "list_all (\<lambda>l. length l = c) ls" "y < length ls"
  shows "row_map y c f (concat ls) = concat (ls[y := f (ls ! y)])"
proof -
  have "length (ls ! y) = c" using assms by (simp add: list_all_length)
  moreover have "drop y ls = ls ! y # drop (Suc y) ls" using assms(2) by (rule Cons_nth_drop_Suc [symmetric])
  moreover have "y * c + c = Suc y * c" by simp
  ultimately show ?thesis
    unfolding row_map_def using assms
    by (simp only: take_concat drop_concat upd_conv_take_nth_drop) simp
qed

lemma chunks_row_map:
  assumes "length xs = c * n" "y < n"
    and "length (f (chunks c n xs ! y)) = c"
  shows "chunks c n (row_map y c f xs) = (chunks c n xs)[y := f (chunks c n xs ! y)]"
proof -
  note k = concat_chunks [OF assms(1)]
  have "row_map y c f (concat (chunks c n xs)) = concat ((chunks c n xs)[y := f (chunks c n xs ! y)])"
    using k(2) assms(2) by (intro row_map_concat) simp_all
  moreover have "list_all (\<lambda>l. length l = c) ((chunks c n xs)[y := f (chunks c n xs ! y)])"
    using k(2) assms(3) by (auto simp: list_all_iff dest!: set_update_subset_insert [THEN subsetD])
  ultimately show ?thesis by (simp add: k(1) chunks_concat)
qed

lemma chunks_scroll:
  assumes "length xs = c * n" "t + k \<le> b + 1" "b < n"
  shows "chunks c n (scroll_spec c t b k down e xs)
       = scroll_rows t b k down (replicate c e) (chunks c n xs)"
proof -
  let ?ls = "chunks c n xs"
  note k = concat_chunks [OF assms(1)]
  note td = list_all_take_drop [OF k(2)]
  have "scroll_spec c t b k down e (concat ?ls) = concat (scroll_rows t b k down (replicate c e) ?ls)"
    using k(2) td
    by (simp add: scroll_spec_def scroll_rows_def Let_def take_concat drop_concat concat_replicate
        del: mult_Suc add_Suc_right)
  moreover have "list_all (\<lambda>l. length l = c) (scroll_rows t b k down (replicate c e) ?ls)"
    using k(2) by (auto simp: scroll_rows_def list_all_iff dest: in_set_takeD in_set_dropD)
  moreover have "length (scroll_rows t b k down (replicate c e) ?ls) = n"
    using assms by (simp add: scroll_rows_def)
  ultimately show ?thesis using chunks_concat by (simp add: k(1))
qed

lemma concat_lines:
  assumes "wf m"
  shows "concat (lines m) = cells (active m)" "length (lines m) = R m"
    "y < R m \<Longrightarrow> length (lines m ! y) = C m"
  using concat_chunks [OF wf_dims(10) [OF assms]]
  by (simp_all add: lines_def list_all_length)

lemma lines_cells: "lines (upd_cells f m) = chunks (C m) (R m) (f (cells (active m)))"
  by (simp add: lines_def)

lemma lines_row:
  assumes wf: "wf m" and "\<And>row. length row = C m \<Longrightarrow> length (f row) = C m"
  shows "lines (upd_cells (row_map (Y m) (C m) f) m) = (lines m)[Y m := f (lines m ! Y m)]"
  using chunks_row_map [OF wf_dims(10,6) [OF wf], of f] concat_lines(3) [OF wf wf_dims(6) [OF wf]] assms(2)
  by (simp add: lines_def)

lemma chunks_fill:
  assumes "length xs = c * n" "y < n" "x \<le> c"
  shows "chunks c n (take (y * c + x) xs @ replicate (length xs - (y * c + x)) e)
       = take y (chunks c n xs) @ (take x (chunks c n xs ! y) @ replicate (c - x) e)
         # replicate (n - y - 1) (replicate c e)"
proof -
  let ?ls = "chunks c n xs"
  note k = concat_chunks [OF assms(1)]
  have nth: "length (?ls ! y) = c" using k(2) assms(2) by (simp add: list_all_length)
  have len: "c * n - (y * c + x) = (c - x) + (n - y - 1) * c"
  proof -
    have "n = y + (1 + (n - y - 1))" using assms(2) by simp
    then have "c * n = y * c + (c + (n - y - 1) * c)"
      by (metis add_mult_distrib mult.commute mult_1)
    then show ?thesis using assms(3) by simp
  qed
  have "take (y * c + x) (concat ?ls) = concat (take y ?ls) @ take x (concat (drop y ?ls))"
    using k(2) by (simp add: take_add take_concat drop_concat)
  also have "drop y ?ls = ?ls ! y # drop (Suc y) ?ls"
    using assms(2) by (intro Cons_nth_drop_Suc [symmetric]) simp
  finally have "take (y * c + x) xs = concat (take y ?ls) @ take x (?ls ! y)"
    using nth assms(3) by (simp add: k(1))
  then have "take (y * c + x) xs @ replicate (length xs - (y * c + x)) e
      = concat (take y ?ls @ (take x (?ls ! y) @ replicate (c - x) e) # replicate (n - y - 1) (replicate c e))"
    by (simp add: assms(1) len replicate_add concat_replicate)
  moreover have "list_all (\<lambda>l. length l = c)
      (take y ?ls @ (take x (?ls ! y) @ replicate (c - x) e) # replicate (n - y - 1) (replicate c e))"
    using k(2) nth assms(3) by (auto simp: list_all_iff dest: in_set_takeD)
  moreover have "length (take y ?ls @ (take x (?ls ! y) @ replicate (c - x) e)
      # replicate (n - y - 1) (replicate c e)) = n"
    using assms(2) by simp
  ultimately show ?thesis by (simp only: chunks_concat)
qed

lemma new_model_wf:
  assumes "new_model c r = Inr m"
  shows "wf m" "in_bounds m"
proof -
  let ?c = "max 1 (to_int32 c)" and ?r = "max 1 (to_int32 r)"
  have s: "?c < 2 ^ 31" "?r < 2 ^ 31"
    using wrap32_range by (simp_all add: to_int32_def)
  from assms have le: "?c * ?r \<le> 2 ^ 32 - 1"
    by (auto simp: new_model_def Let_def makeScreen_def split: if_splits)
  from assms obtain p where p: "makeScreen ?c ?r = Inr p"
    and m: "columns m = ?c" "rows m = ?r" "primary m = p" "alternate m = p"
      "lastGraphic m = None" "csi m = []" "osc m = []" "current m = default_attrs"
      "saved_attrs (saved m) = default_attrs"
    by (cases "makeScreen ?c ?r") (auto simp: new_model_def Let_def)
  from p le have ps: "wf_screen ?c ?r p"
    by (auto simp: makeScreen_def wf_screen_def wf_region_def list_all_iff split: if_splits)
  then show "wf m" using s le by (simp add: wf_def m wf_size_def wf_csi_def)
  from ps show "in_bounds m" by (simp add: in_bounds_def m wf_screen_def cursor_in_def utf16_length_def)
qed

end
