(* ===== verification/Terminal_Props.thy ===== *)
theory Terminal_Props
  imports Terminal_Lines
begin

text \<open>
  The properties of the terminal model: what sessions of writes and resizes keep, what each
  screen operation does to the rows, and the defects the model shows. \<open>small\<close> is a terminal of
  four columns and two rows that the witnesses use.
\<close>

subsection \<open>Sessions\<close>

datatype terminal_event = Bytes "nat list" | Text "nat list" | Resize rat rat

fun deliver :: "terminal_event \<Rightarrow> model \<Rightarrow> model completion" where
  "deliver (Bytes bs) m = Inr (write_bytes bs m)"
| "deliver (Text cs) m = Inr (write_text cs m)"
| "deliver (Resize c r) m = (case resize c r m of (None, m') \<Rightarrow> Inr m' | (Some e, _) \<Rightarrow> Inl e)"

fun session :: "terminal_event list \<Rightarrow> model \<Rightarrow> model completion" where
  "session [] m = Inr m"
| "session (e # es) m = bind_c (deliver e m) (session es)"

text \<open>The code points of an input, and that no decimal point reaches a control sequence.\<close>

fun integral_text :: "nat list \<Rightarrow> model \<Rightarrow> bool" where
  "integral_text [] m = True"
| "integral_text (c # cs) m =
     (c \<le> 0x10FFFF \<and> (state m = Csi \<longrightarrow> c \<noteq> 46) \<and> integral_text cs (consume c m))"

fun integral_event :: "terminal_event \<Rightarrow> model \<Rightarrow> bool" where
  "integral_event (Bytes bs) m =
     (let (d, cs) = decode_stream (text_decoder m) bs in integral_text cs (m\<lparr>text_decoder := d\<rparr>))"
| "integral_event (Text cs) m = integral_text cs m"
| "integral_event (Resize _ _) m = True"

fun integral_session :: "terminal_event list \<Rightarrow> model \<Rightarrow> bool" where
  "integral_session [] m = True"
| "integral_session (e # es) m =
     (integral_event e m \<and> (case deliver e m of Inr m' \<Rightarrow> integral_session es m' | Inl _ \<Rightarrow> True))"

definition small :: model where
  "small = (case new_model 4 2 of Inr m \<Rightarrow> m)"

lemma small_new: "new_model 4 2 = Inr small"
proof -
  have "to_int32 4 = 4" "to_int32 2 = 2"
    using to_int32_of_int [of 4] to_int32_of_int [of 2] by simp_all
  then show ?thesis by (simp add: small_def new_model_def Let_def makeScreen_def)
qed

lemmas small_wf = new_model_wf [OF small_new]

lemma small_dims [simp]:
  "columns small = 4" "rows small = 2" "get_x small = 0" "get_y small = 0"
  "C small = 4" "R small = 2" "X small = 0" "Y small = 0"
proof -
  have t: "to_int32 4 = 4" "to_int32 2 = 2"
    using to_int32_of_int [of 4] to_int32_of_int [of 2] by simp_all
  then show "columns small = 4" "rows small = 2" "get_x small = 0" "get_y small = 0"
    by (simp_all add: small_def new_model_def Let_def makeScreen_def get_x_def get_y_def active_def)
  then show "C small = 4" "R small = 2" "X small = 0" "Y small = 0"
    by (simp_all add: C_def R_def X_def Y_def)
qed

lemma wf_write_text: "wf m \<Longrightarrow> integral_text cs m \<Longrightarrow> wf (write_text cs m)"
  by (induction cs arbitrary: m) (auto simp: write_text_def intro: wf_states.consume_inv)

lemma in_bounds_write_text: "in_bounds m \<Longrightarrow> in_bounds (write_text cs m)"
  by (rule bounds.write_text_inv) simp_all

lemma resize_bounds: "in_bounds m \<Longrightarrow> resize c r m = (None, m') \<Longrightarrow> in_bounds m'"
proof -
  assume b: "in_bounds m" and r: "resize c r m = (None, m')"
  have "in_bounds (m\<lparr>columns := c', rows := r', primary := p, alternate := a\<rparr>)"
    if "resizeScreen c' r' (primary m) = Inr p" "resizeScreen c' r' (alternate m) = Inr a"
      "1 \<le> c'" "1 \<le> r'" for c' r' p a
    using b that clamp_range [of 0 "c' - 1"] clamp_range [of 0 "r' - 1"]
    by (auto simp: in_bounds_def cursor_in_def resizeScreen_def makeScreen_def split: if_splits)
  with r b show ?thesis
    by (auto simp: resize_def Let_def split: if_splits sum.splits
        intro!: in_bounds_set_x in_bounds_set_y)
qed

lemma resizeScreen_cells:
  assumes s: "resizeScreen (int c) (int r) old = Inr s" and old: "wf_screen (int c0) (int r0) old"
    and x: "x < c" and y: "y < r"
  shows "cells s ! (y * c + x)
       = (if y < r0 \<and> x < c0 then cells old ! (y * c0 + x) else Cell blankCell)"
proof -
  have k: "y * c + x < c * r" using x y by (intro cell_offset_less)
  have "int (y * c + x) mod int c = int x" "int (y * c + x) div int c = int y"
    using x by (simp_all flip: of_nat_mod of_nat_div)
  moreover have cr: "int c * int r = int (c * r)" by simp
  moreover have "[0..int c * int r - 1] ! (y * c + x) = int (y * c + x)"
    unfolding cr using k by (subst nth_upto) linarith+
  moreover have "length [0..int c * int r - 1] = c * r" unfolding cr length_upto by linarith
  moreover have "spread (js_get Undefined (cells old) (of_int (int y * int c0 + int x)))
      = cells old ! (y * c0 + x)" if "y < r0" "x < c0"
  proof -
    have "y * c0 + x < length (cells old)"
      using cell_offset_less [OF that] old by (simp add: wf_screen_def flip: of_nat_mult)
    moreover from this have "wf_slot (cells old ! (y * c0 + x))"
      using old by (simp add: wf_screen_def list_all_length)
    moreover have "(of_int (int y * int c0 + int x) :: rat) = of_nat (y * c0 + x)" by simp
    ultimately show ?thesis
      by (simp add: js_get_of_nat spread_def wf_slot_def split: slot.splits
          del: of_int_add of_int_mult of_nat_add of_nat_mult)
  qed
  ultimately show ?thesis
    using s k old x y
    by (auto simp: resizeScreen_def makeScreen_def Let_def wf_screen_def min_def
        simp del: of_nat_add of_nat_mult of_int_add of_int_mult split: if_splits)
qed

lemma resizeScreen_wf:
  assumes s: "resizeScreen (int c) (int r) old = Inr s" and old: "wf_screen (int c0) (int r0) old"
    and cr: "1 \<le> c" "1 \<le> r"
  shows "wf_screen (int c) (int r) s"
proof -
  have len: "length (cells s) = c * r"
    using s by (auto simp: resizeScreen_def makeScreen_def split: if_splits simp flip: of_nat_mult)
  have "wf_slot (cells s ! k)" if "k < c * r" for k
  proof -
    have "k div c < r" "k mod c < c" "k = k div c * c + k mod c"
      using that cr by (simp_all add: less_mult_imp_div_less mult.commute)
    then have k: "cells s ! k = (if k div c < r0 \<and> k mod c < c0
        then cells old ! (k div c * c0 + k mod c) else Cell blankCell)"
      using resizeScreen_cells [OF s old] by metis
    have "wf_slot (cells old ! (k div c * c0 + k mod c))" if "k div c < r0" "k mod c < c0"
      using cell_offset_less [OF that] old
      by (simp add: wf_screen_def list_all_length flip: of_nat_mult)
    then show ?thesis by (simp add: k)
  qed
  then have "list_all wf_slot (cells s)" using len by (simp add: list_all_length)
  moreover have "s_columns s = int c" "s_rows s = int r" "wf_region (int r) s"
    "0 \<le> s_x s" "s_x s < int c" "0 \<le> s_y s" "s_y s < int r"
    using s cr clamp_range [of 0 "int c - 1" "s_x old"] clamp_range [of 0 "int r - 1" "s_y old"]
    by (auto simp: resizeScreen_def makeScreen_def wf_region_def split: if_splits)
  ultimately show ?thesis using len by (simp add: wf_screen_def flip: of_nat_mult)
qed

lemma resize_wf: "wf m \<Longrightarrow> resize c r m = (None, m') \<Longrightarrow> wf m'"
proof -
  assume w: "wf m" and r: "resize c r m = (None, m')"
  note d = wf_dims [OF w]
  obtain c' r' where e: "max 1 (to_int32 c) = int c'" "max 1 (to_int32 r) = int r'"
    by (metis max.cobounded1 nonneg_int_cases order_trans zero_le_one)
  have lt: "int c' < 2 ^ 31" "int r' < 2 ^ 31" and ge: "1 \<le> c'" "1 \<le> r'"
    using wrap32_range [of "rat_trunc c"] wrap32_range [of "rat_trunc r"] e
    by (auto simp: to_int32_def max_def split: if_splits)
  have scr: "wf_screen (int (C m)) (int (R m)) (primary m)" "wf_screen (int (C m)) (int (R m)) (alternate m)"
    using w d(11,12) by (simp_all add: wf_def)
  have "wf (m\<lparr>columns := int c', rows := int r', primary := p, alternate := a\<rparr>)"
    if p: "resizeScreen (int c') (int r') (primary m) = Inr p"
      and a: "resizeScreen (int c') (int r') (alternate m) = Inr a" for p a
  proof -
    have "int c' * int r' \<le> 2 ^ 32 - 1"
      using p by (auto simp: resizeScreen_def makeScreen_def split: if_splits)
    then show ?thesis
      using w resizeScreen_wf [OF p scr(1) ge] resizeScreen_wf [OF a scr(2) ge] lt ge
      by (simp add: wf_def wf_size_def)
  qed
  with r w show ?thesis unfolding resize_def Let_def e
    by (auto split: if_splits sum.splits intro!: wf_set_x wf_set_y)
qed

subsection \<open>What every session keeps\<close>

text \<open>
  C28. Whatever bytes, strings and sizes a session delivers, as long as no resize runs out of
  array space, the cursors of both screens stay on the screen, and the two buffers of the input
  state machine stay below 130 and 4098 UTF-16 units.
\<close>

theorem session_in_bounds:
  assumes "new_model c r = Inr m" and "session es m = Inr m'"
  shows "in_bounds m'"
proof -
  have "in_bounds m'" if "in_bounds m" "session es m = Inr m'" for m
    using that
  proof (induction es arbitrary: m)
    case (Cons e es)
    have "in_bounds m1" if "deliver e m = Inr m1" for m1
      using that Cons.prems(1) resize_bounds
      by (cases e) (auto simp: write_bytes_def in_bounds_write_text split: prod.splits option.splits)
    with Cons show ?case by (cases "deliver e m") auto
  qed simp
  with new_model_wf(2) [OF assms(1)] assms(2) show ?thesis by blast
qed

theorem session_in_bounds_witness:
  "\<exists>m'. session [Text [65, 27, 91, 50, 66], Resize 2 1] small = Inr m' \<and> in_bounds m'"
proof -
  have "\<not> isl (session [Text [65, 27, 91, 50, 66], Resize 2 1] small)" by code_simp
  then obtain m' where "session [Text [65, 27, 91, 50, 66], Resize 2 1] small = Inr m'"
    by (auto simp: isl_def split: sum.splits) (metis sum.exhaust)
  with session_in_bounds [OF small_new] show ?thesis by blast
qed

lemma session_keeps_wf: "wf m \<Longrightarrow> integral_session es m \<Longrightarrow> session es m = Inr m' \<Longrightarrow> wf m'"
proof (induction es arbitrary: m)
  case (Cons e es)
  have "wf m1" if "deliver e m = Inr m1" for m1
    using that Cons.prems(1,2) resize_wf
    by (cases e) (auto simp: write_bytes_def wf_write_text split: prod.splits option.splits)
  with Cons show ?case by (cases "deliver e m") auto
qed simp

text \<open>
  C27. A session whose control sequences contain no decimal point keeps the whole terminal state
  well-formed: both cell arrays have exactly one printable, fully coloured cell per position of
  a screen of the current size, the scroll regions are ordered rows of the screen, and the pen,
  the saved pen and the last printed cell have valid colours.
\<close>

theorem session_wf:
  assumes "new_model c r = Inr m" and "integral_session es m" and "session es m = Inr m'"
  shows "wf m'"
  using session_keeps_wf [OF new_model_wf(1) [OF assms(1)] assms(2,3)] .

theorem session_wf_witness:
  "\<exists>m'. session [Text [65, 27, 91, 49, 80], Resize 2 1] small = Inr m' \<and> wf m'"
proof -
  let ?es = "[Text [65, 27, 91, 49, 80], Resize 2 1]"
  have "\<not> isl (session ?es small)" by code_simp
  then obtain m' where "session ?es small = Inr m'"
    by (auto simp: isl_def split: sum.splits) (metis sum.exhaust)
  moreover have "integral_session ?es small" by code_simp
  ultimately show ?thesis using session_wf [OF small_new] by blast
qed

text \<open>
  C31. The terminal's output does not depend on how the byte stream is cut into chunks: writing
  two chunks one after the other is writing their concatenation.
\<close>

theorem write_bytes_chunks: "write_bytes (xs @ ys) m = write_bytes ys (write_bytes xs m)"
proof -
  have c: "write_text cs (with_decoder d m') = with_decoder d (write_text cs m')" for cs m' d
    by (induction cs arbitrary: m') (simp_all add: write_text_def consume_with_decoder)
  show ?thesis
    by (simp add: write_bytes_def decode_stream_append with_decoder_def [symmetric] c
        split: prod.split) (simp add: write_text_def)
qed

subsection \<open>Screen operations on rows\<close>

text \<open>
  C29. Scrolling moves whole rows: on a well-formed terminal, scrolling the region from row
  \<open>t\<close> to row \<open>b\<close> drops \<open>k\<close> rows at one end of the region, fills \<open>k\<close> rows with the pen's colours at
  the other, and leaves every row outside the region alone; \<open>k\<close> is the requested count clamped
  to the region.
\<close>

theorem scrollLines_rows:
  assumes "wf m" and "t \<le> b" and "b < R m" and "v \<in> \<int>"
  shows "lines (scrollLines (of_nat t) (of_nat b) v down m)
       = scroll_rows t b (clamp_count (b - t + 1) v) down (replicate (C m) (Cell (eraseCell m))) (lines m)"
proof -
  have "t + clamp_count (b - t + 1) v \<le> b + 1"
    using clamp_count_bounds(2) [of "b - t + 1" v] assms(2) by simp
  then show ?thesis
    using assms chunks_scroll [OF wf_dims(10) [OF assms(1)]]
    by (simp add: scrollLines_closed lines_cells) (simp add: lines_def)
qed

theorem scrollLines_rows_witness:
  "lines (scrollLines (of_nat 0) (of_nat 1) 1 False small)
   = scroll_rows 0 1 (clamp_count 2 1) False (replicate 4 (Cell (eraseCell small))) (lines small)"
  using scrollLines_rows [OF small_wf(1), of 0 1 1 False] by (simp add: numeral_2_eq_2)

text \<open>
  C30. Character editing (CSI X, CSI @, CSI P) changes only the cursor's row: it blanks, inserts
  or deletes as many cells at the cursor as requested and fit, shifting the rest of the row and
  never another one.
\<close>

theorem editing_rows:
  assumes "wf m" and "v \<in> \<int>"
  shows "lines (eraseCharacters v m)
         = (lines m)[Y m := erase_row (X m) (pen_count m v) (Cell (pen_blank m)) (lines m ! Y m)]
    \<and> lines (insertCharacters v m)
         = (lines m)[Y m := insert_row (X m) (pen_count m v) (Cell (pen_blank m)) (lines m ! Y m)]
    \<and> lines (deleteCharacters v m)
         = (lines m)[Y m := delete_row (X m) (pen_count m v) (Cell (pen_blank m)) (lines m ! Y m)]"
  using pen_count(2) [OF assms]
  by (simp add: eraseCharacters_closed insertCharacters_closed deleteCharacters_closed
      assms lines_row length_row_ops)

theorem editing_rows_witness:
  "lines (insertCharacters 2 small)
   = (lines small)[Y small := insert_row (X small) (pen_count small 2) (Cell (pen_blank small))
        (lines small ! Y small)]"
  using editing_rows [OF small_wf(1), of 2] by simp

definition region_top :: "model \<Rightarrow> nat" where "region_top m = nat \<lfloor>scrollTop (active m)\<rfloor>"
definition region_bottom :: "model \<Rightarrow> nat" where "region_bottom m = nat \<lfloor>scrollBottom (active m)\<rfloor>"

lemma region_bounds:
  assumes "wf m"
  shows "scrollTop (active m) = of_nat (region_top m)"
    "scrollBottom (active m) = of_nat (region_bottom m)"
    "region_top m \<le> region_bottom m" "region_bottom m < R m"
  by (rule wf_scroll_region [OF assms], simp add: region_top_def region_bottom_def)+

lemma clamp_count_1 [simp]: "clamp_count (Suc n) 1 = 1"
  by (simp add: clamp_count_def)

lemma dims_set_y:
  assumes "wf m" and "- (2 ^ 31) \<le> v" "v < 2 ^ 31"
  shows "lines (set_y (of_int v) m) = lines m" "X (set_y (of_int v) m) = X m"
    "Y (set_y (of_int v) m) = nat (max 0 (min (int (R m) - 1) v))"
  using assms
  by (simp_all add: set_y_def lines_def C_def R_def X_def Y_def get_x_def get_y_def clamp_def
      to_int32_of_int wf_dims(12) [OF assms(1), symmetric])

lemma lines_scroll_region:
  assumes "wf m"
  shows "lines (scrollLines (scrollTop (active m)) (scrollBottom (active m)) 1 down m)
       = scroll_rows (region_top m) (region_bottom m) 1 down
           (replicate (C m) (Cell (eraseCell m))) (lines m)"
    "X (scrollLines (scrollTop (active m)) (scrollBottom (active m)) 1 down m) = X m"
    "Y (scrollLines (scrollTop (active m)) (scrollBottom (active m)) 1 down m) = Y m"
proof -
  note r = region_bounds [OF assms]
  show "lines (scrollLines (scrollTop (active m)) (scrollBottom (active m)) 1 down m)
       = scroll_rows (region_top m) (region_bottom m) 1 down
           (replicate (C m) (Cell (eraseCell m))) (lines m)"
    unfolding r(1,2) scrollLines_closed [OF assms r(3,4) Ints_1] lines_cells
    using r(3,4) by (simp add: chunks_scroll [OF wf_dims(10) [OF assms]] lines_def)
  show "X (scrollLines (scrollTop (active m)) (scrollBottom (active m)) 1 down m) = X m"
    "Y (scrollLines (scrollTop (active m)) (scrollBottom (active m)) 1 down m) = Y m"
    by (simp_all add: scrollLines_def Let_def)
qed

lemma lineFeed_view:
  assumes "wf m"
  shows "lines (lineFeed m) = (if Y m = region_bottom m
      then scroll_rows (region_top m) (region_bottom m) 1 False
             (replicate (C m) (Cell (eraseCell m))) (lines m) else lines m)
    \<and> X (lineFeed m) = X m
    \<and> Y (lineFeed m) = (if Y m = region_bottom m then Y m else min (Y m + 1) (R m - 1))"
proof -
  note d = wf_dims [OF assms] and r = region_bounds [OF assms]
  have e: "(of_int (get_y m) = scrollBottom (active m)) = (Y m = region_bottom m)"
    unfolding d(4) r(2) by simp
  have y: "js_add (of_int (get_y m)) 1 = of_int (int (Y m) + 1)" "int (Y m) + 1 < 2 ^ 31"
    "- (2 ^ 31) \<le> int (Y m) + 1"
    using js_add_int [of "int (Y m)" 1] d(6,9) by (simp_all add: d(14))
  have n: "nat (max 0 (min (int (R m) - 1) (int (Y m) + 1))) = min (Y m + 1) (R m - 1)"
    using d(6) by linarith
  show ?thesis
    unfolding lineFeed_def e y(1) using lines_scroll_region [OF assms, of False]
      dims_set_y [OF assms y(3,2)] n by (simp del: of_int_add)
qed

lemma reverseIndex_view:
  assumes "wf m"
  shows "lines (reverseIndex m) = (if Y m = region_top m
      then scroll_rows (region_top m) (region_bottom m) 1 True
             (replicate (C m) (Cell (eraseCell m))) (lines m) else lines m)
    \<and> X (reverseIndex m) = X m
    \<and> Y (reverseIndex m) = (if Y m = region_top m then Y m else Y m - 1)"
proof -
  note d = wf_dims [OF assms] and r = region_bounds [OF assms]
  have e: "(of_int (get_y m) = scrollTop (active m)) = (Y m = region_top m)"
    unfolding d(4) r(1) by simp
  have y: "js_sub (of_int (get_y m)) 1 = of_int (int (Y m) - 1)" "int (Y m) - 1 < 2 ^ 31"
    "- (2 ^ 31) \<le> int (Y m) - 1"
    using js_sub_int [of "int (Y m)" 1] d(6,9) by (simp_all add: d(14))
  have n: "nat (max 0 (min (int (R m) - 1) (int (Y m) - 1))) = Y m - 1"
    using d(6) by linarith
  show ?thesis
    unfolding reverseIndex_def e y(1) using lines_scroll_region [OF assms, of True]
      dims_set_y [OF assms y(3,2)] n by (simp del: of_int_diff)
qed

lemma advance_view:
  assumes "wf m"
  shows "lines (advance m) = (if X m + 1 = C m \<and> Y m = region_bottom m
      then scroll_rows (region_top m) (region_bottom m) 1 False
             (replicate (C m) (Cell (eraseCell m))) (lines m) else lines m)
    \<and> X (advance m) = (if X m + 1 = C m then 0 else X m + 1)
    \<and> Y (advance m) = (if X m + 1 = C m \<and> Y m \<noteq> region_bottom m
                        then min (Y m + 1) (R m - 1) else Y m)"
proof (cases "X m + 1 = C m")
  case True
  note d = wf_dims [OF assms]
  let ?m = "map_active (\<lambda>s. s\<lparr>s_x := 0\<rparr>) m"
  have "wf ?m" using d(5,11) by (intro wf_cursor assms) auto
  moreover have "lines ?m = lines m" "X ?m = 0" "Y ?m = Y m" "C ?m = C m" "R ?m = R m"
    "eraseCell ?m = eraseCell m" "region_top ?m = region_top m" "region_bottom ?m = region_bottom m"
    by (simp_all add: lines_def C_def R_def X_def Y_def get_x_def get_y_def eraseCell_def Let_def
        region_top_def region_bottom_def)
  moreover have "advance m = lineFeed ?m" using True by (simp add: advance_def d(11,13))
  ultimately show ?thesis using lineFeed_view [of ?m] True by simp
next
  case False
  note d = wf_dims [OF assms]
  have "clamp (to_int32 (of_int (get_x m + 1))) 0 (columns m - 1) = get_x m + 1"
    using False d(5,8) by (simp add: d(11,13) to_int32_of_int clamp_def del: of_int_add)
  then have "advance m = map_active (\<lambda>s. s\<lparr>s_x := get_x m + 1\<rparr>) m"
    using False by (simp add: advance_def d(11,13) set_x_def del: of_int_add)
  moreover have "nat (get_x m + 1) = X m + 1" by (simp add: d(13))
  ultimately show ?thesis using False
    by (simp add: lines_def C_def R_def X_def Y_def get_x_def get_y_def)
qed

definition with_printed :: "nat \<Rightarrow> model \<Rightarrow> slot list list" where
  "with_printed c m = (lines m)[Y m := (if insertMode m then insert_row else erase_row)
      (X m) 1 (Cell (printed c None m)) (lines m ! Y m)]"

text \<open>
  Printing a graphic character puts its cell at the cursor, overwriting it or, in insert mode,
  shifting the rest of the row; then the cursor moves one column on, or to the start of the next
  row, where only a cursor on the bottom margin scrolls.
\<close>

theorem put_rows:
  assumes "wf m" and "32 \<le> c" and "c \<noteq> 127" and "c \<le> 0x10FFFF"
  shows "lines (put c None m) =
      (if X m + 1 = C m \<and> Y m = region_bottom m
       then scroll_rows (region_top m) (region_bottom m) 1 False
              (replicate (C m) (Cell (eraseCell m))) (with_printed c m)
       else with_printed c m)
    \<and> X (put c None m) = (if X m + 1 = C m then 0 else X m + 1)
    \<and> Y (put c None m) = (if X m + 1 = C m \<and> Y m \<noteq> region_bottom m
                           then min (Y m + 1) (R m - 1) else Y m)"
proof -
  note d = wf_dims [OF assms(1)]
  let ?g = "printed c None m"
  let ?f = "(if insertMode m then insert_row else erase_row) (X m) 1 (Cell ?g)"
  let ?w = "(upd_cells (row_map (Y m) (C m) ?f) m)\<lparr>lastGraphic := Some ?g\<rparr>"
  have f: "length (?f row) = C m" if "length row = C m" for row
    using that d(5) by (simp add: length_row_ops)
  have p: "put c None m = advance ?w"
    unfolding put_closed [OF assms(1-3)] Let_def by (simp add: if_distribR)
  have "wf_cell ?g" using assms by (simp add: printed_def wf_cell_def wf_pen)
  then have w: "wf ?w"
    using f by (intro wf_lastGraphic wf_upd_row [OF assms(1) d(6)]) (simp_all add: row_ops_all wf_slot_def)
  have same: "C ?w = C m" "R ?w = R m" "X ?w = X m" "Y ?w = Y m" "eraseCell ?w = eraseCell m"
      "region_top ?w = region_top m" "region_bottom ?w = region_bottom m"
    by (simp_all add: C_def R_def X_def Y_def eraseCell_def region_top_def region_bottom_def)
  have l: "lines ?w = with_printed c m"
    using lines_row [OF assms(1) f] by (simp add: lines_def with_printed_def C_def R_def)
  show ?thesis unfolding p using advance_view [OF w] unfolding same l .
qed

theorem put_rows_witness:
  "lines (put 65 None small) = with_printed 65 small \<and> X (put 65 None small) = 1 \<and> Y (put 65 None small) = 0"
  using put_rows [OF small_wf(1), of 65] by simp

text \<open>
  A line feed (LF, VT or FF) on the bottom row of the scroll region scrolls the region up by
  one row and keeps the cursor, and elsewhere only moves the cursor one row down, stopping at the
  last row; a reverse index (ESC M) is its mirror image at the top row.
\<close>

theorem line_feed_rows:
  assumes "wf m" and "state m = Normal" and "c \<in> {10, 11, 12}"
  shows "lines (consume c m) = (if Y m = region_bottom m
      then scroll_rows (region_top m) (region_bottom m) 1 False
             (replicate (C m) (Cell (eraseCell m))) (lines m) else lines m)
    \<and> X (consume c m) = X m
    \<and> Y (consume c m) = (if Y m = region_bottom m then Y m else min (Y m + 1) (R m - 1))
    \<and> lines (write_text [27, 77] m) = (if Y m = region_top m
      then scroll_rows (region_top m) (region_bottom m) 1 True
             (replicate (C m) (Cell (eraseCell m))) (lines m) else lines m)
    \<and> X (write_text [27, 77] m) = X m
    \<and> Y (write_text [27, 77] m) = (if Y m = region_top m then Y m else Y m - 1)"
proof -
  let ?m = "m\<lparr>state := Esc\<rparr>"
  have f: "lines (m'\<lparr>state := st\<rparr>) = lines m'" "X (m'\<lparr>state := st\<rparr>) = X m'"
    "Y (m'\<lparr>state := st\<rparr>) = Y m'" "C (m'\<lparr>state := st\<rparr>) = C m'"
    "eraseCell (m'\<lparr>state := st\<rparr>) = eraseCell m'" "region_top (m'\<lparr>state := st\<rparr>) = region_top m'"
    "region_bottom (m'\<lparr>state := st\<rparr>) = region_bottom m'" for m' st
    by (simp_all add: lines_def C_def R_def X_def Y_def get_x_def get_y_def eraseCell_def
        region_top_def region_bottom_def)
  have "consume c m = lineFeed m"
    using assms(2,3) by (auto simp: consume_def consume_normal_def)
  moreover have "write_text [27, 77] m = (reverseIndex ?m)\<lparr>state := Normal\<rparr>"
    using assms(2) by (simp add: write_text_def consume_def consume_normal_def consume_esc_def)
  ultimately show ?thesis
    using lineFeed_view [OF assms(1)] reverseIndex_view [of ?m] assms(1) by (simp add: f)
qed

theorem line_feed_rows_witness:
  "Y (consume 10 small) = 1 \<and> lines (consume 10 small) = lines small \<and>
   lines (write_text [27, 77] small) = scroll_rows 0 1 1 True (replicate 4 (Cell (eraseCell small))) (lines small)"
proof -
  have "state small = Normal" "region_top small = 0" "region_bottom small = 1" by code_simp+
  then show ?thesis using line_feed_rows [OF small_wf(1), of 10] by simp
qed

text \<open>
  Erasing the display: mode 0 keeps the rows above the cursor and the cursor row up to the
  cursor, and blanks everything else; modes 2 and 3 blank every cell. The cursor does not move.
\<close>

theorem eraseDisplay_rows:
  assumes "wf m"
  shows "lines (eraseDisplay 0 m) = take (Y m) (lines m)
           @ (take (X m) (lines m ! Y m) @ replicate (C m - X m) (Cell blankCell))
           # replicate (R m - Y m - 1) (replicate (C m) (Cell blankCell))
    \<and> (\<forall>mode \<in> {2, 3}. lines (eraseDisplay mode m)
           = replicate (R m) (replicate (C m) (Cell blankCell)))
    \<and> (\<forall>mode. get_x (eraseDisplay mode m) = get_x m \<and> get_y (eraseDisplay mode m) = get_y m)"
proof -
  note d = wf_dims [OF assms]
  have "chunks (C m) (R m) (replicate (R m * C m) (Cell blankCell))
      = replicate (R m) (replicate (C m) (Cell blankCell))"
    unfolding concat_replicate [symmetric] by (intro chunks_concat) (simp_all add: list_all_iff)
  then have "lines (eraseDisplay mode m) = replicate (R m) (replicate (C m) (Cell blankCell))"
    if "mode \<in> {2, 3}" for mode
    using that d(10)
    by (auto simp: eraseDisplay_closed [OF assms] lines_cells erase_display_spec_def mult.commute)
  moreover have "lines (eraseDisplay 0 m) = take (Y m) (lines m)
           @ (take (X m) (lines m ! Y m) @ replicate (C m - X m) (Cell blankCell))
           # replicate (R m - Y m - 1) (replicate (C m) (Cell blankCell))"
    using chunks_fill [OF d(10,6), of "X m" "Cell blankCell"] d(5)
    by (simp add: eraseDisplay_closed [OF assms] lines_cells erase_display_spec_def)
       (simp add: lines_def)
  ultimately show ?thesis by (simp add: eraseDisplay_closed [OF assms])
qed

theorem eraseDisplay_rows_witness:
  "lines (eraseDisplay 2 small) = replicate 2 (replicate 4 (Cell blankCell))"
  using eraseDisplay_rows [OF small_wf(1)] by simp

text \<open>
  C34. A defect: erasing "the whole line" (mode 2, CSI 2 K) erases like mode 0, from the cursor to the
  end of the line, so the cells left of the cursor survive.
\<close>

theorem eraseLine_2_keeps_prefix:
  assumes "wf m"
  shows "lines (eraseLine 2 m) = (lines m)[Y m := take (X m) (lines m ! Y m)
           @ replicate (C m - X m) (Cell blankCell)]"
proof -
  note d = wf_dims [OF assms]
  have "erase_row (X m) (C m - X m) e (lines m ! Y m) = take (X m) (lines m ! Y m) @ replicate (C m - X m) e"
    for e using concat_lines(3) [OF assms d(6)] d(5) by (simp add: erase_row_def)
  then show ?thesis
    using lines_row [OF assms, of "erase_row (X m) (C m - X m) (Cell blankCell)"] d(5)
    by (simp add: eraseLine_closed [OF assms] length_row_ops)
qed

theorem eraseLine_2_keeps_prefix_witness:
  "let m = put 65 None small in
     lines (eraseLine 2 m) = (lines m)[0 := take 1 (lines m ! 0) @ replicate 3 (Cell blankCell)]"
proof -
  have "X (put 65 None small) = 1" "Y (put 65 None small) = 0" "C (put 65 None small) = 4"
    by code_simp+
  moreover have "wf (put 65 None small)" by (intro wf_put small_wf) simp
  ultimately show ?thesis using eraseLine_2_keeps_prefix [of "put 65 None small"] by (simp add: Let_def)
qed

end
