(* ===== verification/Terminal_Modes.thy ===== *)
theory Terminal_Modes
  imports Terminal_Props
begin

text \<open>
  The terminal's modes: saving and restoring the cursor, the alternate screen, resizing,
  operating-system commands, keys, and what fractional parameters do.
\<close>

subsection \<open>Cursor save and restore, alternate screen\<close>

text \<open>
  Restoring the cursor brings back the position and pen that were saved, whatever the terminal
  did in between with its state, provided the saved record is untouched, the size is the same, and
  the pen did not come from an earlier restore.
\<close>

theorem save_restore:
  assumes "wf m" and "stray (current m) = None"
    and "saved m' = saved (saveCursor m)" and "columns m' = columns m" and "rows m' = rows m"
  shows "get_x (restoreCursor m') = get_x m \<and> get_y (restoreCursor m') = get_y m
       \<and> (current (restoreCursor m'))\<lparr>stray := None\<rparr> = current m"
proof -
  note d = wf_dims [OF assms(1)]
  have x: "to_int32 (of_int (get_x m)) = get_x m" "to_int32 (of_int (get_y m)) = get_y m"
    "clamp (get_x m) 0 (columns m - 1) = get_x m" "clamp (get_y m) 0 (rows m - 1) = get_y m"
    using d(5-9) to_int32_of_int [of "get_x m"] to_int32_of_int [of "get_y m"]
    by (simp_all add: d(11-14) clamp_def)
  have c: "(current m)\<lparr>stray := None\<rparr> = current m" using assms(2) by (cases "current m") simp
  have s: "saved m' = \<lparr>saved_x = get_x m, saved_y = get_y m, saved_attrs = (current m)\<lparr>stray := None\<rparr>\<rparr>"
    using assms(2,3) by (simp add: saveCursor_def)
  have a: "s_x (active (m''\<lparr>current := p\<rparr>)) = s_x (active m'')"
    "s_y (active (m''\<lparr>current := p\<rparr>)) = s_y (active m'')" for m'' p by simp_all
  show ?thesis
    using assms(4,5) x by (simp add: restoreCursor_def Let_def s set_x_def set_y_def c get_x_def get_y_def)
qed

theorem save_restore_witness:
  "get_x (restoreCursor (set_x 3 (saveCursor small))) = 0 \<and>
   get_y (restoreCursor (set_x 3 (saveCursor small))) = 0"
proof -
  have "stray (current small) = None"
    by code_simp
  then show ?thesis
    using save_restore [OF small_wf(1), of "set_x 3 (saveCursor small)"]
    by (simp add: set_x_def saveCursor_def)
qed

text \<open>
  C35. A defect: after a restore, saving the cursor does not save. The restored pen carries the old
  position, which wins over the current one, so a later save keeps the old saved position for
  every new cursor position.
\<close>

theorem save_after_restore_keeps_old_position:
  "saved_x (saved (saveCursor (set_y w (set_x v (restoreCursor m))))) = saved_x (saved m) \<and>
   saved_y (saved (saveCursor (set_y w (set_x v (restoreCursor m))))) = saved_y (saved m)"
  by (simp add: saveCursor_def restoreCursor_def set_x_def set_y_def Let_def)

lemma executeCsi_modes:
  "executeCsi 104 m = (if prefix (params m) \<noteq> None \<and> \<not> privateMode (params m) then m
     else set_modes (privateMode (params m)) True (param_values (params m)) m)"
  "executeCsi 108 m = (if prefix (params m) \<noteq> None \<and> \<not> privateMode (params m) then m
     else set_modes (privateMode (params m)) False (param_values (params m)) m)"
  by (simp_all add: executeCsi_def Let_def)

text \<open>
  C32. While the alternate screen is shown, input never changes the primary screen: a consumed code
  point that leaves the alternate screen active leaves the primary screen exactly as it was.
\<close>

theorem alternate_isolates_primary:
  assumes "alternate_active m" and "alternate_active (consume c m)"
  shows "primary (consume c m) = primary m"
proof (cases "switching c m")
  case False
  have "hides (primary m) (consume c m)"
    using assms(1) False by (intro hidden.consume_ops) (simp_all add: hides_def)
  then show ?thesis by (simp add: hides_def)
next
  case True
  have "primary (enterAlternate m') = primary m'" "\<not> alternate_active (leaveAlternate m')" for m'
    by (simp_all add: enterAlternate_def saveCursor_def leaveAlternate_def restoreCursor_def
        set_x_def set_y_def Let_def split: option.split)
  then have "alternate_active (set_modes p b vs m) \<Longrightarrow> primary (set_modes p b vs m) = primary m" for p b vs
    unfolding set_modes_def Let_def by (auto split: if_splits)
  then have "alternate_active (executeCsi 104 m) \<Longrightarrow> primary (executeCsi 104 m) = primary m"
    "alternate_active (executeCsi 108 m) \<Longrightarrow> primary (executeCsi 108 m) = primary m"
    unfolding executeCsi_modes by presburger+
  with True assms(2) show ?thesis
    by (auto simp: switching_def consume_def consume_csi_def consume_esc_def fullReset_def)
qed

theorem alternate_isolates_primary_witness:
  "primary (consume 65 (enterAlternate small)) = primary (enterAlternate small)"
proof -
  have "alternate_active (enterAlternate small)" "alternate_active (consume 65 (enterAlternate small))"
    by code_simp+
  then show ?thesis by (rule alternate_isolates_primary)
qed

subsection \<open>Resizing\<close>

text \<open>
  Resizing preserves the upper-left area of both screens: when a resize returns, every cell of
  the new screens that lies inside the old ones shows what it showed, every other cell is blank,
  and the terminal has the requested size, at least one by one.
\<close>

theorem resize_keeps_cells:
  assumes "wf m" and "resize c r m = (None, m')"
    and "columns m \<noteq> max 1 (to_int32 c) \<or> rows m \<noteq> max 1 (to_int32 r)"
  shows "columns m' = max 1 (to_int32 c) \<and> rows m' = max 1 (to_int32 r)
    \<and> (\<forall>x < C m'. \<forall>y < R m'.
         cells (primary m') ! (y * C m' + x) =
           (if y < R m \<and> x < C m then cells (primary m) ! (y * C m + x) else Cell blankCell)
       \<and> cells (alternate m') ! (y * C m' + x) =
           (if y < R m \<and> x < C m then cells (alternate m) ! (y * C m + x) else Cell blankCell))"
proof -
  note d = wf_dims [OF assms(1)]
  obtain c' r' where e: "max 1 (to_int32 c) = int c'" "max 1 (to_int32 r) = int r'"
    by (metis max.cobounded1 nonneg_int_cases order_trans zero_le_one)
  have scr: "wf_screen (int (C m)) (int (R m)) (primary m)" "wf_screen (int (C m)) (int (R m)) (alternate m)"
    using assms(1) d(11,12) by (simp_all add: wf_def)
  from assms(2,3) obtain p a where
    p: "resizeScreen (int c') (int r') (primary m) = Inr p" and
    a: "resizeScreen (int c') (int r') (alternate m) = Inr a" and
    m': "m' = set_y (of_int (s_y (active m))) (set_x (of_int (s_x (active m)))
            (m\<lparr>columns := int c', rows := int r', primary := p, alternate := a\<rparr>))"
    unfolding resize_def Let_def e
    by (cases "resizeScreen (int c') (int r') (primary m)";
        cases "resizeScreen (int c') (int r') (alternate m)") (simp_all split: if_splits)
  have "columns m' = int c'" "rows m' = int r'" "cells (primary m') = cells p"
    "cells (alternate m') = cells a"
    by (simp_all add: m' set_x_def set_y_def map_active_def)
  moreover from this have "C m' = c'" "R m' = r'" by (simp_all add: C_def R_def)
  ultimately show ?thesis
    using resizeScreen_cells [OF p scr(1)] resizeScreen_cells [OF a scr(2)] e by simp
qed

theorem resize_keeps_cells_witness:
  "\<exists>m'. resize 2 1 small = (None, m') \<and> columns m' = 2 \<and> rows m' = 1
     \<and> cells (primary m') ! 1 = cells (primary small) ! 1"
proof -
  have t: "to_int32 2 = 2" "to_int32 1 = 1"
    using to_int32_of_int [of 2] to_int32_of_int [of 1] by simp_all
  have "fst (resize 2 1 small) = None" by code_simp
  then obtain m' where m': "resize 2 1 small = (None, m')" by (metis prod.collapse)
  note k = resize_keeps_cells [OF small_wf(1) m']
  have "columns m' = 2" "rows m' = 1" using k by (simp_all add: t)
  moreover from this have "C m' = 2" "R m' = 1" by (simp_all add: C_def R_def)
  ultimately show ?thesis using k m' by (simp add: t)
qed

subsection \<open>Operating-system commands\<close>

lemma osc_payload:
  assumes "state m = Osc" and "7 \<notin> set cs" and "27 \<notin> set cs" and "oscEscaped m \<longrightarrow> cs = [] \<or> hd cs \<noteq> 92"
  shows "\<exists>s e. write_text cs m = m\<lparr>osc := s, oscEscaped := e\<rparr>"
  using assms
proof (induction cs arbitrary: m)
  case Nil
  then show ?case by (intro exI [of _ "osc m"] exI [of _ "oscEscaped m"]) (simp add: write_text_def)
next
  case (Cons c cs)
  have "\<exists>s. consume c m = m\<lparr>osc := s, oscEscaped := False\<rparr>"
  proof (cases "utf16_length (osc m) < 4096")
    case True
    then show ?thesis using Cons.prems
      by (intro exI [of _ "osc m @ [c]"]) (auto simp: consume_def consume_osc_def Let_def)
  next
    case False
    then show ?thesis using Cons.prems
      by (intro exI [of _ "osc m"]) (auto simp: consume_def consume_osc_def Let_def)
  qed
  then obtain s where s: "consume c m = m\<lparr>osc := s, oscEscaped := False\<rparr>" ..
  obtain s' e' where "write_text cs (consume c m) = (consume c m)\<lparr>osc := s', oscEscaped := e'\<rparr>"
    using Cons.IH [of "consume c m"] Cons.prems by (auto simp: s)
  then have "write_text (c # cs) m = m\<lparr>osc := s', oscEscaped := e'\<rparr>"
    by (simp add: write_text_def s)
  then show ?case by blast
qed

text \<open>
  An operating-system command (ESC ] payload BEL) is swallowed: whatever its payload, the
  terminal is back in its normal state and nothing but the command buffer has changed. The pending
  flag of an escape in an earlier command must be clear.
\<close>

theorem osc_is_swallowed:
  assumes "state m = Normal" and "\<not> oscEscaped m" and "7 \<notin> set payload" and "27 \<notin> set payload"
  shows "\<exists>e. write_text ([27, 93] @ payload @ [7]) m = m\<lparr>osc := [], oscEscaped := e\<rparr>"
proof -
  let ?m = "m\<lparr>state := Osc, osc := []\<rparr>"
  have "write_text [27, 93] m = ?m"
    using assms(1) by (simp add: write_text_def consume_def consume_normal_def consume_esc_def)
  moreover obtain s e where "write_text payload ?m = ?m\<lparr>osc := s, oscEscaped := e\<rparr>"
    using osc_payload [of ?m payload] assms by auto
  ultimately have "write_text ([27, 93] @ payload @ [7]) m = m\<lparr>state := Normal, osc := [], oscEscaped := e\<rparr>"
    by (simp add: write_text_def consume_def consume_osc_def)
  moreover have "m\<lparr>state := Normal, osc := [], oscEscaped := e\<rparr> = m\<lparr>osc := [], oscEscaped := e\<rparr>"
    using assms(1) by (cases m) simp
  ultimately show ?thesis by auto
qed

theorem osc_is_swallowed_witness:
  "\<exists>e. write_text ([27, 93] @ [48, 59, 116] @ [7]) small = small\<lparr>osc := [], oscEscaped := e\<rparr>"
proof -
  have "state small = Normal" "\<not> oscEscaped small" by code_simp+
  then show ?thesis by (intro osc_is_swallowed) simp_all
qed

subsection \<open>Keys\<close>

text \<open>
  Every named key has a byte sequence of its own: in either cursor-key mode, two keys with the
  same sequence are the same key.
\<close>

theorem keySequence_injective: "inj_on (keySequence m) (dom (keySequence m))"
proof -
  have "distinct (map snd (key_table (ESC # ''O'')))" "distinct (map snd (key_table (ESC # ''['')))"
    by code_simp+
  moreover have "inj_on (map_of ps) (dom (map_of ps))" if "distinct (map snd ps)"
    for ps :: "(string \<times> string) list"
  proof (rule inj_onI)
    fix k k' assume "k \<in> dom (map_of ps)" "map_of ps k = map_of ps k'"
    then obtain v where "(k, v) \<in> set ps" "(k', v) \<in> set ps" by (metis domD map_of_SomeD)
    moreover have "inj_on snd (set ps)" using that by (simp add: distinct_map)
    ultimately have "(k, v) = (k', v)" by (intro inj_onD [of snd "set ps"]) simp_all
    then show "k = k'" by simp
  qed
  ultimately show ?thesis by (simp add: keySequence_def [abs_def])
qed

subsection \<open>Fractional parameters\<close>

text \<open>A number that keeps the distance \<open>e\<close> from the integers.\<close>

definition between :: "rat \<Rightarrow> rat \<Rightarrow> bool" where
  "between e q \<longleftrightarrow> (\<exists>k::int. of_int k + e \<le> q \<and> q \<le> of_int k + 1 - e)"

lemma between_round:
  assumes "between e q" "e = d + 1 / 2 ^ 20" "0 < d" "e \<le> q" "q < 2 ^ 32"
  shows "between d (js_round q)" "q - 1 / 2 ^ 20 \<le> js_round q" "js_round q \<le> q + 1 / 2 ^ 20"
proof -
  from assms(1) obtain k where k: "of_int k + e \<le> q" "q \<le> of_int k + 1 - e" by (auto simp: between_def)
  have "(1::rat) / 2 ^ 64 \<le> 1 / 2 ^ 20" by simp
  then have "1 / 2 ^ 64 \<le> q" using assms(2-4) by linarith
  from js_round_error [OF this] have "\<bar>js_round q - q\<bar> \<le> q / 2 ^ 53" .
  moreover have "q / 2 ^ 53 \<le> 1 / 2 ^ 20" using assms(5) by simp
  ultimately have "\<bar>js_round q - q\<bar> \<le> 1 / 2 ^ 20" by linarith
  then show r: "q - 1 / 2 ^ 20 \<le> js_round q" "js_round q \<le> q + 1 / 2 ^ 20" by (simp_all only: abs_le_iff) linarith+
  from r k assms(2) show "between d (js_round q)" unfolding between_def by (intro exI [of _ k]) linarith
qed

lemma between_shift: "between e q \<Longrightarrow> between e (of_int n + q)"
  unfolding between_def
proof -
  assume "\<exists>k::int. of_int k + e \<le> q \<and> q \<le> of_int k + 1 - e"
  then obtain k where "of_int k + e \<le> q" "q \<le> of_int k + 1 - e" by blast
  then show "\<exists>k::int. of_int k + e \<le> of_int n + q \<and> of_int n + q \<le> of_int k + 1 - e"
    by (intro exI [of _ "n + k"]) simp
qed

lemma between_minus: "between e q \<Longrightarrow> between e (- q)"
  unfolding between_def
proof -
  assume "\<exists>k::int. of_int k + e \<le> q \<and> q \<le> of_int k + 1 - e"
  then obtain k where "of_int k + e \<le> q" "q \<le> of_int k + 1 - e" by blast
  then show "\<exists>k::int. of_int k + e \<le> - q \<and> - q \<le> of_int k + 1 - e"
    by (intro exI [of _ "- k - 1"]) simp
qed

lemma between_le: "between e q \<Longrightarrow> 0 < e \<Longrightarrow> q \<le> of_int n \<Longrightarrow> q \<le> of_int n - e"
proof -
  assume "between e q" "0 < e" "q \<le> of_int n"
  then obtain k where k: "of_int k + e \<le> q" "q \<le> of_int k + 1 - e" by (auto simp: between_def)
  with \<open>0 < e\<close> \<open>q \<le> of_int n\<close> have "(of_int k :: rat) < of_int n" by linarith
  then have "(of_int k + 1 :: rat) \<le> of_int n" by (simp only: of_int_less_iff)
  with k show "q \<le> of_int n - e" by linarith
qed

lemma between_ge: "between e q \<Longrightarrow> 0 < e \<Longrightarrow> of_int n \<le> q \<Longrightarrow> of_int n + e \<le> q"
  using between_le [OF between_minus, of e q "- n"] by simp

lemma between_not_index: "between e q \<Longrightarrow> 0 < e \<Longrightarrow> \<not> is_index q"
  using between_le [of e q "\<lfloor>q\<rfloor>"] by (auto simp: is_index_def)


text \<open>The last cell of the cursor's row is undefined; \<open>c\<close>, \<open>r\<close> and \<open>y\<close> are the size and the row.\<close>

definition last_undefined :: "nat \<Rightarrow> nat \<Rightarrow> nat \<Rightarrow> model \<Rightarrow> bool" where
  "last_undefined c r y m \<longleftrightarrow> columns m = int c \<and> length (cells (active m)) = c * r \<and>
     cells (active m) ! (y * c + c - 1) = Undefined"

lemma cell_index:
  assumes "y < r" "i < c" "c * r < 2 ^ 32" "columns m = int c"
  shows "index m (of_int (int i)) (of_int (int y)) = of_int (int (y * c + i))" "y * c + i < c * r"
proof -
  have "y * c + i < Suc y * c" using assms(2) by simp
  also have "\<dots> \<le> r * c" using assms(1) by (intro mult_le_mono1) simp
  finally show lt: "y * c + i < c * r" by (simp add: mult.commute)
  then have "int (y * c + i) < 2 ^ 53" "int y * int c < 2 ^ 53" using assms(3) by (simp_all flip: of_nat_mult)
  then have "js_mul (of_int (int y)) (of_int (int c)) = of_int (int y * int c)"
    "js_add (of_int (int y * int c)) (of_int (int i)) = of_int (int y * int c + int i)"
    by (intro js_mul_int js_add_int; simp)+
  then show "index m (of_int (int i)) (of_int (int y)) = of_int (int (y * c + i))"
    unfolding index_def assms(4) by simp
qed

lemma cells_put_cell: "cells (active (put_cell q v m)) = js_set Undefined (cells (active m)) q v"
  by (simp add: put_cell_def upd_cells_def map_active_def active_def)

lemma columns_put_cell: "columns (put_cell q v m) = columns m"
  by (simp add: put_cell_def upd_cells_def map_active_def)

lemma last_undefined_put:
  assumes "last_undefined c r y m" "y < r" "i < c - 1" "c * r < 2 ^ 32"
  shows "last_undefined c r y (put_cell (index m (of_int (int i)) (of_int (int y))) v m)"
proof -
  from assms(1) have m: "columns m = int c" "length (cells (active m)) = c * r" by (simp_all add: last_undefined_def)
  have i: "i < c" "y * c + i \<noteq> y * c + c - 1" using assms(3) by linarith+
  note ix = cell_index [OF assms(2) i(1) assms(4) m(1)]
  define k where "k = y * c + i"
  have "js_set Undefined (cells (active m)) (of_int (int k)) v = (cells (active m))[k := v]"
    using js_set_of_int [of "int k" "cells (active m)" Undefined v] ix(2) m(2) unfolding k_def [symmetric] by simp
  then have "cells (active (put_cell (of_int (int k)) v m)) = (cells (active m))[k := v]" by (simp only: cells_put_cell)
  then show ?thesis
    using assms(1) i(2) unfolding ix(1) k_def [symmetric] last_undefined_def by (simp add: columns_put_cell del: of_int_of_nat_eq)
qed

lemma down_keeps:
  assumes "last_undefined c r y m" "y < r" "c * r < 2 ^ 32" "i < int c - 1" "0 \<le> lo" "int c < 2 ^ 31"
  shows "last_undefined c r y (js_for_down n (of_int i) lo
    (\<lambda>column m. put_cell (index m column (of_int (int y))) (g column m) m) m)"
  using assms(1,4)
proof (induction n arbitrary: i m)
  case (Suc n)
  show ?case
  proof (cases "(of_int i :: rat) \<ge> lo")
    case True
    with assms(5) have i: "0 \<le> i" by (metis of_int_0_le_iff order_trans)
    then have "int (nat i) = i" "nat i < c - 1" using Suc.prems(2) by simp_all
    with last_undefined_put [OF Suc.prems(1) assms(2) _ assms(3), of "nat i"]
    have "last_undefined c r y (put_cell (index m (of_int i) (of_int (int y))) v m)" for v by simp
    moreover have "js_sub (of_int i) 1 = of_int (i - 1)" using js_sub_int [of i 1] i Suc.prems(2) assms(6) by simp
    ultimately show ?thesis using Suc.IH [of _ "i - 1"] Suc.prems(2) True by simp
  qed (use Suc.prems in simp)
qed simp

lemma up_keeps:
  assumes "last_undefined c r y m" "y < r" "c * r < 2 ^ 32" "0 \<le> i" "hi \<le> of_int (int c - 1)" "int c < 2 ^ 31"
  shows "last_undefined c r y (js_for n (of_int i) hi
    (\<lambda>column m. put_cell (index m column (of_int (int y))) (g column m) m) m)"
  using assms(1,4)
proof (induction n arbitrary: i m)
  case (Suc n)
  show ?case
  proof (cases "(of_int i :: rat) < hi")
    case True
    with assms(5) have i: "i < int c - 1" by (metis less_le_trans of_int_less_iff)
    then have "int (nat i) = i" "nat i < c - 1" using Suc.prems(2) by simp_all
    with last_undefined_put [OF Suc.prems(1) assms(2) _ assms(3), of "nat i"]
    have "last_undefined c r y (put_cell (index m (of_int i) (of_int (int y))) v m)" for v by simp
    moreover have "js_add (of_int i) 1 = of_int (i + 1)" using js_add_int [of i 1] i Suc.prems(2) assms(6) by simp
    ultimately show ?thesis using Suc.IH [of _ "i + 1"] Suc.prems(2) True by simp
  qed (use Suc.prems in simp)
qed simp

text \<open>The first cell that is moved comes from between two columns.\<close>

lemma fractional_source:
  assumes "columns m = int c" "y < r" "c * r < 2 ^ 32" "0 < c" "1 < cnt" "cnt \<le> of_int (int c - 1)" "between (1 / 2 ^ 16) cnt"
  shows "cell_at m (js_sub (of_int (int c - 1)) cnt) (of_int (int y)) = Undefined"
proof -
  let ?last = "of_int (int c - 1) :: rat"
  define d where "d = (1 / 2 ^ 16 - 1 / 2 ^ 20 :: rat)"
  define p where "p = js_sub ?last cnt"
  note ix = cell_index [OF assms(2) _ assms(3,1), of "c - 1"]
  have lim: "y * c + (c - 1) < c * r" using ix(2) assms(4) by simp
  have "int (y * c + (c - 1)) < int (2 ^ 32)" using lim assms(3) by (simp only: of_nat_less_iff)
  then have "int (y * c) + (int c - 1) < 2 ^ 32" using assms(4) by (simp add: of_nat_diff)
  then have "(of_int (int (y * c) + (int c - 1)) :: rat) < of_int (2 ^ 32)" by (simp only: of_int_less_iff)
  then have top: "of_int (int (y * c)) + ?last < 2 ^ 32" by simp
  have "between (1 / 2 ^ 16) (of_int (int c - 1) + - cnt)" using assms(7) by (intro between_shift between_minus)
  then have q: "between (1 / 2 ^ 16) (?last - cnt)" by simp
  have low: "1 / 2 ^ 16 \<le> ?last - cnt" using between_ge [OF q, of 0] assms(6) by simp
  have zero: "(0 :: rat) \<le> of_int (int (y * c))" by simp
  have small: "?last - cnt < 2 ^ 32" using top assms(5) zero by linarith
  have d: "1 / 2 ^ 16 = d + 1 / 2 ^ 20" "0 < d" "d = (d - 1 / 2 ^ 20) + 1 / 2 ^ 20" "0 < d - 1 / 2 ^ 20" by (simp_all add: d_def)
  note p = between_round [OF q d(1,2) low small, folded js_sub_def, folded p_def]
  have "between d (of_int (int (y * c)) + p)" using p(1) by (rule between_shift)
  moreover have "d \<le> of_int (int (y * c)) + p" using p(2) low zero d(1) by linarith
  moreover have "of_int (int (y * c)) + p < 2 ^ 32" using p(3) top assms(5) by simp
  ultimately have "between (d - 1 / 2 ^ 20) (js_round (of_int (int (y * c)) + p))"
    using between_round(1) [of d "of_int (int (y * c)) + p", OF _ d(3,4)] by blast
  moreover have "js_mul (of_int (int y)) (of_int (int c)) = of_int (int (y * c))"
  proof -
    have "int y * int c < 2 ^ 53" using lim assms(3) by (simp flip: of_nat_mult)
    then show ?thesis using js_mul_int [of "int y" "int c"] by simp
  qed
  ultimately have "\<not> is_index (index m p (of_int (int y)))"
    using between_not_index d(4) unfolding index_def js_add_def assms(1) by metis
  then show ?thesis by (simp add: cell_at_def js_get_def p_def)
qed

lemma fractional_insert:
  assumes m: "columns m = int c" "get_x m = int x" "get_y m = int y" "length (cells (active m)) = c * r"
    and size: "x < c" "y < r" "c * r < 2 ^ 32" "c < 2 ^ 31"
    and cnt: "1 < cnt" "of_int (int x) + cnt \<le> of_int (int c - 1)" "between (1 / 2 ^ 16) cnt"
  shows "last_undefined c r y (insertCharacters cnt m)"
proof -
  let ?x = "of_int (int x) :: rat" and ?y = "of_int (int y) :: rat" and ?last = "of_int (int c - 1) :: rat"
  define stop where "stop = js_add ?x cnt"
  define f where "f = (\<lambda>column m. put_cell (index m column ?y) (cell_at m (js_sub column cnt) ?y) m)"
  have x0: "0 \<le> ?x" by simp
  have c31: "?last < 2 ^ 31" "int c < 2 ^ 31" using size(4) by simp_all
  have count: "clamp cnt 1 (of_int (columns m - get_x m)) = cnt" using cnt(1,2) m by (simp add: clamp_def)
  have q: "between (1 / 2 ^ 16) (?x + cnt)" using cnt(3) by (rule between_shift)
  have top: "?x + cnt \<le> ?last - 1 / 2 ^ 16" using between_le [OF q _ cnt(2)] by simp
  have "?x + cnt < 2 ^ 32" "1 / 2 ^ 16 \<le> ?x + cnt" using cnt(1,2) c31(1) x0 by simp_all
  from between_round(2,3) [OF q _ _ this(2,1), of "1 / 2 ^ 16 - 1 / 2 ^ 20"]
  have stop: "0 \<le> stop" "stop \<le> ?last" using top x0 cnt(1) unfolding stop_def js_add_def by simp_all
  have "cnt \<le> ?last" using cnt(2) x0 by linarith
  then have src: "cell_at m (js_sub ?last cnt) ?y = Undefined"
    using fractional_source [OF m(1) size(2,3) _ cnt(1) _ cnt(3)] size(1) by simp
  have "0 < c" using size(1) by simp
  define k where "k = y * c + (c - 1)"
  have at: "index m ?last ?y = of_int (int k)" "k < c * r" "y * c + c - 1 = k"
    using cell_index [OF size(2) _ size(3) m(1), of "c - 1"] \<open>0 < c\<close> by (simp_all add: k_def of_nat_diff)
  have "js_set Undefined (cells (active m)) (of_int (int k)) Undefined = (cells (active m))[k := Undefined]"
    using js_set_of_int [of "int k" "cells (active m)" Undefined Undefined] at(2) m(4) by simp
  then have first: "last_undefined c r y (f ?last m)"
    using at m(1,4) unfolding f_def src at(1) last_undefined_def cells_put_cell columns_put_cell by simp
  have "js_sub ?last 1 = of_int (int c - 2)" using js_sub_int [of "int c - 1" 1] c31(2) by simp
  then have "js_for_down (nat (columns m)) ?last stop f m = js_for_down (c - 1) (of_int (int c - 2)) stop f (f ?last m)"
    using stop(2) js_for_down.simps(2) [of "c - 1" ?last stop f m] m(1) \<open>0 < c\<close> by simp
  moreover have "last_undefined c r y (js_for_down (c - 1) (of_int (int c - 2)) stop f (f ?last m))"
    unfolding f_def by (rule down_keeps [OF first [unfolded f_def] size(2,3) _ stop(1) c31(2)]) simp
  ultimately have "last_undefined c r y (js_for_down (nat (columns m)) ?last stop f m)" by simp
  moreover have "insertCharacters cnt m = js_for (loop_fuel ?x stop) ?x stop
      (\<lambda>column m. put_cell (index m column ?y) (Cell (pen_blank m)) m) (js_for_down (nat (columns m)) ?last stop f m)"
    unfolding insertCharacters_def Let_def count by (simp add: m stop_def f_def)
  ultimately show ?thesis using up_keeps [OF _ size(2,3) _ stop(2) c31(2), of _ "int x"] by simp
qed


lemma split_on_none: "d \<notin> set t \<Longrightarrow> Terminal_Model.split_on d t = [t]"
  by (induction t) auto

lemma csi_text:
  assumes "list_all (\<lambda>d. 48 \<le> d \<and> d \<le> 57 \<or> d = 46) t" "length (csi m @ t) \<le> 128" "state m = Csi"
    and "list_all (\<lambda>d. d < 0x10000) (csi m)"
  shows "fold consume t m = m\<lparr>csi := csi m @ t\<rparr>"
  using assms
proof (induction t arbitrary: m)
  case (Cons d t)
  have "list_all (\<lambda>d. d < 0x10000) cs \<Longrightarrow> utf16_length cs = length cs" for cs by (induction cs) (simp_all add: utf16_length_def)
  with Cons.prems(4) have "utf16_length (csi m) = length (csi m)" by blast
  then have "consume d m = m\<lparr>csi := csi m @ [d]\<rparr>"
    using Cons.prems by (auto simp: consume_def consume_csi_def)
  with Cons.IH [of "m\<lparr>csi := csi m @ [d]\<rparr>"] Cons.prems show ?case by auto
qed simp

lemma csi_insert:
  assumes "list_all (\<lambda>d. 48 \<le> d \<and> d \<le> 57 \<or> d = 46) t" "length t \<le> 128" "state m = Normal" "js_number t = Some cnt" "cnt \<noteq> 0"
  shows "write_text ([27, 91] @ t @ [64]) m = (insertCharacters cnt (m\<lparr>state := Csi, csi := t\<rparr>))\<lparr>state := Normal\<rparr>"
proof -
  let ?m = "m\<lparr>state := Csi, csi := t\<rparr>"
  have start: "fold consume [27, 91] m = m\<lparr>state := Csi, csi := []\<rparr>"
    using assms(3) by (simp add: consume_def consume_normal_def consume_esc_def)
  have digits: "fold consume t (m\<lparr>state := Csi, csi := []\<rparr>) = ?m"
    using csi_text [of t "m\<lparr>state := Csi, csi := []\<rparr>"] assms(1,2) by simp
  have "59 \<notin> set t" "\<not> (\<exists>c cs. t = c # cs \<and> 60 \<le> c \<and> c \<le> 63)" using assms(1) by (auto simp: list_all_iff)
  moreover have "js_number [] = Some 0" by code_simp
  with assms(4,5) have "t \<noteq> []" by auto
  ultimately have "params ?m = \<lparr>privateMode = False, prefix = None, param_values = [cnt]\<rparr>"
    using assms(4) by (auto simp: params_def param_value_def split_on_none split: list.split)
  then have "executeCsi 64 ?m = insertCharacters cnt ?m"
    using assms(5) by (simp add: executeCsi_def value_at_def js_or_opt_def js_or_def Let_def)
  then show ?thesis using start digits by (simp add: write_text_def consume_def [of 64] consume_csi_def)
qed



text \<open>
  Extended colours: every value of the 256-colour palette and every red-green-blue triple gives
  a six-digit colour, and the 24 grey levels, the 216 cube colours and the 16 base colours are
  selected by the index ranges of the xterm convention.
\<close>

theorem xtermColor_ranges:
  "is_colour (Some (xtermColor v)) \<and> is_colour (Some (rgb r g b))
   \<and> (let n = clamp (to_int32 v) 0 255 in
      xtermColor v = (if n < 16 then PALETTE ! nat n
        else if n < 232 then rgb (channel ((n - 16) div 36)) (channel ((n - 16) div 6 mod 6)) (channel ((n - 16) mod 6))
        else rgb (of_int (10 * n - 2312)) (of_int (10 * n - 2312)) (of_int (10 * n - 2312))))"
  by (simp add: xtermColor_colour rgb_colour) (simp add: xtermColor_def Let_def algebra_simps)

end
