(* ===== verification/Wat_Float.thy ===== *)
theory Wat_Float
  imports Waste_Prelude
begin

text \<open>
  The conversion of WebAssembly text-format float literals (ASCII text) in \<open>worker.js\<close>: \<open>roundShiftEven\<close>,
  \<open>roundRatioEven\<close>, \<open>watDecimalF32\<close>, \<open>watHexFloat\<close> and \<open>watFloat\<close>, which the engine imports as
  \<open>strtod\<close> and \<open>strtof\<close>. BigInt values are \<open>int\<close>; a result Number keeps its sign
  (\<open>number\<close>). The theorems say that the exponent and fraction fields the code computes by hand
  encode the correctly rounded value (round to nearest, ties to even) of the exact literal,
  subnormals and overflow to infinity included. The size limit of the engine's BigInt
  implementation is not modelled.
\<close>

unbundle bit_operations_syntax

subsection \<open>Strings and BigInt\<close>

definition to_lower :: "nat \<Rightarrow> nat" where
  "to_lower c = (if 65 \<le> c \<and> c \<le> 90 then c + 32 else c)"

fun index_of :: "'a \<Rightarrow> 'a list \<Rightarrow> nat option" where
  "index_of x [] = None"
| "index_of x (y # ys) = (if x = y then Some 0 else map_option Suc (index_of x ys))"

definition strip_sign :: "nat list \<Rightarrow> bool \<times> nat list" where
  "strip_sign cs = (case cs of
       [] \<Rightarrow> (False, [])
     | c # r \<Rightarrow> if c = 43 \<or> c = 45 then (c = 45, r) else (False, cs))"

text \<open>\<open>BigInt(text)\<close> and \<open>BigInt(number)\<close>.\<close>

definition bigint_of_text :: "nat list \<Rightarrow> int completion" where
  "bigint_of_text cs =
     (let t = js_trim cs; err = Inl (SyntaxError ''Cannot convert to a BigInt'')
      in if t = [] then Inr 0
         else case radix_prefix t of
           Some b \<Rightarrow> (let ds = drop 2 t
                      in if ds \<noteq> [] \<and> all_digits b ds then Inr (int (digits_value b ds)) else err)
         | None \<Rightarrow>
             (let (neg, ds) = strip_sign t
              in if ds \<noteq> [] \<and> list_all is_digit ds
                 then Inr ((if neg then -1 else 1) * int (digits_value 10 ds)) else err))"

definition bigint_of_rat :: "rat \<Rightarrow> int completion" where
  "bigint_of_rat q =
     (if of_int \<lfloor>q\<rfloor> = q then Inr \<lfloor>q\<rfloor> else Inl (RangeError ''not an integer''))"

text \<open>BigInt division truncates; \<open>toString(2).length\<close> counts the sign.\<close>

definition big_div :: "int \<Rightarrow> int \<Rightarrow> int" where
  "big_div a b = sgn a * sgn b * (\<bar>a\<bar> div \<bar>b\<bar>)"

definition big_rem :: "int \<Rightarrow> int \<Rightarrow> int" where
  "big_rem a b = a - big_div a b * b"

definition binary_length :: "int \<Rightarrow> int" where
  "binary_length v = int (bit_len (nat \<bar>v\<bar>)) + (if v < 0 then 1 else 0)"

subsection \<open>Rounding\<close>

definition roundShiftEven :: "int \<Rightarrow> int \<Rightarrow> int" where
  "roundShiftEven value shift =
     (if shift \<le> 0 then push_bit (nat (- shift)) value
      else let amount = nat shift;
               rounded = drop_bit amount value;
               remainder = value - push_bit amount rounded;
               halfway = push_bit (amount - 1) 1
           in if remainder > halfway \<or> (remainder = halfway \<and> odd rounded)
              then rounded + 1 else rounded)"

definition roundRatioEven :: "int \<Rightarrow> int \<Rightarrow> int" where
  "roundRatioEven numerator denominator =
     (let rounded = big_div numerator denominator;
          remainder = big_rem numerator denominator;
          comparison = remainder * 2 - denominator
      in if comparison > 0 \<or> (comparison = 0 \<and> odd rounded) then rounded + 1 else rounded)"

subsection \<open>Float fields\<close>

text \<open>
  The value of the fields of a binary float with \<open>p\<close> significant bits and exponent limit
  \<open>emax\<close>: what \<open>DataView.getFloat32\<close> and \<open>getFloat64\<close> return for the bits.
\<close>

definition decode_float :: "nat \<Rightarrow> int \<Rightarrow> bool \<Rightarrow> int \<Rightarrow> int \<Rightarrow> number" where
  "decode_float p emax neg e f =
     (if e = 2 * emax - 1 then (if f = 0 then Infinite neg else NaN)
      else if e = 0 then Finite neg (of_int f * 2 powi (3 - emax - int p))
      else Finite neg (of_int (2 ^ (p - 1) + f) * 2 powi (e + 2 - emax - int p)))"

definition getFloat32 :: "int \<Rightarrow> number" where
  "getFloat32 b = decode_float 24 128 (bit b 31) (take_bit 8 (drop_bit 23 b)) (take_bit 23 b)"

definition getFloat64 :: "int \<Rightarrow> number" where
  "getFloat64 b = decode_float 53 1024 (bit b 63) (take_bit 11 (drop_bit 52 b)) (take_bit 52 b)"

text \<open>\<open>(sign | exponentField << 23 | fraction & 0x7fffff) >>> 0\<close>, and the same on 64-bit BigInts.\<close>

definition f32_bits :: "bool \<Rightarrow> int \<Rightarrow> int \<Rightarrow> int" where
  "f32_bits neg exponentField fraction =
     take_bit 32 ((if neg then 0x80000000 else 0) OR push_bit 23 exponentField
                  OR (fraction AND 0x7fffff))"

definition f64_bits :: "bool \<Rightarrow> int \<Rightarrow> int \<Rightarrow> int" where
  "f64_bits neg exponentField fraction =
     ((if neg then push_bit 63 1 else 0) OR push_bit 52 exponentField
      OR (fraction AND 0xfffffffffffff))"

subsection \<open>Decimal literals as binary32\<close>

definition encode_ratio_f32 :: "bool \<Rightarrow> int \<Rightarrow> int \<Rightarrow> number" where
  "encode_ratio_f32 negative numerator denominator =
     (let u = binary_length numerator - binary_length denominator;
          unbiased = (if (if u \<ge> 0 then numerator < push_bit (nat u) denominator
                          else push_bit (nat (- u)) numerator < denominator)
                      then u - 1 else u);
          (exponentField, fraction) =
            (if unbiased \<ge> -126 then
               let shift = 23 - unbiased;
                   r = (if shift \<ge> 0 then roundRatioEven (push_bit (nat shift) numerator) denominator
                        else roundRatioEven numerator (push_bit (nat (- shift)) denominator));
                   (rounded, unbiased) = (if r = 2 ^ 24 then (drop_bit 1 r, unbiased + 1) else (r, unbiased))
               in if unbiased > 127 then (0xff, 0) else (unbiased + 127, rounded - 2 ^ 23)
             else
               let units = roundRatioEven (push_bit 149 numerator) denominator
               in if units \<ge> 2 ^ 23 then (1, units - 2 ^ 23) else (0, units))
      in getFloat32 (f32_bits negative exponentField fraction))"

definition watDecimalF32 :: "nat list \<Rightarrow> number completion" where
  "watDecimalF32 text =
     (let (negative, source) = strip_sign (map to_lower text);
          exponentAt = index_of 101 source;
          significand = (case exponentAt of None \<Rightarrow> source | Some i \<Rightarrow> take i source);
          decimalExponent = (case exponentAt of None \<Rightarrow> Finite False 0
                             | Some i \<Rightarrow> to_number (drop (i + 1) source));
          pointAt = index_of 46 significand;
          fractionDigits = (case pointAt of None \<Rightarrow> 0 | Some i \<Rightarrow> length significand - i - 1);
          digits = remove1 46 significand
      in bind_c (bigint_of_text (if digits = [] then [48] else digits)) (\<lambda>magnitude.
         if magnitude = 0 then Inr (getFloat32 (if negative then 0x80000000 else 0))
         else case decimalExponent of
           Finite n e \<Rightarrow>
             bind_c (bigint_of_rat (js_sub (if n then - e else e) (of_nat fractionDigits)))
               (\<lambda>decimalScale. Inr
                 (if decimalScale \<ge> 0
                  then encode_ratio_f32 negative (magnitude * 10 ^ nat decimalScale) 1
                  else encode_ratio_f32 negative magnitude (10 ^ nat (- decimalScale))))
         | _ \<Rightarrow> Inl (RangeError ''not an integer'')))"

subsection \<open>Hexadecimal literals\<close>

text \<open>
  The exponent is an arbitrary Number. \<open>hex_fields\<close> computes the exponent field (a Number) and
  the fraction from the significand and a finite scale; an infinite positive exponent takes the
  overflow branch, and NaN or a negative infinity makes a BigInt conversion throw.
\<close>

definition hex_fields :: "bool \<Rightarrow> int \<Rightarrow> rat \<Rightarrow> (rat \<times> int) completion" where
  "hex_fields asF32 magnitude scale =
     (let precision = (if asF32 then 24 else 53 :: int);
          bias = (if asF32 then 127 else 1023 :: rat);
          maximumExponent = (if asF32 then 127 else 1023 :: rat);
          minimumNormal = (if asF32 then -126 else -1022 :: rat);
          minimumSubnormal = (if asF32 then -149 else -1074 :: rat);
          normalUnit = (2 ^ nat (precision - 1) :: int);
          bitLength = binary_length magnitude;
          unbiased = js_add (of_int (bitLength - 1)) scale
      in if unbiased \<ge> minimumNormal then
           let r = roundShiftEven magnitude (bitLength - precision);
               (rounded, unbiased) = (if r = 2 ^ nat precision then (drop_bit 1 r, js_add unbiased 1)
                                      else (r, unbiased))
           in if unbiased > maximumExponent then Inr (if asF32 then 0xff else 0x7ff, 0)
              else Inr (js_add unbiased bias, rounded - normalUnit)
         else
           bind_c (bigint_of_rat (js_sub scale minimumSubnormal)) (\<lambda>unitShift.
             let units = (if unitShift \<ge> 0 then push_bit (nat unitShift) magnitude
                          else roundShiftEven magnitude (- unitShift))
             in Inr (if units \<ge> normalUnit then (1, units - normalUnit) else (0, units))))"

definition hex_result :: "bool \<Rightarrow> bool \<Rightarrow> rat \<Rightarrow> int \<Rightarrow> number completion" where
  "hex_result asF32 negative exponentField fraction =
     (if asF32 then Inr (getFloat32 (f32_bits negative (to_int32 exponentField) fraction))
      else bind_c (bigint_of_rat exponentField)
             (\<lambda>e. Inr (getFloat64 (f64_bits negative e fraction))))"

definition strip_0x :: "nat list \<Rightarrow> nat list" where
  "strip_0x cs = (if take 2 cs = [48, 120] then drop 2 cs else cs)"

definition watHexFloat :: "nat list \<Rightarrow> bool \<Rightarrow> number completion" where
  "watHexFloat text asF32 =
     (let (negative, source) = strip_sign (map to_lower text);
          exponentAt = index_of 112 source;
          significand = (case exponentAt of None \<Rightarrow> source | Some i \<Rightarrow> take i source);
          exponent = (case exponentAt of None \<Rightarrow> Finite False 0
                      | Some i \<Rightarrow> to_number (drop (i + 1) source));
          pointAt = index_of 46 significand;
          fractionDigits = (case pointAt of None \<Rightarrow> 0 | Some i \<Rightarrow> length significand - i - 1);
          digits = remove1 46 (strip_0x significand)
      in bind_c (bigint_of_text ([48, 120] @ (if digits = [] then [48] else digits))) (\<lambda>magnitude.
         if magnitude = 0 then
           Inr (if asF32 then getFloat32 (if negative then 0x80000000 else 0)
                else getFloat64 (if negative then push_bit 63 1 else 0))
         else case exponent of
           Finite n e \<Rightarrow>
             bind_c (hex_fields asF32 magnitude
                       (js_sub (if n then - e else e) (of_nat (fractionDigits * 4))))
               (\<lambda>(exponentField, fraction). hex_result asF32 negative exponentField fraction)
         | Infinite n \<Rightarrow>
             if n then Inl (RangeError ''not an integer'')
             else hex_result asF32 negative (if asF32 then 0xff else 0x7ff) 0
         | NaN \<Rightarrow> Inl (RangeError ''not an integer'')))"

definition watFloat :: "nat list \<Rightarrow> bool \<Rightarrow> number completion" where
  "watFloat text asF32 =
     (let unsigned = snd (strip_sign text)
      in if take 2 (map to_lower unsigned) = [48, 120] then watHexFloat text asF32
         else if asF32 then watDecimalF32 text
         else Inr (to_number text))"

subsection \<open>The fields and the rounding steps\<close>

lemma fields_bits:
  fixes e f :: int
  assumes "e = take_bit k e" "f = take_bit n f" and "b = (if neg then push_bit (n + k) 1 else 0) OR push_bit n e OR f"
  shows "bit b (n + k) = neg" "take_bit k (drop_bit n b) = e" "take_bit n b = f"
    "take_bit (n + k + 1) b = b"
proof -
  have eb: "bit e i \<Longrightarrow> i < k" for i using assms(1) by (metis bit_take_bit_iff)
  have fb: "bit f i \<Longrightarrow> i < n" for i using assms(2) by (metis bit_take_bit_iff)
  show "bit b (n + k) = neg"
    using eb [of k] fb [of "n + k"] unfolding assms(3) by (auto simp: bit_simps)
  show "take_bit k (drop_bit n b) = e"
    unfolding assms(3) by (rule bit_eqI) (auto simp: bit_simps dest: eb fb)
  show "take_bit n b = f"
    unfolding assms(3) by (rule bit_eqI) (auto simp: bit_simps dest: eb fb)
  show "take_bit (n + k + 1) b = b"
    unfolding assms(3) by (rule bit_eqI) (auto simp: bit_simps dest: eb fb)
qed

lemma and_mask_numerals:
  "(x::int) AND 0x7fffff = take_bit 23 x" "x AND 0xfffffffffffff = take_bit 52 x"
  using take_bit_eq_mask [of 23 x] take_bit_eq_mask [of 52 x] by (simp_all add: mask_eq_exp_minus_1)

lemma getFloat32_fields:
  assumes "0 \<le> e" "e < 256" "0 \<le> f" "f < 2 ^ 23"
  shows "getFloat32 (f32_bits neg e f) = decode_float 24 128 neg e f"
proof -
  have ef: "e = take_bit 8 e" "f = take_bit 23 f"
    using assms by (simp_all add: take_bit_int_eq_self)
  let ?b = "(if neg then push_bit (23 + 8) 1 else 0) OR push_bit 23 e OR f"
  note fields = fields_bits [OF ef refl, of neg]
  have "(23 + 8 + 1 :: nat) = 32" by simp
  with fields(4) have "take_bit 32 ?b = ?b" by (simp only:)
  moreover have "(if neg then 0x80000000 else 0) = (if neg then push_bit (23 + 8) 1 else (0::int))"
    by (simp add: push_bit_eq_mult)
  ultimately have "f32_bits neg e f = ?b"
    by (simp only: f32_bits_def and_mask_numerals ef(2) [symmetric])
  then show ?thesis using fields by (simp add: getFloat32_def)
qed

lemma getFloat64_fields:
  assumes "0 \<le> e" "e < 2048" "0 \<le> f" "f < 2 ^ 52"
  shows "getFloat64 (f64_bits neg e f) = decode_float 53 1024 neg e f"
proof -
  have ef: "e = take_bit 11 e" "f = take_bit 52 f"
    using assms by (simp_all add: take_bit_int_eq_self)
  have "f64_bits neg e f = (if neg then push_bit (52 + 11) 1 else 0) OR push_bit 52 e OR f"
    by (simp add: f64_bits_def and_mask_numerals ef(2) [symmetric])
  from fields_bits [OF ef this] show ?thesis by (simp add: getFloat64_def)
qed

lemma round_half_even_div:
  assumes "0 \<le> n" "0 < d"
  shows "round_half_even (of_int n / of_int d) =
    (if 2 * (n mod d) > d \<or> (2 * (n mod d) = d \<and> odd (n div d)) then n div d + 1 else n div d)"
proof -
  have f: "\<lfloor>of_int n / (of_int d :: rat)\<rfloor> = n div d" by (simp add: floor_divide_of_int_eq)
  have "(of_int n :: rat) = of_int (n mod d) + of_int d * of_int (n div d)"
    by (metis mod_mult_div_eq of_int_add of_int_mult)
  then have r: "of_int n / of_int d - of_int (n div d) = (of_int (n mod d) / of_int d :: rat)"
    using assms(2) by (simp add: field_simps)
  have "(of_int (n mod d) / of_int d > (1 / 2 :: rat)) = (of_int d < (of_int (2 * (n mod d)) :: rat))"
    using assms(2) by (simp add: field_simps)
  moreover have "(of_int (n mod d) / of_int d = (1 / 2 :: rat)) = (of_int (2 * (n mod d)) = (of_int d :: rat))"
    using assms(2) by (simp add: field_simps) auto
  ultimately show ?thesis unfolding round_half_even_def Let_def f r
    by (simp only: of_int_less_iff of_int_eq_iff)
qed

lemma roundRatioEven_rounds:
  assumes "0 \<le> n" "0 < d"
  shows "roundRatioEven n d = round_half_even (of_int n / of_int d)"
proof -
  have q: "big_div n d = n div d" using assms by (cases "n = 0") (simp_all add: big_div_def)
  then have "big_rem n d = n mod d" by (simp add: big_rem_def minus_div_mult_eq_mod)
  with q show ?thesis
    unfolding round_half_even_div [OF assms] roundRatioEven_def Let_def by (auto simp: mult.commute)
qed

lemma roundShiftEven_rounds:
  assumes "0 \<le> v"
  shows "roundShiftEven v s = round_half_even (of_int v / 2 powi s)"
proof (cases "s \<le> 0")
  case True
  then have "(of_int v / 2 powi s :: rat) = of_int (v * 2 ^ nat (- s))"
    by (cases "s = 0") (simp_all add: two_powi_neg)
  then show ?thesis using True by (simp only: round_half_even_of_int) (simp add: roundShiftEven_def push_bit_eq_mult)
next
  case False
  obtain k where k: "nat s = Suc k" using False by (metis Suc_pred nat_0_iff neq0_conv not_le zero_less_nat_eq)
  have p: "(of_int v / 2 powi s :: rat) = of_int v / of_int (2 ^ Suc k)"
    using False k by (simp add: two_powi_nat)
  have r: "v - v div (2 * 2 ^ k) * (2 * 2 ^ k) = v mod (2 * 2 ^ k)" by (simp add: minus_div_mult_eq_mod)
  show ?thesis
    unfolding p using False assms round_half_even_div [OF assms, of "2 ^ Suc k"] k
    by (auto simp: roundShiftEven_def Let_def push_bit_eq_mult drop_bit_eq_div r)
qed

subsection \<open>Fields of a rounded value\<close>

lemma powi_split: "(2::rat) powi a = 2 ^ n * 2 powi (a - int n)"
  using two_powi_add [of "int n" "a - int n"] by (simp add: two_powi_nat)

lemma round_normal:
  assumes q: "0 < q" and p: "0 < p" and u: "u = rat_log2 q" and e: "emin \<le> u - (int p - 1)"
    and r: "r = round_half_even (q / 2 powi (u - (int p - 1)))"
  shows "2 ^ (p - 1) \<le> r" "r \<le> 2 ^ p" "round_to (int p) emin q = of_int r * 2 powi (u - (int p - 1))"
proof -
  let ?s = "u - (int p - 1)"
  note b = rat_log2_bounds [OF q, folded u]
  have s: "u - int (p - 1) = ?s" "u + 1 - int p = ?s" using p by (simp_all add: of_nat_diff)
  have lo: "(2::rat) powi u = 2 ^ (p - 1) * 2 powi ?s" using powi_split [of u "p - 1"] s by simp
  have hi: "(2::rat) powi (u + 1) = 2 ^ p * 2 powi ?s" using powi_split [of "u + 1" p] s by simp
  have "of_int (2 ^ (p - 1)) \<le> q / 2 powi ?s" using b(1) lo by (simp add: pos_le_divide_eq)
  then show "2 ^ (p - 1) \<le> r" unfolding r by (rule round_half_even_ge)
  have "q / 2 powi ?s \<le> of_int (2 ^ p)" using b(2) hi by (simp add: pos_divide_le_eq)
  then show "r \<le> 2 ^ p" unfolding r by (rule round_half_even_le)
  have "unit_exp (int p) emin q = ?s" using q e by (simp add: unit_exp_def u)
  then show "round_to (int p) emin q = of_int r * 2 powi ?s"
    using q by (simp add: round_to_def Let_def r)
qed

lemma nearest_normal:
  assumes q: "0 < q" and p: "0 < p" and u: "u = rat_log2 q" and e: "2 - emax \<le> u" and emax: "0 < emax"
    and r: "r = round_half_even (q / 2 powi (u - (int p - 1)))"
    and r': "(r', u') = (if r = 2 ^ p then (r div 2, u + 1) else (r, u))"
  shows "nearest (int p) (3 - emax - int p) emax neg q
       = (if u' > emax - 1 then decode_float p emax neg (2 * emax - 1) 0
          else decode_float p emax neg (u' + (emax - 1)) (r' - 2 ^ (p - 1)))"
    and "2 ^ (p - 1) \<le> r'" "r' < 2 ^ p" "1 \<le> u' + (emax - 1)"
proof -
  have "3 - emax - int p \<le> u - (int p - 1)" using e by simp
  note n = round_normal [OF q p u this r]
  obtain k where k: "p = Suc k" using p by (cases p) auto
  have v: "round_to (int p) (3 - emax - int p) q = of_int r' * 2 powi (u' - (int p - 1))"
    using n(3) r' two_powi_Suc [of "u - int k"] by (auto simp: k add_diff_eq [symmetric] split: if_splits) (simp add: algebra_simps)
  show b: "2 ^ (p - 1) \<le> r'" "r' < 2 ^ p" and u1: "1 \<le> u' + (emax - 1)"
    using n(1,2) r' e by (auto simp: k split: if_splits)
  have lo: "(2::rat) powi u' \<le> round_to (int p) (3 - emax - int p) q"
  proof -
    have "(2::rat) powi u' = 2 ^ (p - 1) * 2 powi (u' - (int p - 1))"
      using powi_split [of u' "p - 1"] p by (simp add: of_nat_diff)
    also have "\<dots> = of_int (2 ^ (p - 1)) * 2 powi (u' - (int p - 1))" by simp
    also have "\<dots> \<le> of_int r' * 2 powi (u' - (int p - 1))"
      using b(1) by (intro mult_right_mono) (simp_all only: of_int_le_iff powi_pos [THEN less_imp_le])
    finally show ?thesis by (simp only: v)
  qed
  have hi: "round_to (int p) (3 - emax - int p) q < 2 powi (u' + 1)"
  proof -
    have "(2::rat) powi (u' + 1) = 2 ^ p * 2 powi (u' - (int p - 1))"
      using powi_split [of "u' + 1" p] by (simp add: algebra_simps)
    also have "\<dots> = of_int (2 ^ p) * 2 powi (u' - (int p - 1))" by simp
    also have "\<dots> > of_int r' * 2 powi (u' - (int p - 1))"
      using b(2) by (intro mult_strict_right_mono) (simp_all only: of_int_less_iff powi_pos)
    finally show ?thesis by (simp only: v)
  qed
  show "nearest (int p) (3 - emax - int p) emax neg q
       = (if u' > emax - 1 then decode_float p emax neg (2 * emax - 1) 0
          else decode_float p emax neg (u' + (emax - 1)) (r' - 2 ^ (p - 1)))"
  proof (cases "u' > emax - 1")
    case True
    then have "(2::rat) powi emax \<le> 2 powi u'" by (intro two_powi_mono) simp
    with lo True show ?thesis by (simp add: nearest_def decode_float_def Let_def)
  next
    case False
    then have "(2::rat) powi (u' + 1) \<le> 2 powi emax" by (intro two_powi_mono) simp
    with hi have "round_to (int p) (3 - emax - int p) q < 2 powi emax" by simp
    then have "nearest (int p) (3 - emax - int p) emax neg q = Finite neg (of_int r' * 2 powi (u' - (int p - 1)))"
      by (simp add: nearest_def Let_def v)
    also have "\<dots> = decode_float p emax neg (u' + (emax - 1)) (r' - 2 ^ (p - 1))"
      using False u1 by (simp add: decode_float_def algebra_simps)
    finally show ?thesis using False by simp
  qed
qed

lemma nearest_subnormal:
  assumes q: "0 < q" and p: "0 < p" and u: "rat_log2 q < 2 - emax" and emax: "1 < emax"
    and r: "r = round_half_even (q / 2 powi (3 - emax - int p))"
  shows "nearest (int p) (3 - emax - int p) emax neg q
       = (if r \<ge> 2 ^ (p - 1) then decode_float p emax neg 1 (r - 2 ^ (p - 1)) else decode_float p emax neg 0 r)"
    and "0 \<le> r" "r \<le> 2 ^ (p - 1)"
proof -
  let ?s = "3 - emax - int p"
  have v: "round_to (int p) ?s q = of_int r * 2 powi ?s"
    using q u by (simp add: round_to_def unit_exp_def Let_def r max_def)
  have "q < 2 powi (rat_log2 q + 1)" by (rule rat_log2_bounds [OF q])
  also have "\<dots> \<le> 2 powi (2 - emax)" using u by (intro two_powi_mono) simp
  also have "\<dots> = 2 ^ (p - 1) * 2 powi ?s"
    using powi_split [of "2 - emax" "p - 1"] p by (simp add: of_nat_diff algebra_simps)
  finally have "q / 2 powi ?s \<le> of_int (2 ^ (p - 1))" by (simp add: pos_divide_le_eq)
  then show hi: "r \<le> 2 ^ (p - 1)" unfolding r by (rule round_half_even_le)
  have "of_int 0 \<le> q / 2 powi ?s" using q by simp
  then show "0 \<le> r" unfolding r by (rule round_half_even_ge)
  have "of_int r * 2 powi ?s \<le> of_int (2 ^ (p - 1)) * (2::rat) powi ?s"
    using hi by (intro mult_right_mono) (simp_all only: of_int_le_iff powi_pos [THEN less_imp_le])
  also have "\<dots> = 2 powi (2 - emax)"
    using powi_split [of "2 - emax" "p - 1"] p by (simp add: of_nat_diff algebra_simps)
  also have "\<dots> < 2 powi emax" using emax by (simp only: two_powi_less_iff)
  finally have "nearest (int p) ?s emax neg q = Finite neg (of_int r * 2 powi ?s)"
    by (simp add: nearest_def Let_def v)
  then show "nearest (int p) ?s emax neg q
       = (if r \<ge> 2 ^ (p - 1) then decode_float p emax neg 1 (r - 2 ^ (p - 1)) else decode_float p emax neg 0 r)"
    using emax hi by (simp add: decode_float_def)
qed

subsection \<open>The two encoders round correctly\<close>

lemma unbiased_log2:
  assumes "0 < n" "0 < d"
  shows "(let u = binary_length n - binary_length d
          in if (if u \<ge> 0 then n < push_bit (nat u) d else push_bit (nat (- u)) n < d)
             then u - 1 else u) = rat_log2 (of_int n / of_int d)"
proof -
  obtain a b where ab: "n = int a" "d = int b" "0 < a" "0 < b"
    using assms by (metis of_nat_0_less_iff zero_less_imp_eq_int)
  have "int b * 2 ^ k = int (b * 2 ^ k)" "int a * 2 ^ k = int (a * 2 ^ k)" for k by simp_all
  then have "n < d * 2 ^ k \<longleftrightarrow> a < b * 2 ^ k" "n * 2 ^ k < d \<longleftrightarrow> a * 2 ^ k < b" for k
    unfolding ab by (simp_all only: of_nat_less_iff)
  then have "(let u = binary_length n - binary_length d
          in if (if u \<ge> 0 then n < push_bit (nat u) d else push_bit (nat (- u)) n < d)
             then u - 1 else u) = ratio_log2 a b"
    unfolding ratio_log2_def binary_length_def push_bit_eq_mult Let_def by (simp add: ab)
  also have "\<dots> = rat_log2 (of_int n / of_int d)"
    using ratio_log2_bounds [OF ab(3,4)] by (intro rat_log2_unique [symmetric]) (simp_all add: ab)
  finally show ?thesis .
qed

lemma roundRatioEven_scaled:
  assumes "0 < n" "0 < d"
  shows "(if s \<ge> 0 then roundRatioEven (push_bit (nat s) n) d else roundRatioEven n (push_bit (nat (- s)) d))
       = round_half_even (of_int n / of_int d / 2 powi (- s))"
proof (cases "s \<ge> 0")
  case True
  have "of_int (push_bit (nat s) n) / of_int d = (of_int n / of_int d / 2 powi (- s) :: rat)"
    using True by (simp add: push_bit_eq_mult power_int_minus two_powi_nat field_simps)
  moreover have "0 \<le> push_bit (nat s) n" using assms by (simp add: push_bit_eq_mult)
  ultimately show ?thesis using True roundRatioEven_rounds assms(2) by simp
next
  case False
  have "of_int n / of_int (push_bit (nat (- s)) d) = (of_int n / of_int d / 2 powi (- s) :: rat)"
    using False by (simp add: push_bit_eq_mult two_powi_nat)
  moreover have "0 < push_bit (nat (- s)) d" using assms by (simp add: push_bit_eq_mult)
  ultimately show ?thesis using False roundRatioEven_rounds [of n] assms(1) by simp
qed

lemma encode_ratio_f32_nearest:
  assumes "0 < n" "0 < d"
  shows "encode_ratio_f32 neg n d = nearest_f32 neg (of_int n / of_int d)"
proof -
  let ?q = "of_int n / of_int d :: rat"
  define u where "u = rat_log2 ?q"
  have q: "0 < ?q" using assms by simp
  have lo: "-126 \<le> u \<longleftrightarrow> 2 - 128 \<le> u" by simp
  show ?thesis
  proof (cases "-126 \<le> u")
    case True
    define r where "r = round_half_even (?q / 2 powi (u - (int 24 - 1)))"
    obtain r' u' where r': "(r', u') = (if r = 2 ^ 24 then (r div 2, u + 1) else (r, u))"
      by (metis surj_pair)
    note n = nearest_normal [OF q _ u_def _ _ r_def r', where emax = 128]
    have code: "encode_ratio_f32 neg n d
        = (if u' > 127 then getFloat32 (f32_bits neg 0xff 0)
           else getFloat32 (f32_bits neg (u' + 127) (r' - 2 ^ 23)))"
      unfolding encode_ratio_f32_def unbiased_log2 [OF assms, unfolded Let_def] Let_def u_def [symmetric]
        roundRatioEven_scaled [OF assms]
      using True r' by (auto simp: r_def drop_bit_eq_div split: if_splits)
    have "getFloat32 (f32_bits neg 0xff 0) = decode_float 24 128 neg 255 0"
      by (rule getFloat32_fields) simp_all
    moreover have "\<not> u' > 127 \<Longrightarrow> getFloat32 (f32_bits neg (u' + 127) (r' - 2 ^ 23))
        = decode_float 24 128 neg (u' + 127) (r' - 2 ^ 23)"
      using n(2-4) True by (intro getFloat32_fields) simp_all
    ultimately show ?thesis
      using n(1) True code by (simp add: nearest_f32_def)
  next
    case False
    define r where "r = round_half_even (?q / 2 powi (3 - 128 - int 24))"
    note n = nearest_subnormal [OF q _ _ _ r_def]
    have r: "roundRatioEven (push_bit 149 n) d = r"
      using roundRatioEven_scaled [OF assms, of 149] by (simp add: r_def)
    have code: "encode_ratio_f32 neg n d
        = (if r \<ge> 2 ^ 23 then getFloat32 (f32_bits neg 1 (r - 2 ^ 23)) else getFloat32 (f32_bits neg 0 r))"
      unfolding encode_ratio_f32_def unbiased_log2 [OF assms, unfolded Let_def] Let_def u_def [symmetric] r
      using False by simp
    have "getFloat32 (f32_bits neg 1 (r - 2 ^ 23)) = decode_float 24 128 neg 1 (r - 2 ^ 23)" if "r \<ge> 2 ^ 23"
      using n(3) that False by (intro getFloat32_fields) (simp_all add: u_def)
    moreover have "getFloat32 (f32_bits neg 0 r) = decode_float 24 128 neg 0 r" if "\<not> r \<ge> 2 ^ 23"
      using n(2) that False by (intro getFloat32_fields) (simp_all add: u_def)
    ultimately show ?thesis
      using n(1) False code by (simp add: nearest_f32_def u_def)
  qed
qed

lemma bigint_of_rat_of_int [simp]: "bigint_of_rat (of_int k) = Inr k"
  by (simp add: bigint_of_rat_def)

definition nearest_float :: "bool \<Rightarrow> bool \<Rightarrow> rat \<Rightarrow> number" where
  "nearest_float asF32 = (if asF32 then nearest_f32 else nearest_f64)"

lemma hex_result_fields:
  assumes "0 \<le> e" "e < (if asF32 then 256 else 2048)" "0 \<le> f" "f < 2 ^ (if asF32 then 23 else 52)"
  shows "hex_result asF32 neg (of_int e) f
       = Inr (decode_float (if asF32 then 24 else 53) (if asF32 then 128 else 1024) neg e f)"
proof -
  have "to_int32 (of_int e) = e" if asF32
    using assms that by (intro to_int32_of_int) simp_all
  then show ?thesis using assms by (auto simp: hex_result_def getFloat32_fields getFloat64_fields)
qed

lemma rat_log2_scaled:
  assumes "0 < m"
  shows "rat_log2 (of_int m * 2 powi z) = binary_length m - 1 + z"
proof (rule rat_log2_unique)
  have m: "0 < nat m" and n: "(of_int m :: rat) = of_nat (nat m)" using assms by simp_all
  have l: "binary_length m = int (bit_len (nat m))" using assms by (simp add: binary_length_def)
  note b = bit_len_bounds_rat [OF m]
  show "2 powi (binary_length m - 1 + z) \<le> (of_int m * 2 powi z :: rat)"
    unfolding two_powi_add n l using b(1) by (intro mult_right_mono) simp_all
  have "(2::rat) powi (binary_length m - 1 + z + 1) = 2 powi int (bit_len (nat m)) * 2 powi z"
    by (simp only: two_powi_add [symmetric]) (simp add: l)
  then show "of_int m * 2 powi z < (2 powi (binary_length m - 1 + z + 1) :: rat)"
    unfolding n using b(2) by simp
qed

definition float_precision :: "bool \<Rightarrow> nat" where
  "float_precision asF32 = (if asF32 then 24 else 53)"

definition float_emax :: "bool \<Rightarrow> int" where
  "float_emax asF32 = (if asF32 then 128 else 1024)"

lemma hex_fields_eq:
  assumes "p = float_precision asF32" and "emax = float_emax asF32"
  shows "hex_fields asF32 m scale =
    (let bl = binary_length m; unbiased = js_add (of_int (bl - 1)) scale
     in if unbiased \<ge> of_int (2 - emax) then
          let r = roundShiftEven m (bl - int p);
              (rounded, unbiased) = (if r = 2 ^ p then (r div 2, js_add unbiased 1) else (r, unbiased))
          in Inr (if unbiased > of_int (emax - 1) then (of_int (2 * emax - 1), 0)
                  else (js_add unbiased (of_int (emax - 1)), rounded - 2 ^ (p - 1)))
        else bind_c (bigint_of_rat (js_sub scale (of_int (3 - emax - int p)))) (\<lambda>us.
          let units = (if us \<ge> 0 then push_bit (nat us) m else roundShiftEven m (- us))
          in Inr (if units \<ge> 2 ^ (p - 1) then (of_int 1, units - 2 ^ (p - 1)) else (of_int 0, units))))"
  by (cases asF32) (simp_all add: hex_fields_def assms float_precision_def float_emax_def Let_def drop_bit_eq_div
      cong: if_cong)

lemma hex_result_decode:
  assumes "p = float_precision asF32" and "emax = float_emax asF32"
    and "0 \<le> e" "e < 2 * emax" "0 \<le> f" "f < 2 ^ (p - 1)"
  shows "hex_result asF32 neg (of_int e) f = Inr (decode_float p emax neg e f)"
  using hex_result_fields [of e asF32 f neg] assms
  by (cases asF32) (simp_all add: float_precision_def float_emax_def)

lemma nearest_float_eq:
  "nearest_float asF32 = nearest (int (float_precision asF32))
     (3 - float_emax asF32 - int (float_precision asF32)) (float_emax asF32)"
  by (simp add: nearest_float_def nearest_f32_def nearest_f64_def float_precision_def float_emax_def)

lemma scaled_shift: "of_int m / 2 powi s = (of_int m * 2 powi z / 2 powi (s + z) :: rat)"
  by (simp add: two_powi_add)

lemma shift_units:
  "(if us \<ge> 0 then push_bit (nat us) m else roundShiftEven m (- us)) = roundShiftEven m (- us)"
  by (simp add: roundShiftEven_def)

lemma hex_unbiased:
  assumes m: "0 < m" and z: "\<bar>z\<bar> + binary_length m < 2 ^ 52" and u: "u = binary_length m - 1 + z"
  shows "js_add (of_int (binary_length m - 1)) (of_int z) = of_int u" "\<bar>u\<bar> < 2 ^ 52"
proof -
  have "1 \<le> binary_length m" using m by (simp add: binary_length_def Suc_leI)
  then have "\<bar>u\<bar> \<le> \<bar>z\<bar> + binary_length m" unfolding u by linarith
  with z show b: "\<bar>u\<bar> < 2 ^ 52" by (rule le_less_trans [rotated])
  then show "js_add (of_int (binary_length m - 1)) (of_int z) = of_int u"
    using js_add_int [of "binary_length m - 1" z] unfolding u by simp
qed

lemma hex_nearest_normal:
  assumes m: "0 < m" and z: "\<bar>z\<bar> + binary_length m < 2 ^ 52"
    and u: "u = binary_length m - 1 + z" and normal: "2 - float_emax asF32 \<le> u"
  shows "bind_c (hex_fields asF32 m (of_int z)) (\<lambda>(e, f). hex_result asF32 neg e f)
       = Inr (nearest_float asF32 neg (of_int m * 2 powi z))"
proof -
  let ?q = "of_int m * 2 powi z :: rat"
  define p where "p = float_precision asF32"
  define emax where "emax = float_emax asF32"
  have q: "0 < ?q" and p0: "0 < p" and em: "1 < emax" and small: "emax < 2 ^ 52"
    using m by (simp_all add: p_def emax_def float_precision_def float_emax_def)
  have u': "u = rat_log2 ?q" by (simp add: u rat_log2_scaled [OF m])
  define r where "r = round_half_even (?q / 2 powi (u - (int p - 1)))"
  obtain r' w where w: "(r', w) = (if r = 2 ^ p then (r div 2, u + 1) else (r, u))"
    by (metis surj_pair)
  note n = nearest_normal [OF q p0 u' normal [folded emax_def] _ r_def w]
  have "binary_length m - int p + z = u - (int p - 1)" by (simp add: u)
  then have r: "roundShiftEven m (binary_length m - int p) = r"
    using roundShiftEven_rounds [of m "binary_length m - int p"] m
    by (simp only: r_def scaled_shift [of m _ z] less_imp_le)
  note b = hex_unbiased [OF m z u]
  have "w = u \<or> w = u + 1" using w by (auto split: if_splits)
  then have "\<bar>u + 1\<bar> < 2 ^ 53" "\<bar>w + (emax - 1)\<bar> < 2 ^ 53" using b(2) em small by auto
  then have adds: "js_add (of_int u) 1 = of_int (u + 1)" "js_add (of_int w) (of_int (emax - 1)) = of_int (w + (emax - 1))"
    using js_add_int [of u 1] js_add_int [of w "emax - 1"] by simp_all
  have code: "hex_fields asF32 m (of_int z) = Inr (if w > emax - 1 then (of_int (2 * emax - 1), 0)
        else (of_int (w + (emax - 1)), r' - 2 ^ (p - 1)))"
    unfolding hex_fields_eq [OF p_def emax_def] Let_def b(1) r of_int_le_iff
    using normal w adds
    by (auto simp: emax_def [symmetric] simp del: of_int_add of_int_diff split: if_splits)
       (simp add: algebra_simps)
  have "2 ^ p = 2 * (2::int) ^ (p - 1)" using p0 by (cases p) simp_all
  then show ?thesis
    using n em hex_result_decode [OF p_def emax_def, of "2 * emax - 1" 0 neg]
      hex_result_decode [OF p_def emax_def, of "w + (emax - 1)" "r' - 2 ^ (p - 1)" neg]
    unfolding code nearest_float_eq p_def [symmetric] emax_def [symmetric] by (auto simp del: of_int_add of_int_diff)
qed

lemma hex_nearest_subnormal:
  assumes m: "0 < m" and z: "\<bar>z\<bar> + binary_length m < 2 ^ 52"
    and u: "u = binary_length m - 1 + z" and sub: "u < 2 - float_emax asF32"
  shows "bind_c (hex_fields asF32 m (of_int z)) (\<lambda>(e, f). hex_result asF32 neg e f)
       = Inr (nearest_float asF32 neg (of_int m * 2 powi z))"
proof -
  let ?q = "of_int m * 2 powi z :: rat"
  define p where "p = float_precision asF32"
  define emax where "emax = float_emax asF32"
  let ?emin = "3 - emax - int p" and ?us = "z - (3 - emax - int p)"
  have q: "0 < ?q" and p0: "0 < p" and em: "1 < emax" and small: "\<bar>?emin\<bar> < 2 ^ 52"
    using m by (simp_all add: p_def emax_def float_precision_def float_emax_def)
  define r where "r = round_half_even (?q / 2 powi ?emin)"
  have "rat_log2 ?q < 2 - emax" using sub by (simp add: rat_log2_scaled [OF m] u emax_def)
  note n = nearest_subnormal [OF q p0 this em r_def]
  note b = hex_unbiased [OF m z u]
  have "\<bar>z\<bar> < 2 ^ 52" using z by (simp add: binary_length_def split: if_splits)
  then have "\<bar>?us\<bar> < 2 ^ 53" using small by simp
  then have "js_sub (of_int z) (of_int ?emin) = of_int ?us" by (rule js_sub_int)
  moreover have "(if ?us \<ge> 0 then push_bit (nat ?us) m else roundShiftEven m (- ?us)) = r"
    using roundShiftEven_rounds [of m "- ?us"] m scaled_shift [of m "- ?us" z]
    unfolding shift_units by (simp add: r_def)
  ultimately have code: "hex_fields asF32 m (of_int z) =
      Inr (if r \<ge> 2 ^ (p - 1) then (of_int 1, r - 2 ^ (p - 1)) else (of_int 0, r))"
    unfolding hex_fields_eq [OF p_def emax_def] Let_def b(1) of_int_le_iff
    using sub by (simp add: emax_def [symmetric] del: of_int_diff of_int_1 of_int_0)
  show ?thesis
    using n em hex_result_decode [OF p_def emax_def, of 1 "r - 2 ^ (p - 1)" neg]
      hex_result_decode [OF p_def emax_def, of 0 r neg]
    unfolding code nearest_float_eq p_def [symmetric] emax_def [symmetric]
    by (auto simp del: of_int_1 of_int_0)
qed

lemma hex_nearest:
  assumes "0 < m" and "\<bar>z\<bar> + binary_length m < 2 ^ 52"
  shows "bind_c (hex_fields asF32 m (of_int z)) (\<lambda>(e, f). hex_result asF32 neg e f)
       = Inr (nearest_float asF32 neg (of_int m * 2 powi z))"
  using hex_nearest_normal [OF assms refl] hex_nearest_subnormal [OF assms refl]
  by (cases "2 - float_emax asF32 \<le> binary_length m - 1 + z") auto

end
