(* ===== verification/Wat_Literal.thy ===== *)
theory Wat_Literal
  imports Wat_Float
begin

text \<open>
  The text of float literals, as a specification for \<open>watFloat\<close>: a literal is an optional sign,
  digits in base 10 or (after \<open>0x\<close>) 16, an optional fraction and an optional exponent, with
  its exact rational value. \<open>watFloat\<close> maps the text of every literal to the correctly rounded
  binary32 or binary64 value. The digit count and the exponent are bounded by \<open>2 ^ 40\<close>, so that
  the exponent arithmetic on Numbers is exact.
\<close>

subsection \<open>The text and the value of a literal\<close>

record literal =
  lit_sign :: "nat list"
  lit_hex :: bool
  lit_x :: nat
  lit_whole :: "nat list"
  lit_frac :: "nat list option"
  lit_exp :: "(nat \<times> nat list \<times> nat list) option"

definition opt_part :: "nat \<Rightarrow> nat list option \<Rightarrow> nat list" where
  "opt_part x r = (case r of None \<Rightarrow> [] | Some ys \<Rightarrow> x # ys)"

definition frac_digits :: "literal \<Rightarrow> nat list" where
  "frac_digits l = (case lit_frac l of None \<Rightarrow> [] | Some fs \<Rightarrow> fs)"

definition frac_text :: "literal \<Rightarrow> nat list" where
  "frac_text l = opt_part 46 (lit_frac l)"

definition exp_text :: "literal \<Rightarrow> nat list" where
  "exp_text l = (case lit_exp l of None \<Rightarrow> [] | Some (mark, sg, ds) \<Rightarrow> mark # sg @ ds)"

definition exp_value :: "literal \<Rightarrow> int" where
  "exp_value l = (case lit_exp l of None \<Rightarrow> 0
     | Some (_, sg, ds) \<Rightarrow> (if sg = [45] then -1 else 1) * int (digits_value 10 ds))"

definition literal_body :: "literal \<Rightarrow> nat list" where
  "literal_body l = (if lit_hex l then [48, lit_x l] else []) @ lit_whole l @ frac_text l @ exp_text l"

definition literal_text :: "literal \<Rightarrow> nat list" where
  "literal_text l = lit_sign l @ literal_body l"

definition literal_value :: "literal \<Rightarrow> rat" where
  "literal_value l =
     (if lit_hex l
      then of_nat (digits_value 16 (lit_whole l @ frac_digits l)) * 2 powi (exp_value l - 4 * int (length (frac_digits l)))
      else of_nat (digits_value 10 (lit_whole l @ frac_digits l)) * 10 powi (exp_value l - int (length (frac_digits l))))"

definition sign_ok :: "nat list \<Rightarrow> bool" where
  "sign_ok sg \<longleftrightarrow> sg \<in> {[], [43], [45]}"

definition literal_ok :: "literal \<Rightarrow> bool" where
  "literal_ok l \<longleftrightarrow>
     sign_ok (lit_sign l) \<and> lit_x l \<in> {120, 88} \<and> lit_whole l \<noteq> [] \<and>
     all_digits (if lit_hex l then 16 else 10) (lit_whole l @ frac_digits l) \<and>
     length (lit_whole l @ frac_digits l) < 2 ^ 40 \<and>
     (case lit_exp l of None \<Rightarrow> True
      | Some (mark, sg, ds) \<Rightarrow>
          mark \<in> (if lit_hex l then {112, 80} else {101, 69}) \<and> sign_ok sg \<and> ds \<noteq> [] \<and>
          all_digits 10 ds \<and> digits_value 10 ds < 2 ^ 40)"

subsection \<open>Characters\<close>

lemma digit_value_10: "digit_value c < 10 \<longleftrightarrow> is_digit c"
  by (auto simp: digit_value_def is_digit_def)

lemma digit_value_to_lower [simp]: "digit_value (to_lower c) = digit_value c"
  by (auto simp: digit_value_def to_lower_def)

lemma digits_value_to_lower [simp]: "digits_value b (map to_lower cs) = digits_value b cs"
  by (simp add: digits_value_def foldl_map)

lemma all_digits_to_lower [simp]: "all_digits b (map to_lower cs) = all_digits b cs"
  by (simp add: all_digits_def list_all_iff)

lemma all_digits_append [simp]: "all_digits b (xs @ ys) \<longleftrightarrow> all_digits b xs \<and> all_digits b ys"
  by (simp add: all_digits_def)

lemma to_lower_digits: "all_digits 10 cs \<Longrightarrow> map to_lower cs = cs"
  by (induction cs) (auto simp: all_digits_def digit_value_def to_lower_def split: if_splits)

lemma lower_digit_chars:
  assumes "all_digits 16 cs" and "c \<in> set (map to_lower cs)"
  shows "48 \<le> c \<and> c \<le> 57 \<or> 97 \<le> c \<and> c \<le> 102"
proof -
  obtain d where d: "d \<in> set cs" "c = to_lower d" using assms(2) by auto
  then have "digit_value d < 16" using assms(1) by (simp add: all_digits_def list_all_iff)
  then show ?thesis unfolding d(2)
    by (cases "48 \<le> d \<and> d \<le> 57"; cases "97 \<le> d \<and> d \<le> 122"; cases "65 \<le> d \<and> d \<le> 90")
      (simp_all add: digit_value_def to_lower_def)
qed

lemma decimal_chars: "all_digits 10 cs \<Longrightarrow> c \<in> set cs \<Longrightarrow> 48 \<le> c \<and> c \<le> 57"
  using digit_value_10 by (auto simp: all_digits_def list_all_iff is_digit_def)

lemma digits_are: "all_digits 10 cs \<Longrightarrow> c \<in> set cs \<Longrightarrow> is_digit c"
  using digit_value_10 by (auto simp: all_digits_def list_all_iff)

lemma decimal_is_hex: "all_digits 10 cs \<Longrightarrow> all_digits 16 cs"
  by (auto simp: all_digits_def list_all_iff)

lemma js_trim_id:
  assumes "cs \<noteq> []" and "\<not> is_space (hd cs)" and "\<not> is_space (last cs)"
  shows "js_trim cs = cs"
proof -
  have "dropWhile is_space cs = cs" using assms(1,2) by (cases cs) auto
  moreover have "dropWhile is_space (rev cs) = rev cs"
    using assms(1,3) by (metis dropWhile_eq_self_iff hd_rev)
  ultimately show ?thesis by (simp add: js_trim_def)
qed

lemma graphic_not_space: "33 \<le> c \<Longrightarrow> c < 128 \<Longrightarrow> \<not> is_space c"
  by (auto simp: is_space_def)

subsection \<open>Scanning\<close>

lemma digit_not_space: "is_digit c \<Longrightarrow> \<not> is_space c"
  by (simp add: is_digit_def graphic_not_space)

lemma index_of_append: "x \<notin> set xs \<Longrightarrow> index_of x (xs @ x # ys) = Some (length xs)"
  by (induction xs) auto

lemma index_of_None: "x \<notin> set xs \<Longrightarrow> index_of x xs = None"
  by (induction xs) auto

lemma scan_part:
  assumes "x \<notin> set xs"
  shows "index_of x (xs @ opt_part x r) = map_option (\<lambda>_. length xs) r"
  using assms by (cases r) (simp_all add: opt_part_def index_of_append index_of_None)

lemma scan_point:
  assumes "46 \<notin> set ws" and "sig = ws @ opt_part 46 r"
  shows "(case index_of 46 sig of None \<Rightarrow> 0 | Some i \<Rightarrow> length sig - i - 1)
           = length (case r of None \<Rightarrow> [] | Some fs \<Rightarrow> fs)"
    and "remove1 46 sig = ws @ (case r of None \<Rightarrow> [] | Some fs \<Rightarrow> fs)"
  using assms scan_part [of 46 ws r]
  by (auto simp: opt_part_def remove1_append remove1_idem split: option.split)


lemma takeWhile_digits:
  assumes "all_digits 10 ws" and "\<And>c r. rest = c # r \<Longrightarrow> \<not> is_digit c"
  shows "takeWhile is_digit (ws @ rest) = ws" and "dropWhile is_digit (ws @ rest) = rest"
proof -
  note digits_are [OF assms(1)]
  then show "takeWhile is_digit (ws @ rest) = ws" "dropWhile is_digit (ws @ rest) = rest"
    using assms(2) by (cases rest; simp add: takeWhile_append2 dropWhile_append2)+
qed

lemma exponent_value_text:
  assumes "sign_ok sg" "ds \<noteq> []" "all_digits 10 ds"
  shows "exponent_value (sg @ ds) = Some ((if sg = [45] then -1 else 1) * int (digits_value 10 ds))"
proof -
  have "list_all is_digit ds" using assms(3) digit_value_10 by (auto simp: all_digits_def list_all_iff)
  moreover have "hd ds \<noteq> 45" "hd ds \<noteq> 43" using assms(2,3) decimal_chars [of ds "hd ds"] by auto
  ultimately show ?thesis using assms(1,2)
    by (cases ds) (auto simp: exponent_value_def sign_ok_def)
qed

lemma js_decimal_text:
  assumes "ws \<noteq> []" "all_digits 10 ws" "all_digits 10 (case fr of None \<Rightarrow> [] | Some fs \<Rightarrow> fs)"
    and "mark = 101 \<or> mark = 69" and "\<And>es. r = Some es \<Longrightarrow> exponent_value es = Some ev"
    and "r = None \<Longrightarrow> ev = 0"
  shows "js_decimal (ws @ opt_part 46 fr @ opt_part mark r)
       = (let fs = (case fr of None \<Rightarrow> [] | Some fs \<Rightarrow> fs)
          in Some (of_nat (digits_value 10 (ws @ fs)) * 10 powi (ev - int (length fs))))"
proof -
  have nd: "\<not> is_digit mark" "\<not> is_digit 46" "mark \<noteq> 46"
    using assms(4) by (auto simp: is_digit_def)
  have h: "opt_part mark r = c # q \<Longrightarrow> \<not> is_digit c" "opt_part 46 fr @ opt_part mark r = c # q \<Longrightarrow> \<not> is_digit c" for c q
    using nd by (auto simp: opt_part_def split: option.splits)
  have t: "takeWhile is_digit (fs @ opt_part mark r) = fs" "dropWhile is_digit (fs @ opt_part mark r) = opt_part mark r"
    if "all_digits 10 fs" for fs
    by (rule takeWhile_digits, rule that, erule h(1))+
  have w: "takeWhile is_digit (ws @ opt_part 46 fr @ opt_part mark r) = ws"
    "dropWhile is_digit (ws @ opt_part 46 fr @ opt_part mark r) = opt_part 46 fr @ opt_part mark r"
    by (rule takeWhile_digits, rule assms(2), erule h(2))+
  have pp: "10 powi - int n * 10 powi e = (10 powi (e - int n) :: rat)" for n e
    by (simp add: power_int_diff power_int_minus field_simps)
  have pn: "x / 10 ^ n = x * 10 powi (- int n)" for x :: rat and n
    by (simp add: power_int_minus field_simps)
  show ?thesis
  proof (cases fr)
    case None
    show ?thesis unfolding js_decimal_def w Let_def using assms(1,4,5,6) nd None
      by (cases r) (auto simp: opt_part_def)
  next
    case (Some fs)
    have fs: "all_digits 10 fs" using assms(3) Some by simp
    have c: "opt_part 46 fr @ opt_part mark r = 46 # fs @ opt_part mark r"
      by (simp add: Some opt_part_def)
    show ?thesis
      unfolding js_decimal_def c w [unfolded c] Let_def list.case simp_thms if_True t [OF fs]
      using assms(1,4,5,6) Some by (cases r) (auto simp: opt_part_def pp pn)
  qed
qed


lemma to_number_signed:
  assumes "sign_ok sg" "u \<noteq> []" "is_digit (hd u)" "\<not> is_space (last u)" "radix_prefix u = None"
  shows "to_number (sg @ u) = (case js_decimal u of Some q \<Rightarrow> nearest_f64 (sg = [45]) q | None \<Rightarrow> NaN)"
proof -
  note nd = digit_not_space
  have "js_trim (sg @ u) = sg @ u"
    using assms(1,2,4) nd [OF assms(3)]
    by (intro js_trim_id) (auto simp: sign_ok_def graphic_not_space)
  moreover have "u \<noteq> infinity_text" "hd u \<noteq> 45" "hd u \<noteq> 43"
    using assms(3) by (auto simp: infinity_text_def is_digit_def)
  ultimately show ?thesis
    using assms(1,2,5) by (cases u) (auto simp: to_number_def sign_ok_def radix_prefix_def split: list.splits cong: option.case_cong)
qed

lemma radix_prefix_decimal:
  assumes "ws \<noteq> []" "all_digits 10 ws" and "\<And>c r. rest = c # r \<Longrightarrow> c \<in> {46, 101, 69}"
  shows "radix_prefix (ws @ rest) = None"
proof -
  have "x \<notin> {120, 88, 111, 79, 98, 66}" if "ws @ rest = z # x # zs" for z x zs
  proof -
    have "x \<in> set ws \<or> x \<in> {46, 101, 69}"
      using that assms(1,3) by (cases ws; cases "tl ws") auto
    then show ?thesis using decimal_chars [OF assms(2), of x] by auto
  qed
  then show ?thesis by (auto simp: radix_prefix_def split: list.split)
qed

lemma to_number_exponent:
  assumes "sign_ok sg" "ds \<noteq> []" "all_digits 10 ds" "digits_value 10 ds < 2 ^ 40"
  shows "to_number (sg @ ds) = Finite (sg = [45]) (of_nat (digits_value 10 ds))"
proof -
  note dg = digits_are [OF assms(3)]
  have "radix_prefix ds = None" using radix_prefix_decimal [OF assms(2,3), of "[]"] by simp
  moreover have "js_decimal ds = Some (of_nat (digits_value 10 ds))"
    using js_decimal_text [of ds None 101 None 0] assms(2,3)
    by (simp add: opt_part_def all_digits_def)
  moreover have "(of_nat (digits_value 10 ds) :: rat) < of_nat (2 ^ 40)"
    using assms(4) by (simp only: of_nat_less_iff)
  then have "(of_nat (digits_value 10 ds) :: rat) < 9007199254740992" by simp
  then have "nearest_f64 (sg = [45]) (of_nat (digits_value 10 ds))
      = Finite (sg = [45]) (js_round (of_nat (digits_value 10 ds)))"
    by (simp add: nearest_f64_code)
  moreover have "js_round (of_nat (digits_value 10 ds)) = of_nat (digits_value 10 ds)"
    using js_round_of_int_small [of "int (digits_value 10 ds)"] assms(4) by simp
  ultimately show ?thesis
    using to_number_signed [OF assms(1,2)] dg [of "hd ds"] dg [of "last ds"] assms(2)
    by (simp add: digit_not_space)
qed

lemma bigint_of_decimal:
  assumes "ds \<noteq> []" "all_digits 10 ds"
  shows "bigint_of_text ds = Inr (int (digits_value 10 ds))"
proof -
  note dg = digits_are [OF assms(2)]
  have nd: "\<not> is_space c" if "c \<in> set ds" for c
    using dg [OF that] by (simp add: is_digit_def graphic_not_space)
  have "js_trim ds = ds" using nd assms(1) by (intro js_trim_id) auto
  moreover have "strip_sign ds = (False, ds)"
    using dg [of "hd ds"] assms(1) by (cases ds) (auto simp: strip_sign_def is_digit_def)
  moreover have "list_all is_digit ds" using dg by (simp add: list_all_iff)
  moreover have "radix_prefix ds = None" using radix_prefix_decimal [OF assms(1,2), of "[]"] by simp
  ultimately show ?thesis using assms(1) by (simp add: bigint_of_text_def)
qed

lemma bigint_of_hex:
  assumes "ds \<noteq> []" "all_digits 16 (ds :: nat list)" "\<And>c. c \<in> set ds \<Longrightarrow> 33 \<le> c \<and> c < 128"
  shows "bigint_of_text ([48, 120] @ ds) = Inr (int (digits_value 16 ds))"
proof -
  have "js_trim ([48, 120] @ ds) = [48, 120] @ ds"
    using assms(1) assms(3) [of "last ds"] by (intro js_trim_id) (auto simp: graphic_not_space)
  then show ?thesis using assms(1,2) by (simp add: bigint_of_text_def radix_prefix_def)
qed

lemma digits_value_append:
  "digits_value b (xs @ [c]) = digits_value b xs * b + digit_value c"
  by (simp add: digits_value_def)

lemma digits_value_bound: "all_digits b cs \<Longrightarrow> 0 < b \<Longrightarrow> digits_value b cs < b ^ length cs"
proof (induction cs rule: rev_induct)
  case (snoc c cs)
  then have "digits_value b cs < b ^ length cs" "digit_value c < b"
    by (auto simp: all_digits_def)
  then have "digits_value b cs * b + digit_value c < (digits_value b cs + 1) * b"
    by (simp add: algebra_simps)
  also have "\<dots> \<le> b ^ length cs * b"
    using \<open>digits_value b cs < b ^ length cs\<close> by (intro mult_right_mono) auto
  finally show ?case by (simp add: digits_value_append mult.commute)
qed (simp add: digits_value_def)

lemma bit_len_le: "0 < n \<Longrightarrow> n < 2 ^ k \<Longrightarrow> bit_len n \<le> k"
proof -
  assume "0 < n" "n < 2 ^ k"
  then have "(2::nat) ^ (bit_len n - 1) < 2 ^ k" using bit_len_bounds [of n] by linarith
  then show ?thesis by simp
qed

lemma hex_magnitude_length:
  assumes "all_digits 16 cs" "0 < digits_value 16 cs"
  shows "binary_length (int (digits_value 16 cs)) \<le> 4 * int (length cs)"
proof -
  have "digits_value 16 cs < 2 ^ (4 * length cs)"
    using digits_value_bound [OF assms(1)] by (simp add: power_mult)
  from bit_len_le [OF assms(2) this] show ?thesis by (simp add: binary_length_def)
qed


subsection \<open>Literals\<close>

definition exp_tail :: "literal \<Rightarrow> nat list option" where
  "exp_tail l = map_option (\<lambda>(_, sg, ds). sg @ ds) (lit_exp l)"

definition lower_significand :: "literal \<Rightarrow> nat list" where
  "lower_significand l = ((if lit_hex l then [48, 120] else []) @ map to_lower (lit_whole l))
     @ opt_part 46 (map_option (map to_lower) (lit_frac l))"

lemma sign_lower: "sign_ok sg \<Longrightarrow> map to_lower sg = sg"
  by (auto simp: sign_ok_def to_lower_def)

lemma lower_body:
  assumes "literal_ok l"
  shows "map to_lower (literal_body l)
       = lower_significand l @ opt_part (if lit_hex l then 112 else 101) (exp_tail l)"
proof -
  have "map to_lower (exp_text l) = opt_part (if lit_hex l then 112 else 101) (exp_tail l)"
    using assms sign_lower to_lower_digits
    by (auto simp: literal_ok_def exp_text_def exp_tail_def opt_part_def split: option.splits if_splits)
      (auto simp: to_lower_def)
  moreover have "map to_lower (frac_text l) = opt_part 46 (map_option (map to_lower) (lit_frac l))"
    by (cases "lit_frac l") (simp_all add: frac_text_def opt_part_def to_lower_def)
  ultimately show ?thesis using assms
    by (auto simp: literal_body_def lower_significand_def literal_ok_def to_lower_def)
qed

lemma literal_digit_chars:
  assumes "literal_ok l" and "c \<in> set (map to_lower (lit_whole l @ frac_digits l))"
  shows "48 \<le> c \<and> c \<le> 57 \<or> lit_hex l \<and> 97 \<le> c \<and> c \<le> 102"
proof (cases "lit_hex l")
  case True
  then have "all_digits 16 (lit_whole l @ frac_digits l)" using assms(1) by (simp add: literal_ok_def)
  from lower_digit_chars [OF this assms(2)] show ?thesis using True by blast
next
  case False
  then have d: "all_digits 10 (lit_whole l @ frac_digits l)" using assms(1) by (simp add: literal_ok_def)
  then show ?thesis using decimal_chars [OF d, of c] to_lower_digits [OF d] assms(2) by simp
qed

lemma lower_significand_chars:
  assumes "literal_ok l"
  shows "(if lit_hex l then 112 else 101) \<notin> set (lower_significand l)"
    and "46 \<notin> set ((if lit_hex l then [48, 120] else []) @ map to_lower (lit_whole l))"
    and "46 \<notin> set (map to_lower (lit_whole l))"
  using literal_digit_chars [OF assms, of 112] literal_digit_chars [OF assms, of 101]
    literal_digit_chars [OF assms, of 46]
  by (cases "lit_frac l"; auto simp: lower_significand_def opt_part_def frac_digits_def)+

lemma exponent_number:
  assumes "literal_ok l"
  obtains n e where "(case exp_tail l of None \<Rightarrow> Finite False 0 | Some es \<Rightarrow> to_number es) = Finite n e"
    and "(if n then - e else e) = of_int (exp_value l)" and "\<bar>exp_value l\<bar> < 2 ^ 40"
proof (cases "lit_exp l")
  case None
  then show ?thesis using that [of False 0] by (simp add: exp_tail_def exp_value_def)
next
  case (Some x)
  obtain mark sg ds where x: "x = (mark, sg, ds)" by (cases x)
  then have ok: "sign_ok sg" "ds \<noteq> []" "all_digits 10 ds" "digits_value 10 ds < 2 ^ 40"
    using assms Some by (auto simp: literal_ok_def)
  then show ?thesis
    using that [of "sg = [45]" "of_nat (digits_value 10 ds)"] to_number_exponent [OF ok] Some x
    by (auto simp: exp_tail_def exp_value_def)
qed

lemma strip_sign_text:
  assumes "sign_ok sg" "u \<noteq> []" "hd u \<noteq> 43" "hd u \<noteq> 45"
  shows "strip_sign (sg @ u) = (sg = [45], u)"
  using assms by (cases u) (auto simp: strip_sign_def sign_ok_def)

lemma literal_body_head:
  assumes "literal_ok l"
  shows "literal_body l \<noteq> []" "hd (literal_body l) \<notin> {43, 45}" "hd (map to_lower (literal_body l)) \<notin> {43, 45}"
proof -
  have w: "lit_whole l \<noteq> []" using assms by (simp add: literal_ok_def)
  then show ne: "literal_body l \<noteq> []" by (simp add: literal_body_def)
  have "hd (map to_lower (lit_whole l)) \<in> set (map to_lower (lit_whole l @ frac_digits l))"
    using w by (cases "lit_whole l") auto
  from literal_digit_chars [OF assms this] w
  show "hd (map to_lower (literal_body l)) \<notin> {43, 45}"
    by (auto simp: literal_body_def hd_append hd_map to_lower_def)
  then show "hd (literal_body l) \<notin> {43, 45}"
    using ne by (cases "literal_body l") (auto simp: to_lower_def)
qed


text \<open>What the scanners read off a literal.\<close>

lemma literal_scan:
  fixes l
  assumes "literal_ok l"
  defines "source \<equiv> map to_lower (literal_body l)"
  defines "eat \<equiv> index_of (if lit_hex l then 112 else 101) source"
  defines "sig \<equiv> (case eat of None \<Rightarrow> source | Some i \<Rightarrow> take i source)"
  shows "sig = lower_significand l"
    and "(case eat of None \<Rightarrow> Finite False 0 | Some i \<Rightarrow> to_number (drop (i + 1) source))
       = (case exp_tail l of None \<Rightarrow> Finite False 0 | Some es \<Rightarrow> to_number es)"
    and "(case index_of 46 sig of None \<Rightarrow> 0 | Some i \<Rightarrow> length sig - i - 1) = length (frac_digits l)"
    and "remove1 46 (if lit_hex l then strip_0x sig else sig) = map to_lower (lit_whole l @ frac_digits l)"
proof -
  let ?fr = "map_option (map to_lower) (lit_frac l)"
  have b: "source = lower_significand l @ opt_part (if lit_hex l then 112 else 101) (exp_tail l)"
    using lower_body [OF assms(1)] by (simp add: source_def)
  have a: "eat = map_option (\<lambda>_. length (lower_significand l)) (exp_tail l)"
    unfolding eat_def b by (rule scan_part) (rule lower_significand_chars(1) [OF assms(1)])
  show s: "sig = lower_significand l"
    unfolding sig_def a b by (cases "exp_tail l") (simp_all add: opt_part_def)
  show "(case eat of None \<Rightarrow> Finite False 0 | Some i \<Rightarrow> to_number (drop (i + 1) source))
       = (case exp_tail l of None \<Rightarrow> Finite False 0 | Some es \<Rightarrow> to_number es)"
    unfolding a b by (cases "exp_tail l") (simp_all add: opt_part_def)
  have fr: "(case ?fr of None \<Rightarrow> [] | Some fs \<Rightarrow> fs) = map to_lower (frac_digits l)"
    by (cases "lit_frac l") (simp_all add: frac_digits_def)
  show "(case index_of 46 sig of None \<Rightarrow> 0 | Some i \<Rightarrow> length sig - i - 1) = length (frac_digits l)"
    using scan_point(1) [OF lower_significand_chars(2) [OF assms(1)], of sig ?fr]
    unfolding s lower_significand_def fr by simp
  have "(if lit_hex l then strip_0x sig else sig) = map to_lower (lit_whole l) @ opt_part 46 ?fr"
    by (simp add: s lower_significand_def strip_0x_def)
  from scan_point(2) [OF lower_significand_chars(3) [OF assms(1)] this]
  show "remove1 46 (if lit_hex l then strip_0x sig else sig) = map to_lower (lit_whole l @ frac_digits l)"
    by (simp only: fr map_append)
qed

lemma literal_strip:
  assumes "literal_ok l"
  shows "strip_sign (literal_text l) = (lit_sign l = [45], literal_body l)"
    and "strip_sign (map to_lower (literal_text l)) = (lit_sign l = [45], map to_lower (literal_body l))"
  using literal_body_head [OF assms] assms sign_lower [of "lit_sign l"]
  by (simp_all add: literal_text_def literal_ok_def strip_sign_text)

lemma nearest_zero: "getFloat32 (if neg then 0x80000000 else 0) = nearest_f32 neg 0"
  "getFloat64 (if neg then push_bit 63 1 else 0) = nearest_f64 neg 0"
  using getFloat32_fields [of 0 0 neg] getFloat64_fields [of 0 0 neg]
  by (simp_all add: f32_bits_def f64_bits_def decode_float_def nearest_f32_def nearest_f64_def nearest_def
      round_to_def split: if_splits)

lemma js_sub_exponent:
  assumes "\<bar>ev\<bar> < 2 ^ 40" "n < 2 ^ 42"
  shows "js_sub (of_int ev) (of_nat n) = of_int (ev - int n)"
proof -
  have "\<bar>ev - int n\<bar> < 2 ^ 53" using assms by auto
  from js_sub_int [OF this] show ?thesis by simp
qed

lemma watDecimalF32_literal:
  assumes "literal_ok l" "\<not> lit_hex l"
  shows "watDecimalF32 (literal_text l) = Inr (nearest_f32 (lit_sign l = [45]) (literal_value l))"
proof -
  let ?ds = "lit_whole l @ frac_digits l" and ?k = "length (frac_digits l)"
  have ds: "?ds \<noteq> []" "all_digits 10 ?ds" "?k < 2 ^ 42" using assms by (auto simp: literal_ok_def)
  note low = to_lower_digits [OF ds(2)]
  note sc = literal_scan [OF assms(1), unfolded low if_not_P [OF assms(2)]]
  note scan = sc(1,2) sc(3,4) [unfolded sc(1)] bigint_of_decimal [OF ds(1,2)]
  obtain n e where e: "(case exp_tail l of None \<Rightarrow> Finite False 0 | Some es \<Rightarrow> to_number es) = Finite n e"
    "(if n then - e else e) = of_int (exp_value l)" "\<bar>exp_value l\<bar> < 2 ^ 40"
    using exponent_number [OF assms(1)] .
  note js = js_sub_exponent [OF e(3) ds(3)]
  define z where "z = exp_value l - int ?k"
  have enc: "(if z \<ge> 0 then encode_ratio_f32 neg (m * 10 ^ nat z) 1 else encode_ratio_f32 neg m (10 ^ nat (- z)))
      = nearest_f32 neg (of_int m * 10 powi z)" if "0 < m" for neg m
    using that by (auto simp: encode_ratio_f32_nearest power_int_def field_simps)
  have ne: "(if ?ds = [] then [48] else ?ds) = ?ds" using ds(1) by simp
  have "watDecimalF32 (literal_text l) =
     (if digits_value 10 ?ds = 0 then Inr (nearest_f32 (lit_sign l = [45]) 0)
      else Inr (nearest_f32 (lit_sign l = [45]) (of_int (int (digits_value 10 ?ds)) * 10 powi z)))"
    unfolding watDecimalF32_def Let_def literal_strip(2) [OF assms(1)] prod.case scan(1-4) ne scan(5) e(1) nearest_zero
    using js enc [of "int (digits_value 10 ?ds)"]
    by (cases "digits_value 10 ?ds = 0") (simp_all add: e(2) z_def [symmetric] del: of_int_diff of_int_of_nat_eq)
  then show ?thesis using assms(2) by (simp add: literal_value_def z_def)
qed


lemma watHexFloat_literal:
  assumes "literal_ok l" "lit_hex l"
  shows "watHexFloat (literal_text l) asF32 = Inr (nearest_float asF32 (lit_sign l = [45]) (literal_value l))"
proof -
  let ?ds = "lit_whole l @ frac_digits l" and ?k = "length (frac_digits l)"
  define m where "m = int (digits_value 16 ?ds)"
  define z where "z = exp_value l - int (?k * 4)"
  have ds: "?ds \<noteq> []" "all_digits 16 ?ds" "length ?ds < 2 ^ 40" "?k * 4 < 2 ^ 42"
    using assms by (auto simp: literal_ok_def)
  have bt: "bigint_of_text ([48, 120] @ map to_lower ?ds) = Inr m"
  proof -
    have "33 \<le> c \<and> c < 128" if "c \<in> set (map to_lower ?ds)" for c
      using literal_digit_chars [OF assms(1) that] by auto
    from bigint_of_hex [OF _ _ this] ds(1,2) show ?thesis
      by (simp only: m_def all_digits_to_lower digits_value_to_lower map_is_Nil_conv not_False_eq_True)
  qed
  note sc = literal_scan [OF assms(1), unfolded if_P [OF assms(2)]]
  note scan = sc(1,2) sc(3,4) [unfolded sc(1)] bt
  obtain n e where e: "(case exp_tail l of None \<Rightarrow> Finite False 0 | Some es \<Rightarrow> to_number es) = Finite n e"
    "(if n then - e else e) = of_int (exp_value l)" "\<bar>exp_value l\<bar> < 2 ^ 40"
    using exponent_number [OF assms(1)] .
  note js = js_sub_exponent [OF e(3) ds(4), folded z_def]
  have fields: "bind_c (hex_fields asF32 m (of_int z)) (\<lambda>(e, f). hex_result asF32 neg e f)
      = Inr (nearest_float asF32 neg (of_int m * 2 powi z))" if "m \<noteq> 0" for neg
  proof (rule hex_nearest)
    show "0 < m" using that by (simp add: m_def)
    then have "binary_length m \<le> 4 * int (length ?ds)"
      unfolding m_def using ds(2) by (intro hex_magnitude_length) simp_all
    then show "\<bar>z\<bar> + binary_length m < 2 ^ 52" using ds(3) e(3) by (auto simp: z_def)
  qed
  have ne: "(if map to_lower ?ds = [] then [48] else map to_lower ?ds) = map to_lower ?ds"
    using ds(1) by simp
  have "watHexFloat (literal_text l) asF32 =
     (if m = 0 then Inr (nearest_float asF32 (lit_sign l = [45]) 0)
      else Inr (nearest_float asF32 (lit_sign l = [45]) (of_int m * 2 powi z)))"
    unfolding watHexFloat_def Let_def literal_strip(2) [OF assms(1)] prod.case scan(1-4) ne scan(5) e(1) nearest_zero
    using js fields by (simp add: e(2) nearest_float_def del: of_nat_mult)
  then show ?thesis using assms(2) by (simp add: literal_value_def z_def m_def mult.commute)
qed

lemma literal_decimal_body:
  assumes "literal_ok l" "\<not> lit_hex l"
  defines "mark \<equiv> (case lit_exp l of None \<Rightarrow> 101 | Some (m, _) \<Rightarrow> m)"
  shows "literal_body l = lit_whole l @ opt_part 46 (lit_frac l) @ opt_part mark (exp_tail l)"
    and "mark = 101 \<or> mark = 69" and "radix_prefix (literal_body l) = None"
proof -
  show b: "literal_body l = lit_whole l @ opt_part 46 (lit_frac l) @ opt_part mark (exp_tail l)"
    using assms(2)
    by (cases "lit_exp l") (auto simp: literal_body_def frac_text_def exp_text_def exp_tail_def opt_part_def mark_def)
  show mk: "mark = 101 \<or> mark = 69"
    using assms(1,2) by (auto simp: literal_ok_def mark_def split: option.splits)
  show "radix_prefix (literal_body l) = None"
    unfolding b using assms(1,2) mk
    by (intro radix_prefix_decimal) (auto simp: literal_ok_def opt_part_def split: option.splits)
qed

lemma to_number_literal:
  assumes "literal_ok l" "\<not> lit_hex l"
  shows "to_number (literal_text l) = nearest_f64 (lit_sign l = [45]) (literal_value l)"
proof -
  note b = literal_decimal_body(1) [OF assms]
  have ok: "sign_ok (lit_sign l)" "lit_whole l \<noteq> []" "all_digits 10 (lit_whole l)" "all_digits 10 (frac_digits l)"
    using assms by (auto simp: literal_ok_def)
  have ev: "exponent_value es = Some (exp_value l)" if et: "exp_tail l = Some es" for es
  proof -
    obtain m sg ds where x: "lit_exp l = Some (m, sg, ds)" "es = sg @ ds"
      using et by (auto simp: exp_tail_def)
    then have "sign_ok sg" "ds \<noteq> []" "all_digits 10 ds" using assms by (auto simp: literal_ok_def)
    from exponent_value_text [OF this] show ?thesis using x by (simp add: exp_value_def)
  qed
  have "js_decimal (literal_body l) = Some (literal_value l)"
    unfolding b using js_decimal_text [OF ok(2,3) _ literal_decimal_body(2) [OF assms], of "lit_frac l" "exp_tail l" "exp_value l"] ok(4) ev assms(2)
    by (auto simp: frac_digits_def literal_value_def exp_tail_def exp_value_def Let_def)
  moreover note literal_decimal_body(3) [OF assms]
  moreover have "is_digit (hd (literal_body l))"
    using ok(2,3) digits_are by (simp add: b)
  moreover have "last (literal_body l) = 46 \<or> is_digit (last (literal_body l))"
    using ok(2,3,4) assms digits_are
    by (auto simp: b opt_part_def exp_tail_def frac_digits_def literal_ok_def split: option.splits)
  then have "\<not> is_space (last (literal_body l))" by (auto simp: is_space_def is_digit_def)
  ultimately show ?thesis
    unfolding literal_text_def using to_number_signed [OF ok(1) literal_body_head(1) [OF assms(1)]]
    by simp
qed

text \<open>
  C26. Every decimal or hexadecimal float literal, in either case and with any sign, is converted to
  the binary32 or binary64 number nearest to its exact value, ties to even, with gradual underflow
  and overflow to infinity.
\<close>

theorem watFloat_correctly_rounds:
  assumes "literal_ok l"
  shows "watFloat (literal_text l) asF32 = Inr (nearest_float asF32 (lit_sign l = [45]) (literal_value l))"
proof -
  have "take 2 (map to_lower (literal_body l)) = [48, 120] \<longleftrightarrow> lit_hex l"
  proof (cases "lit_hex l")
    case True
    then show ?thesis using lower_body [OF assms] by (simp add: lower_significand_def)
  next
    case False
    from literal_decimal_body(3) [OF assms this] have "take 2 (map to_lower (literal_body l)) \<noteq> [48, 120]"
      by (cases "literal_body l"; cases "tl (literal_body l)")
        (auto simp: radix_prefix_def to_lower_def split: if_splits)
    then show ?thesis using False by simp
  qed
  then show ?thesis
    using watHexFloat_literal [OF assms] watDecimalF32_literal [OF assms] to_number_literal [OF assms]
    by (simp add: watFloat_def Let_def literal_strip [OF assms] nearest_float_def)
qed

text \<open>\<open>-0X1.8p-149\<close> is a tie between the two least subnormal magnitudes and rounds to the even one.\<close>

definition subnormal_tie :: literal where
  "subnormal_tie = \<lparr> lit_sign = [45], lit_hex = True, lit_x = 88, lit_whole = [49], lit_frac = Some [56],
     lit_exp = Some (112, [45], [49, 52, 57]) \<rparr>"

theorem watFloat_correctly_rounds_witness:
  "literal_ok subnormal_tie \<and>
   watFloat (literal_text subnormal_tie) True = Inr (nearest_float True True (literal_value subnormal_tie)) \<and>
   watFloat (literal_text subnormal_tie) True = Inr (Finite True (of_int 2 * 2 powi (-149)))"
proof -
  have ok: "literal_ok subnormal_tie" by code_simp
  have "lit_sign subnormal_tie = [45]" by (simp add: subnormal_tie_def)
  moreover have "watFloat (literal_text subnormal_tie) True = Inr (Finite True (of_int 2 * 2 powi (-149)))"
    by code_simp
  ultimately show ?thesis using ok watFloat_correctly_rounds [OF ok, of True] by simp
qed

end
