(* ===== verification/Glyph_Data.thy ===== *)
theory Glyph_Data
  imports Waste_Prelude
begin

text \<open>
  The tables of the generated font file \<open>terminal/glf.js\<close> that the renderer reads: \<open>glf.lookup\<close>,
  the range of triangle indices of each glyph, and \<open>glf.cmap.subtables\<close>, the character maps.
  The long table is split where the definitions would become unwieldy; \<open>glf_lookup\<close> and
  \<open>glf_subtables\<close> are the whole tables. Of the arrays \<open>glf.idx\<close> and \<open>glf.pts\<close>, which are only
  uploaded to the graphics card, the development keeps the number of indices.
\<close>

subsection \<open>Index ranges of the glyphs\<close>

record glyph_range =
  start :: nat
  len :: nat

abbreviation gr :: "nat \<Rightarrow> nat \<Rightarrow> glyph_range option" where
  "gr s n \<equiv> Some \<lparr>start = s, len = n\<rparr>"

definition lookup_0 :: "glyph_range option list" where
  "lookup_0 = [
    gr 0 24, None, None, None, gr 24 507, gr 531 378, gr 909 1059, gr 1968 1035, gr 3003 1479,
    gr 4482 1488, gr 5970 231, gr 6201 759, gr 6960 771, gr 7731 891, gr 8622 477, gr 9099 414,
    gr 9513 117, gr 9630 183, gr 9813 879, gr 10692 1041, gr 11733 582, gr 12315 855,
    gr 13170 876, gr 14046 894, gr 14940 1029, gr 15969 894, gr 16863 618, gr 17481 1026,
    gr 18507 915, gr 19422 366, gr 19788 579, gr 20367 789, gr 21156 234, gr 21390 789,
    gr 22179 687, gr 22866 1410]"

definition lookup_1 :: "glyph_range option list" where
  "lookup_1 = [
    gr 24276 1023, gr 25299 1074, gr 26373 924, gr 27297 1113, gr 28410 732, gr 29142 657,
    gr 29799 1020, gr 30819 1077, gr 31896 657, gr 32553 717, gr 33270 1332, gr 34602 645,
    gr 35247 1611, gr 36858 1362, gr 38220 1110, gr 39330 843, gr 40173 1428, gr 41601 1236,
    gr 42837 981, gr 43818 636, gr 44454 1116, gr 45570 1032, gr 46602 1575, gr 48177 1413,
    gr 49590 939, gr 50529 711, gr 51240 831, gr 52071 981, gr 53052 693, gr 53745 471,
    gr 54216 117, gr 54333 270, gr 54603 666, gr 55269 1125, gr 56394 786, gr 57180 1098]"

definition lookup_2 :: "glyph_range option list" where
  "lookup_2 = [
    gr 58278 645, gr 58923 747, gr 59670 1014, gr 60684 1026, gr 61710 549, gr 62259 672,
    gr 62931 1035, gr 63966 615, gr 64581 1260, gr 65841 951, gr 66792 867, gr 67659 1152,
    gr 68811 1002, gr 69813 684, gr 70497 576, gr 71073 648, gr 71721 828, gr 72549 780,
    gr 73329 1134, gr 74463 912, gr 75375 1110, gr 76485 501, gr 76986 963, gr 77949 702,
    gr 78651 936, gr 79587 729, gr 80316 507, gr 80823 1095, gr 81918 963, gr 82881 1002,
    gr 83883 1020, gr 84903 678, gr 85581 1113, gr 86694 234, gr 86928 1911, gr 88839 645]"

definition lookup_3 :: "glyph_range option list" where
  "lookup_3 = [
    gr 89484 1191, gr 90675 231, gr 90906 117, gr 91023 2151, gr 93174 117, gr 93291 465,
    gr 93756 570, gr 94326 531, gr 94857 447, gr 95304 189, gr 95493 1080, gr 96573 1455,
    gr 98028 90, gr 98118 219, gr 98337 390, gr 98727 462, gr 99189 1020, gr 100209 1701,
    gr 101910 1560, gr 103470 1623, gr 105093 768, gr 105861 1281, gr 107142 1251,
    gr 108393 1380, gr 109773 1395, gr 111168 1257, gr 112425 1452, gr 113877 1296,
    gr 115173 1128, gr 116301 990, gr 117291 978, gr 118269 1092, gr 119361 963, gr 120324 915,
    gr 121239 903, gr 122142 1017]"

definition lookup_4 :: "glyph_range option list" where
  "lookup_4 = [
    gr 123159 888, gr 124047 1155, gr 125202 1734, gr 126936 1368, gr 128304 1356,
    gr 129660 1467, gr 131127 1482, gr 132609 1344, gr 133953 993, gr 134946 1506,
    gr 136452 1374, gr 137826 1344, gr 139170 1473, gr 140643 1350, gr 141993 1155,
    gr 143148 1029, gr 144177 1170, gr 145347 936, gr 146283 882, gr 147165 1005,
    gr 148170 1050, gr 149220 912, gr 150132 1125, gr 151257 897, gr 152154 972, gr 153126 915,
    gr 154041 861, gr 154902 999, gr 155901 891, gr 156792 702, gr 157494 663, gr 158157 786,
    gr 158943 678, gr 159621 1299, gr 160920 1299, gr 162219 1137]"

definition lookup_5 :: "glyph_range option list" where
  "lookup_5 = [
    gr 163356 1083, gr 164439 1221, gr 165660 1251, gr 166911 1101, gr 168012 483,
    gr 168495 1020, gr 169515 1098, gr 170613 1059, gr 171672 1182, gr 172854 1062,
    gr 173916 1293, gr 175209 1185, gr 176394 1200, gr 177594 744, gr 178338 696,
    gr 179034 621, gr 179655 18, gr 179673 936, gr 180609 564, gr 181173 531, gr 181704 456,
    gr 182160 441, gr 182601 927, gr 183528 906, gr 184434 537, gr 184971 456, gr 185427 948,
    gr 186375 18, gr 186393 18, gr 186411 2301, gr 188712 18, gr 188730 639, None]"

definition glf_lookup :: "glyph_range option list" where
  "glf_lookup = lookup_0 @ lookup_1 @ lookup_2 @ lookup_3 @ lookup_4 @ lookup_5"

text \<open>The number of entries of \<open>glf.idx\<close>.\<close>

definition idx_count :: nat where
  "idx_count = 189369"

subsection \<open>Character maps\<close>

text \<open>
  A subtable is tagged by its \<open>format\<close>; the constructors carry the arrays that exist in that
  format.
\<close>

datatype cmap_subtable =
    Format0 (glyphIndexArray: "int list")
  | Format4 (startCode: "int list") (endCode: "int list") (idDelta: "int list")
      (idRangeOffset: "int list") (glyphIdArray: "int list")
  | Format6 (firstCode: int) (entryCount: int) (glyphIdArray6: "int list")

definition cmap_unicode :: cmap_subtable where
  "cmap_unicode = Format4
    [32, 160, 161, 8800, 8804, 9472, 9474, 9484, 9488, 9492, 9496, 9500, 9508, 9516, 9524,
      9532, 9600, 9618, 9620, 9830, 65535]
    [126, 160, 255, 8800, 8805, 9472, 9474, 9484, 9488, 9492, 9496, 9500, 9508, 9516, 9524,
      9532, 9601, 9618, 9620, 9830, 65535]
    [-29, 52, -63, -8607, -8610, -9276, -9277, -9286, -9289, -9292, -9295, -9298, -9305,
      -9312, -9319, -9326, -9393, -9409, -9410, -9619, 1]
    [0, 0, 0, 0, 0, 0, 0, 0, 0, 0, 0, 0, 0, 0, 0, 0, 0, 0, 0, 0, 0]
    []"

definition mac_glyphs_low :: "int list" where
  "mac_glyphs_low = 
    [1, 0, 0, 0, 0, 0, 0, 0, 1, 2, 0, 0, 0, 2, 0, 0, 0, 0, 0, 0, 0, 0, 0, 0, 0, 0, 0, 0, 0, 1,
      0, 0, 3, 4, 5, 6, 7, 8, 9, 10, 11, 12, 13, 14, 15, 16, 17, 18, 19, 20, 21, 22, 23, 24,
      25, 26, 27, 28, 29, 30, 31, 32, 33, 34, 35, 36, 37, 38, 39, 40, 41, 42, 43, 44, 45, 46,
      47, 48, 49, 50, 51, 52, 53, 54, 55, 56, 57, 58, 59, 60, 61, 62, 63, 64, 65, 66, 67, 68,
      69, 70, 71, 72, 73, 74, 75, 76, 77, 78, 79, 80, 81, 82, 83, 84, 85, 86, 87, 88, 89, 90,
      91, 92, 93, 94, 95, 96, 97, 0]"

definition mac_glyphs_high :: "int list" where
  "mac_glyphs_high = 
    [133, 134, 136, 138, 146, 151, 157, 162, 161, 163, 165, 164, 166, 168, 170, 169, 171, 172,
      174, 173, 175, 176, 178, 180, 179, 181, 183, 182, 187, 186, 188, 189, 0, 113, 99, 100,
      104, 0, 119, 160, 111, 106, 0, 117, 105, 193, 135, 153, 0, 114, 194, 195, 102, 118, 0, 0,
      0, 0, 0, 107, 123, 0, 167, 185, 128, 98, 109, 0, 0, 0, 0, 108, 124, 0, 212, 129, 132,
      150, 0, 0, 0, 0, 0, 0, 0, 0, 184, 0, 192, 0, 0, 0, 0, 0, 0, 0, 0, 120, 0, 0, 0, 131, 139,
      130, 140, 137, 142, 143, 144, 141, 148, 149, 0, 147, 155, 156, 154, 0, 0, 0, 112, 0, 0,
      0, 121, 0, 0, 0]"

definition cmap_mac :: cmap_subtable where
  "cmap_mac = Format0 (mac_glyphs_low @ mac_glyphs_high)"

definition cmap_windows :: cmap_subtable where
  "cmap_windows = Format4
    [32, 160, 161, 8800, 8804, 9472, 9474, 9484, 9488, 9492, 9496, 9500, 9508, 9516, 9524,
      9532, 9600, 9618, 9620, 9830, 65535]
    [126, 160, 255, 8800, 8805, 9472, 9474, 9484, 9488, 9492, 9496, 9500, 9508, 9516, 9524,
      9532, 9601, 9618, 9620, 9830, 65535]
    [-29, 52, -63, -8607, -8610, -9276, -9277, -9286, -9289, -9292, -9295, -9298, -9305,
      -9312, -9319, -9326, -9393, -9409, -9410, -9619, 1]
    [0, 0, 0, 0, 0, 0, 0, 0, 0, 0, 0, 0, 0, 0, 0, 0, 0, 0, 0, 0, 0]
    []"

definition glf_subtables :: "cmap_subtable list" where
  "glf_subtables = [cmap_unicode, cmap_mac, cmap_windows]"

end
