(* ===== verification/Glyphs.thy ===== *)
theory Glyphs
  imports Glyph_Data
begin

text \<open>
  The glyph lookup of \<open>terminal/renderer.js\<close>: \<open>lookupCmapSubtable\<close>, \<open>lookupCmap\<close> and the
  memoised \<open>glyphRange\<close>, on the tables of \<open>Glyph_Data\<close>. Code points are integers; \<open>None\<close> stands
  for both \<open>null\<close> and \<open>undefined\<close>, which every caller treats alike. The lemmas compute the
  lookup on the real font: which code points have a glyph, that every glyph is a whole number
  of triangles inside the index buffer, and that the cache never changes an answer.
\<close>

subsection \<open>Lookup\<close>

definition arr_get :: "'a list \<Rightarrow> int \<Rightarrow> 'a option" where
  "arr_get xs i = (if 0 \<le> i \<and> nat i < length xs then Some (xs ! nat i) else None)"

text \<open>
  The loop over the segments of a format 4 table, from segment \<open>i\<close> with \<open>n\<close> segments left.
  Comparing with \<open>undefined\<close> is false, \<open>undefined >> 1\<close> is 0 and \<open>NaN & 0xffff\<close> is 0.
\<close>

fun scan_segments :: "cmap_subtable \<Rightarrow> int \<Rightarrow> nat \<Rightarrow> nat \<Rightarrow> int option" where
  "scan_segments t c i 0 = None"
| "scan_segments t c i (Suc n) =
     (if c < startCode t ! i \<or> (case arr_get (endCode t) (int i) of Some e \<Rightarrow> c > e | None \<Rightarrow> False)
      then scan_segments t c (Suc i) n
      else if arr_get (idRangeOffset t) (int i) = Some 0
      then Some (case arr_get (idDelta t) (int i) of Some d \<Rightarrow> (d + c) mod 65536 | None \<Rightarrow> 0)
      else let offset = (case arr_get (idRangeOffset t) (int i) of Some r \<Rightarrow> r div 2 | None \<Rightarrow> 0);
               index = int i + offset + (c - startCode t ! i)
           in if index < int (length (idRangeOffset t)) then arr_get (idRangeOffset t) index
              else let glyphIndex = index - int (length (startCode t))
                   in if glyphIndex < int (length (glyphIdArray t))
                      then arr_get (glyphIdArray t) glyphIndex else None)"

definition lookupCmapSubtable :: "cmap_subtable \<Rightarrow> int \<Rightarrow> int option" where
  "lookupCmapSubtable t c =
     (case t of
        Format4 sc _ _ _ _ \<Rightarrow> scan_segments t c 0 (length sc)
      | Format6 fc n g \<Rightarrow> if c \<ge> fc \<and> c < fc + n then arr_get g (c - fc) else None
      | Format0 _ \<Rightarrow> None)"

fun lookupCmap :: "cmap_subtable list \<Rightarrow> int \<Rightarrow> int option" where
  "lookupCmap [] c = None"
| "lookupCmap (t # ts) c =
     (case lookupCmapSubtable t c of Some g \<Rightarrow> Some g | None \<Rightarrow> lookupCmap ts c)"

type_synonym glyph_cache = "int \<rightharpoonup> glyph_range option"

text \<open>\<open>this.glf.lookup[...] || null\<close>, and an empty range counts as none.\<close>

definition find_range :: "int \<Rightarrow> glyph_range option" where
  "find_range c =
     (let glyph = (case lookupCmap glf_subtables c of None \<Rightarrow> 0 | Some g \<Rightarrow> g)
      in case arr_get glf_lookup glyph of
           Some (Some r) \<Rightarrow> if len r = 0 then None else Some r
         | _ \<Rightarrow> None)"

definition glyphRange :: "int \<Rightarrow> glyph_cache \<Rightarrow> glyph_range option \<times> glyph_cache" where
  "glyphRange c cache =
     (case cache c of
        Some g \<Rightarrow> (g, cache)
      | None \<Rightarrow> (let g = find_range c in (g, cache(c \<mapsto> g))))"

subsection \<open>Segments with a delta\<close>

text \<open>The reference reading of a format 4 table: the first segment that contains the code.\<close>

fun first_segment :: "(int \<times> int \<times> int) list \<Rightarrow> int \<Rightarrow> int option" where
  "first_segment [] c = None"
| "first_segment ((s, e, d) # r) c =
     (if s \<le> c \<and> c \<le> e then Some ((d + c) mod 65536) else first_segment r c)"

lemma arr_get_nat [simp]: "arr_get xs (int i) = (if i < length xs then Some (xs ! i) else None)"
  by (simp add: arr_get_def)

lemma arr_get_mem: "arr_get xs i = Some x \<Longrightarrow> x \<in> set xs"
  by (auto simp: arr_get_def split: if_splits)

lemma scan_segments_deltas:
  assumes "length es = length ss" "length ds = length ss" "ro = replicate (length ss) 0"
    and "i + n = length ss"
  shows "scan_segments (Format4 ss es ds ro ga) c i n
       = first_segment (drop i (zip ss (zip es ds))) c"
  using assms(4)
proof (induction n arbitrary: i)
  case 0
  with assms show ?case by simp
next
  case (Suc n)
  then have i: "i < length (zip ss (zip es ds))" using assms by simp
  then have "drop i (zip ss (zip es ds)) = (ss ! i, es ! i, ds ! i) # drop (Suc i) (zip ss (zip es ds))"
    using Cons_nth_drop_Suc [OF i] by simp
  then show ?case using Suc i assms by auto
qed

definition segments :: "(int \<times> int \<times> int) list" where
  "segments = zip (startCode cmap_unicode) (zip (endCode cmap_unicode) (idDelta cmap_unicode))"

lemma lookup_format4:
  assumes "length es = length ss" "length ds = length ss" "ro = replicate (length ss) 0"
  shows "lookupCmapSubtable (Format4 ss es ds ro ga) c = first_segment (zip ss (zip es ds)) c"
  using scan_segments_deltas [OF assms, of 0 "length ss"] by (simp add: lookupCmapSubtable_def)

lemma lookup_unicode: "lookupCmapSubtable cmap_unicode c = first_segment segments c"
  unfolding segments_def cmap_unicode_def cmap_subtable.sel by (rule lookup_format4) simp_all

lemma lookupCmap_unicode: "lookupCmap glf_subtables c = first_segment segments c"
proof -
  have "cmap_windows = cmap_unicode" by (simp add: cmap_windows_def cmap_unicode_def)
  moreover have "lookupCmapSubtable cmap_mac c = None" by (simp add: lookupCmapSubtable_def cmap_mac_def)
  ultimately show ?thesis
    by (simp add: glf_subtables_def lookup_unicode split: option.split)
qed

definition covered :: "int list" where
  "covered = concat (map (\<lambda>(s, e, d). [s..e]) segments)"

lemma first_segment_None: "first_segment xs c = None \<longleftrightarrow> c \<notin> set (concat (map (\<lambda>(s, e, d). [s..e]) xs))"
  by (induction xs) (auto split: if_splits)

lemma lookupCmap_None: "lookupCmap glf_subtables c = None \<longleftrightarrow> c \<notin> set covered"
  by (simp add: lookupCmap_unicode first_segment_None covered_def del: set_concat set_map)

subsection \<open>The ranges of the font\<close>

text \<open>The ranges, in order, cut the index buffer into whole triangles without gap or overlap.\<close>

fun tiles :: "nat \<Rightarrow> glyph_range option list \<Rightarrow> nat \<Rightarrow> bool" where
  "tiles a [] b \<longleftrightarrow> a = b"
| "tiles a (None # r) b \<longleftrightarrow> tiles a r b"
| "tiles a (Some g # r) b \<longleftrightarrow> start g = a \<and> 3 dvd len g \<and> 0 < len g \<and> tiles (a + len g) r b"

lemma tiles_le: "tiles a rs b \<Longrightarrow> a \<le> b"
  by (induction a rs b rule: tiles.induct) auto

lemma tiles_in:
  assumes "tiles a rs b" and "Some g \<in> set rs"
  shows "a \<le> start g \<and> start g + len g \<le> b \<and> 3 dvd len g \<and> 0 < len g"
  using assms by (induction a rs b rule: tiles.induct) (auto dest: tiles_le)

lemma lookup_tiles: "tiles 0 glf_lookup idx_count"
  by code_simp

lemma find_range_tiles:
  assumes "find_range c = Some r"
  shows "start r + len r \<le> idx_count \<and> 3 dvd len r \<and> 0 < len r"
proof -
  have "Some r \<in> set glf_lookup"
    using assms by (auto simp: find_range_def Let_def split: option.splits if_splits dest: arr_get_mem)
  from tiles_in [OF lookup_tiles this] show ?thesis by simp
qed

lemma lookup_nulls:
  "length glf_lookup = 213"
  "list_all (\<lambda>(i, r). (r = None) = (i \<in> {1, 2, 3, 212})) (enumerate 0 glf_lookup)"
  by code_simp+

lemma lookup_null_iff:
  assumes "i < 213"
  shows "glf_lookup ! i = None \<longleftrightarrow> i \<in> {1, 2, 3, 212}"
proof -
  have "(i, glf_lookup ! i) \<in> set (enumerate 0 glf_lookup)"
    using assms lookup_nulls(1) by (auto simp: in_set_enumerate_eq)
  then have "(\<lambda>(i, r). (r = None) = (i \<in> {1, 2, 3, 212})) (i, glf_lookup ! i)"
    using lookup_nulls(2) by (simp only: list_all_iff)
  then show ?thesis by simp
qed

lemma covered_glyphs:
  "list_all (\<lambda>c. case first_segment segments c of None \<Rightarrow> False
     | Some g \<Rightarrow> 0 \<le> g \<and> g < 213 \<and> (g \<in> {1, 2, 3, 212}) = (c = 32 \<or> c = 160)) covered"
  by code_simp

lemma covered_blank:
  assumes "c \<in> set covered"
  shows "find_range c = None \<longleftrightarrow> c = 32 \<or> c = 160"
proof -
  obtain g where g: "lookupCmap glf_subtables c = Some g" "0 \<le> g" "g < 213"
    "g \<in> {1, 2, 3, 212} \<longleftrightarrow> c = 32 \<or> c = 160"
    using covered_glyphs assms by (auto simp: list_all_iff lookupCmap_unicode split: option.splits)
  have "0 < len r" if "Some r \<in> set glf_lookup" for r
    using tiles_in [OF lookup_tiles that] by simp
  then have "find_range c = glf_lookup ! nat g"
    using g nth_mem [of "nat g" glf_lookup] lookup_nulls(1)
    by (cases "glf_lookup ! nat g") (simp_all add: find_range_def arr_get_def)
  then show ?thesis using lookup_null_iff [of "nat g"] g by auto
qed

lemma find_range_unmapped:
  assumes "c \<notin> set covered"
  shows "find_range c = Some \<lparr>start = 0, len = 24\<rparr>"
proof -
  have "glf_lookup ! 0 = Some \<lparr>start = 0, len = 24\<rparr>" "0 < length glf_lookup" by code_simp+
  then show ?thesis using assms lookupCmap_None [of c] by (simp add: find_range_def arr_get_def)
qed

lemma find_range_None: "find_range c = None \<longleftrightarrow> c = 32 \<or> c = 160"
proof (cases "c \<in> set covered")
  case True
  then show ?thesis by (rule covered_blank)
next
  case False
  have "32 \<in> set covered" "160 \<in> set covered" by code_simp+
  with False find_range_unmapped [OF False] show ?thesis by auto
qed

subsection \<open>The cache\<close>

definition coherent :: "glyph_cache \<Rightarrow> bool" where
  "coherent cache \<longleftrightarrow> (\<forall>c r. cache c = Some r \<longrightarrow> r = find_range c)"

lemma coherent_empty [simp]: "coherent Map.empty"
  by (simp add: coherent_def)

lemma glyphRange_coherent:
  assumes "coherent cache"
  shows "fst (glyphRange c cache) = find_range c" and "coherent (snd (glyphRange c cache))"
  using assms by (auto simp: glyphRange_def coherent_def Let_def split: option.splits)


text \<open>
  C33. The font draws every code point: only the space and the no-break space have no outline, a code
  point without a glyph is drawn as the glyph \<open>.notdef\<close>, and every range that the renderer looks up
  is a non-empty whole number of triangles inside the index buffer.
\<close>

theorem font_covers_all_codes:
  "(find_range c = None \<longleftrightarrow> c = 32 \<or> c = 160) \<and>
   (\<forall>r. find_range c = Some r \<longrightarrow> start r + len r \<le> idx_count \<and> 3 dvd len r \<and> 0 < len r) \<and>
   (lookupCmap glf_subtables c = None \<longrightarrow> find_range c = Some \<lparr>start = 0, len = 24\<rparr>)"
  using find_range_None [of c] find_range_tiles [of c] find_range_unmapped [of c] lookupCmap_None [of c]
  by auto

theorem font_covers_all_codes_witness:
  "lookupCmap glf_subtables 0x1F600 = None \<and> find_range 0x1F600 = Some \<lparr>start = 0, len = 24\<rparr>"
proof -
  have "lookupCmap glf_subtables 0x1F600 = None" by code_simp
  with font_covers_all_codes [of "0x1F600"] show ?thesis by blast
qed

fun glyph_calls :: "int list \<Rightarrow> glyph_cache \<Rightarrow> glyph_range option list \<times> glyph_cache" where
  "glyph_calls [] cache = ([], cache)"
| "glyph_calls (c # cs) cache =
     (let (r, cache1) = glyphRange c cache; (rs, cache2) = glyph_calls cs cache1 in (r # rs, cache2))"

text \<open>
  The glyph cache is transparent: over any sequence of lookups starting with the empty cache,
  each answer is the one the font tables give.
\<close>

theorem glyph_cache_transparent: "fst (glyph_calls cs Map.empty) = map find_range cs"
proof -
  have "fst (glyph_calls cs cache) = map find_range cs" if "coherent cache" for cache
    using that
  proof (induction cs arbitrary: cache)
    case (Cons c cs)
    then show ?case
      using glyphRange_coherent [OF Cons.prems, of c] by (auto simp: Let_def case_prod_unfold)
  qed simp
  then show ?thesis by simp
qed

end
