(* ===== verification/Renderer.thy ===== *)
theory Renderer
  imports Terminal_Ops Glyphs
begin

text \<open>
  The renderer of \<open>terminal/renderer.js\<close>: the state of a \<open>TerminalRenderer\<close> as the record
  \<open>renderer\<close>, the geometry computed by \<open>resize\<close>, the instance arrays and draw calls of
  \<open>renderWebGL\<close>, the operations of \<open>renderCanvas\<close>, and the coalescing of repaints by
  \<open>markDirty\<close>. What a paint sends to the graphics context is a value, \<open>painting\<close>; the context
  itself, shader compilation and the page layout are parameters (\<open>gl_status\<close>, \<open>viewport\<close>).
  Coordinates are Numbers rounded by \<open>js_round\<close>; typed arrays round to binary32 (\<open>fround\<close>).
\<close>

unbundle bit_operations_syntax

subsection \<open>Numbers\<close>

definition js_div :: "rat \<Rightarrow> rat \<Rightarrow> rat" where "js_div a b = js_round (a / b)"

definition math_round :: "rat \<Rightarrow> int" where "math_round q = \<lfloor>q + 1 / 2\<rfloor>"

definition fround :: "rat \<Rightarrow> rat" where "fround q = round_to 24 (-149) q"

definition FONT_ASCENT :: int where "FONT_ASCENT = 1638"
definition FONT_DESCENT :: int where "FONT_DESCENT = -409"
definition FONT_ADVANCE :: int where "FONT_ADVANCE = 851"
definition FONT_LINE :: int where "FONT_LINE = FONT_ASCENT - FONT_DESCENT"
definition FONT_UNDERLINE_Y :: int where "FONT_UNDERLINE_Y = -255"
definition FONT_UNDERLINE_THICKNESS :: int where "FONT_UNDERLINE_THICKNESS = 102"

subsection \<open>Colours\<close>

text \<open>\<open>Number.parseInt(text, 16)\<close>; \<open>None\<close> is NaN.\<close>

definition parse_hex :: "nat list \<Rightarrow> rat option" where
  "parse_hex cs =
     (let t = dropWhile is_space cs;
          neg = (case t of c # _ \<Rightarrow> c = 45 | [] \<Rightarrow> False);
          u = (case t of c # r \<Rightarrow> if c = 45 \<or> c = 43 then r else t | [] \<Rightarrow> []);
          v = (case u of z # x # r \<Rightarrow> if z = 48 \<and> (x = 120 \<or> x = 88) then r else u | _ \<Rightarrow> u);
          ds = takeWhile (\<lambda>c. digit_value c < 16) v
      in if ds = [] then None
         else Some ((if neg then -1 else 1) * js_round (of_nat (digits_value 16 ds))))"

definition js_string :: "string option \<Rightarrow> nat list" where
  "js_string v = map of_char (case v of Some s \<Rightarrow> s | None \<Rightarrow> ''undefined'')"

definition color :: "string option \<Rightarrow> rat list" where
  "color value =
     (let n = (case parse_hex (drop 1 (js_string value)) of Some q \<Rightarrow> to_int32 q | None \<Rightarrow> 0)
      in [js_div (of_int (drop_bit 16 n AND 255)) 255, js_div (of_int (drop_bit 8 n AND 255)) 255,
          js_div (of_int (n AND 255)) 255, 1])"

subsection \<open>State\<close>

record draw =
  d_color :: "rat list"
  d_matrix :: "rat \<times> rat \<times> rat \<times> rat"
  d_count :: nat
  d_offset :: nat

record instances =
  cellData :: "rat list"
  colorData :: "rat list"

datatype canvas_op =
    FillRect "string option" int int int int
  | FillText "string option" bool int nat int int int

datatype painting = Gl instances "draw list" | Canvas "canvas_op list"

record renderer =
  r_model :: model
  cellWidth :: int
  cellHeight :: int
  pixel_ratio :: rat
  dirty :: bool
  r_frame :: nat
  useWebGL :: bool
  has_ctx :: bool
  glyphRanges :: glyph_cache
  canvas_width :: int
  canvas_height :: int
  style_width :: rat
  style_height :: rat
  paintings :: "painting list"

text \<open>
  Reading a cell object: a slot with no object throws, and the properties of \<open>{...undefined}\<close>
  are \<open>undefined\<close>.
\<close>

definition bare_attrs :: attrs where
  "bare_attrs = \<lparr>fg = None, bg = None, bold = False, underline = False, inverse = False, stray = None\<rparr>"

definition slot_view :: "slot \<Rightarrow> (nat option \<times> attrs) completion" where
  "slot_view s = (case s of
       Undefined \<Rightarrow> Inl (TypeError ''Cannot read properties of undefined'')
     | Bare \<Rightarrow> Inr (None, bare_attrs)
     | Cell c \<Rightarrow> Inr (Some (code c), look c))"

fun map_c :: "('a \<Rightarrow> 'b completion) \<Rightarrow> 'a list \<Rightarrow> 'b list completion" where
  "map_c f [] = Inr []"
| "map_c f (x # xs) = bind_c (f x) (\<lambda>y. bind_c (map_c f xs) (\<lambda>ys. Inr (y # ys)))"

definition cell_x :: "model \<Rightarrow> nat \<Rightarrow> int" where
  "cell_x m i = int i mod columns m"

definition cell_y :: "model \<Rightarrow> nat \<Rightarrow> int" where
  "cell_y m i = to_int32 (js_div (of_nat i) (of_int (columns m)))"

definition at_cursor :: "model \<Rightarrow> nat \<Rightarrow> bool" where
  "at_cursor m i \<longleftrightarrow> cursorVisible m \<and> cell_x m i = get_x m \<and> cell_y m i = get_y m"

subsection \<open>\<open>renderWebGL\<close>\<close>

definition typed_set :: "rat list \<Rightarrow> nat \<Rightarrow> rat list \<Rightarrow> rat list completion" where
  "typed_set xs off vs =
     (if off + length vs > length xs then Inl (RangeError ''offset is out of bounds'')
      else Inr (take off xs @ map fround vs @ drop (off + length vs) xs))"

definition underlineTop :: rat where
  "underlineTop = js_div (of_int (FONT_ASCENT - FONT_UNDERLINE_Y)) (of_int FONT_LINE)"

definition underlineHeight :: "int \<Rightarrow> rat" where
  "underlineHeight h =
     max (js_div 1 (of_int h))
         (js_div (of_int (math_round (js_mul (js_div (of_int FONT_UNDERLINE_THICKNESS) (of_int FONT_LINE)) (of_int h))))
                 (of_int h))"

definition background_cell :: "renderer \<Rightarrow> nat \<Rightarrow> attrs \<Rightarrow> instances \<times> nat \<Rightarrow> (instances \<times> nat) completion" where
  "background_cell r i a st =
     (let (d, u) = st; m = r_model r;
          x = of_int (cell_x m i); y = of_int (cell_y m i); cursor = at_cursor m i
      in bind_c (typed_set (cellData d) (i * 4) [x, y, 0, 1]) (\<lambda>cd.
         bind_c (typed_set (colorData d) (i * 4) (color (if cursor then fg a else bg a))) (\<lambda>kd.
         if underline a then
           bind_c (typed_set cd (u * 4) [x, y, underlineTop, underlineHeight (cellHeight r)]) (\<lambda>cd'.
           bind_c (typed_set kd (u * 4) (color (if cursor then bg a else fg a))) (\<lambda>kd'.
           Inr (\<lparr>cellData = cd', colorData = kd'\<rparr>, u + 1)))
         else Inr (\<lparr>cellData = cd, colorData = kd\<rparr>, u))))"

fun background_loop :: "renderer \<Rightarrow> nat \<Rightarrow> attrs list \<Rightarrow> instances \<times> nat \<Rightarrow> (instances \<times> nat) completion" where
  "background_loop r i [] st = Inr st"
| "background_loop r i (a # as) st =
     bind_c (background_cell r i a st) (\<lambda>st'. background_loop r (Suc i) as st')"

definition backgrounds :: "renderer \<Rightarrow> attrs list \<Rightarrow> instances completion" where
  "backgrounds r as =
     (let n = length as + length (filter underline as);
          zero = replicate (n * 4) 0
      in bind_c (background_loop r 0 as (\<lparr>cellData = zero, colorData = zero\<rparr>, length as))
           (\<lambda>(d, u). Inr d))"

text \<open>The range for a cell's code; an \<open>undefined\<close> code passes every comparison and gives glyph 0.\<close>

definition code_range :: "nat option \<Rightarrow> glyph_cache \<Rightarrow> glyph_range option \<times> glyph_cache" where
  "code_range c cache = (case c of Some k \<Rightarrow> glyphRange (int k) cache | None \<Rightarrow> (glf_lookup ! 0, cache))"

definition glyph_scale :: "renderer \<Rightarrow> rat" where
  "glyph_scale r = js_div (of_int (cellHeight r)) (of_int FONT_LINE)"

definition glyph_matrix :: "renderer \<Rightarrow> nat \<Rightarrow> nat \<Rightarrow> rat \<times> rat \<times> rat \<times> rat" where
  "glyph_matrix r i pass =
     (let scale = glyph_scale r; w = of_int (canvas_width r); h = of_int (canvas_height r);
          offsetX = math_round (js_div (js_sub (of_int (cellWidth r)) (js_mul (of_int FONT_ADVANCE) scale)) 2);
          baseline = math_round (js_mul (of_int FONT_ASCENT) scale);
          boldShift = max 1 (math_round (pixel_ratio r));
          px = cell_x (r_model r) i * cellWidth r + offsetX + int pass * boldShift;
          py = cell_y (r_model r) i * cellHeight r + baseline
      in (fround (js_div (js_mul 2 scale) w), fround (js_div (js_mul 2 scale) h),
          fround (js_add (-1) (js_div (js_mul 2 (of_int px)) w)),
          fround (js_sub 1 (js_div (js_mul 2 (of_int py)) h))))"

definition glyph_draws :: "renderer \<Rightarrow> nat \<Rightarrow> attrs \<Rightarrow> glyph_range \<Rightarrow> draw list" where
  "glyph_draws r i a g =
     map (\<lambda>pass. \<lparr>d_color = color (if at_cursor (r_model r) i then bg a else fg a),
                  d_matrix = glyph_matrix r i pass, d_count = len g, d_offset = start g * 4\<rparr>)
         [0..<(if bold a then 2 else 1)]"

fun glyph_loop :: "renderer \<Rightarrow> nat \<Rightarrow> (nat option \<times> attrs) list \<Rightarrow> glyph_cache \<Rightarrow> draw list \<times> glyph_cache" where
  "glyph_loop r i [] cache = ([], cache)"
| "glyph_loop r i ((c, a) # cs) cache =
     (if c = Some 32 then glyph_loop r (Suc i) cs cache
      else let (found, cache1) = code_range c cache;
               (ds, cache2) = glyph_loop r (Suc i) cs cache1
           in ((case found of None \<Rightarrow> [] | Some g \<Rightarrow> glyph_draws r i a g) @ ds, cache2))"

definition renderWebGL :: "renderer \<Rightarrow> (painting \<times> glyph_cache) completion" where
  "renderWebGL r =
     bind_c (map_c slot_view (cells (active (r_model r)))) (\<lambda>views.
     bind_c (backgrounds r (map snd views)) (\<lambda>d.
     let (ds, cache) = glyph_loop r 0 views (glyphRanges r) in Inr (Gl d ds, cache)))"

subsection \<open>\<open>renderCanvas\<close>\<close>

definition canvas_cell :: "renderer \<Rightarrow> nat \<Rightarrow> nat option \<times> attrs \<Rightarrow> canvas_op list completion" where
  "canvas_cell r i v =
     (let (c, a) = v; m = r_model r; w = cellWidth r; h = cellHeight r;
          x = cell_x m i; y = \<lfloor>js_div (of_nat i) (of_int (columns m))\<rfloor>;
          cursor = cursorVisible m \<and> x = get_x m \<and> y = get_y m;
          ascent = math_round (js_div (js_mul (of_int h) (of_int FONT_ASCENT)) (of_int FONT_LINE))
      in case c of
           Some k \<Rightarrow>
             if k > 0x10FFFF then Inl (RangeError ''Invalid code point'')
             else Inr [FillRect (if cursor then fg a else bg a) (x * w) (y * h) w h,
                       FillText (if cursor then bg a else fg a) (bold a)
                         (math_round (js_mul (of_int h) (js_round (4 / 5)))) k (x * w) (y * h + ascent) w]
         | None \<Rightarrow> Inl (RangeError ''Invalid code point undefined''))"

fun canvas_loop :: "renderer \<Rightarrow> nat \<Rightarrow> slot list \<Rightarrow> canvas_op list completion" where
  "canvas_loop r i [] = Inr []"
| "canvas_loop r i (s # ss) =
     bind_c (slot_view s) (\<lambda>v. bind_c (canvas_cell r i v) (\<lambda>ops.
     bind_c (canvas_loop r (Suc i) ss) (\<lambda>rest. Inr (ops @ rest))))"

definition renderCanvas :: "renderer \<Rightarrow> painting completion" where
  "renderCanvas r =
     (if \<not> has_ctx r then Inr (Canvas [])
      else bind_c (canvas_loop r 0 (cells (active (r_model r)))) (\<lambda>ops. Inr (Canvas ops)))"

subsection \<open>\<open>render\<close>, \<open>markDirty\<close> and \<open>resize\<close>\<close>

definition paint :: "renderer \<Rightarrow> (painting \<times> glyph_cache) completion" where
  "paint r = (if useWebGL r then renderWebGL r
              else bind_c (renderCanvas r) (\<lambda>p. Inr (p, glyphRanges r)))"

text \<open>A method that may throw returns the error, if any, with the state it leaves behind.\<close>

definition render :: "renderer \<Rightarrow> js_error option \<times> renderer" where
  "render r =
     (if \<not> dirty r then (None, r)
      else let r1 = r\<lparr>dirty := False\<rparr>
           in case paint r1 of
                Inl e \<Rightarrow> (Some e, r1)
              | Inr (p, cache) \<Rightarrow> (None, r1\<lparr>glyphRanges := cache, paintings := paintings r @ [p]\<rparr>))"

text \<open>
  \<open>raf\<close> is the handle that \<open>requestAnimationFrame\<close> returns, \<open>None\<close> where the function does not
  exist. The second component tells whether a callback was requested.
\<close>

definition markDirty :: "nat option \<Rightarrow> renderer \<Rightarrow> js_error option \<times> bool \<times> renderer" where
  "markDirty raf r =
     (let r1 = r\<lparr>dirty := True\<rparr>
      in case raf of
           None \<Rightarrow> (let (e, r2) = render r1 in (e, False, r2))
         | Some h \<Rightarrow> if r_frame r1 \<noteq> 0 then (None, False, r1) else (None, True, r1\<lparr>r_frame := h\<rparr>))"

definition frame_callback :: "renderer \<Rightarrow> js_error option \<times> renderer" where
  "frame_callback r = render (r\<lparr>r_frame := 0\<rparr>)"

record padding =
  p_left :: rat
  p_right :: rat
  p_top :: rat
  p_bottom :: rat

record viewport =
  devicePixelRatio :: "rat option"
  container :: "(rat \<times> rat \<times> padding) option"

definition cell_size :: "viewport \<Rightarrow> int \<Rightarrow> int \<Rightarrow> int \<times> int" where
  "cell_size v cols rws =
     (let ratio = (case devicePixelRatio v of Some q \<Rightarrow> q | None \<Rightarrow> 1);
          available = (case container v of
              Some (w, _, p) \<Rightarrow> js_sub (js_sub w (p_left p)) (p_right p) | None \<Rightarrow> 0);
          availableHeight = (case container v of
              Some (_, h, p) \<Rightarrow> js_sub (js_sub h (p_top p)) (p_bottom p) | None \<Rightarrow> 0);
          cssWidth = (if available > 0 then available else of_int (cols * 8));
          widthCell = \<lfloor>js_div (js_mul cssWidth ratio) (of_int cols)\<rfloor>;
          heightCell = (if availableHeight > 0
            then \<lfloor>js_div (js_mul (js_div (js_mul availableHeight ratio) (of_int rws)) (of_int FONT_ADVANCE))
                         (of_int FONT_LINE)\<rfloor>
            else widthCell);
          cw = max 4 (min widthCell heightCell);
          ch = max 8 (math_round (js_div (js_mul (of_int cw) (of_int FONT_LINE)) (of_int FONT_ADVANCE)))
      in (cw, ch))"

definition resize_renderer :: "viewport \<Rightarrow> renderer \<Rightarrow> js_error option \<times> renderer" where
  "resize_renderer v r =
     (let ratio = (case devicePixelRatio v of Some q \<Rightarrow> q | None \<Rightarrow> 1); m = r_model r;
          (cw, ch) = cell_size v (columns m) (rows m);
          width = cw * columns m; height = ch * rows m
      in render (r\<lparr>pixel_ratio := ratio, cellWidth := cw, cellHeight := ch,
           canvas_width := width, canvas_height := height,
           style_width := js_div (of_int width) ratio, style_height := js_div (of_int height) ratio,
           dirty := True\<rparr>))"

subsection \<open>Construction\<close>

text \<open>
  What the graphics context answers: whether \<open>getContext\<close> throws or returns a context, and the
  compile and link status with the info logs.
\<close>

record gl_status =
  webgl2 :: "bool completion"
  context2d :: bool
  vertex_log :: "string option"
  fragment_log :: "string option"
  link_log :: "string option"

definition compile :: "string option \<Rightarrow> unit completion" where
  "compile status = (case status of
       None \<Rightarrow> Inr ()
     | Some message \<Rightarrow> Inl (Error (if message = [] then ''terminal shader compilation failed'' else message)))"

definition link :: "gl_status \<Rightarrow> unit completion" where
  "link s =
     bind_c (compile (vertex_log s)) (\<lambda>_. bind_c (compile (fragment_log s)) (\<lambda>_.
       case link_log s of
         None \<Rightarrow> Inr ()
       | Some message \<Rightarrow> Inl (Error (if message = [] then ''terminal program link failed'' else message))))"

text \<open>\<open>initWebGL\<close> links the glyph program, then the background program.\<close>

definition initWebGL :: "gl_status \<Rightarrow> gl_status \<Rightarrow> unit completion" where
  "initWebGL glyph background = bind_c (link glyph) (\<lambda>_. link background)"

definition init :: "gl_status \<Rightarrow> gl_status \<Rightarrow> viewport \<Rightarrow> renderer \<Rightarrow> js_error option \<times> renderer" where
  "init glyph background v r =
     (let gl = (case webgl2 glyph of Inr b \<Rightarrow> b | Inl _ \<Rightarrow> False);
          ok = (gl \<and> (case initWebGL glyph background of Inr _ \<Rightarrow> True | Inl _ \<Rightarrow> False))
      in resize_renderer v (r\<lparr>useWebGL := ok, has_ctx := (\<not> ok \<and> context2d glyph)\<rparr>))"

definition new_renderer :: "gl_status \<Rightarrow> gl_status \<Rightarrow> viewport \<Rightarrow> model \<Rightarrow> js_error option \<times> renderer" where
  "new_renderer glyph background v m =
     init glyph background v
       \<lparr>r_model = m, cellWidth = 8, cellHeight = 19, pixel_ratio = 1, dirty = True, r_frame = 0,
        useWebGL = False, has_ctx = False, glyphRanges = Map.empty, canvas_width = 300, canvas_height = 150,
        style_width = 0, style_height = 0, paintings = []\<rparr>"

end
