(* ===== verification/Renderer_Props.thy ===== *)
theory Renderer_Props
  imports Renderer Terminal_Props
begin

text \<open>
  What the renderer draws and when: painting a well-formed screen never fails and sends, for
  every cell, one background instance, one underline instance where the cell is underlined, and
  one or two draws of a glyph range inside the index buffer; the cursor's cell is drawn with its
  colours exchanged; the size of a cell; and the coalescing of repaints, as reachability over a
  step relation.
\<close>

subsection \<open>Division of small integers\<close>

lemma floor_js_div:
  assumes "0 \<le> a" "a < 2 ^ 53" "0 < b" "b < 2 ^ 63"
  shows "\<lfloor>js_div (of_int a) (of_int b)\<rfloor> = a div b"
proof (cases "b dvd a")
  case True
  then obtain k where k: "a = b * k" ..
  have "0 \<le> k" "k \<le> a" using assms k by (auto simp: zero_le_mult_iff mult_le_cancel_right1)
  then have "js_round (of_int k) = of_int k" using assms by (intro js_round_of_int_small) simp
  then show ?thesis using assms k by (simp add: js_div_def)
next
  case False
  define q where "q = of_int a / (of_int b :: rat)"
  define n where "n = a div b"
  have pos: "1 \<le> a" using False assms(1) by (cases "a = 0") auto
  have "(of_int b :: rat) < of_int (2 ^ 63)" using assms(4) by (simp only: of_int_less_iff)
  then have "of_int b \<le> (2 ^ 64 :: rat)" by simp
  then have "1 / 2 ^ 64 \<le> 1 / (of_int b :: rat)" using assms(3) by (simp add: frac_le)
  also have "\<dots> \<le> q" using pos assms(3) by (simp add: q_def divide_right_mono)
  finally have err: "\<bar>js_round q - q\<bar> \<le> q / 2 ^ 53" by (rule js_round_error)
  have "(of_int a :: rat) < of_int (2 ^ 53)" using assms(2) by (simp only: of_int_less_iff)
  then have small: "q / 2 ^ 53 < 1 / of_int b"
    using assms(3) by (simp add: q_def divide_strict_right_mono field_simps)
  have "a = b * n + a mod b" "0 < a mod b" "a mod b < b"
    using False assms(3) pos_mod_sign [of b a] pos_mod_bound [of b a] by (auto simp: n_def dvd_eq_mod_eq_0 order.not_eq_order_implies_strict)
  then have ab: "b * n + 1 \<le> a" "a + 1 \<le> b * (n + 1)" by (simp_all add: distrib_left)
  have "(of_int (b * n + 1) :: rat) \<le> of_int a" "(of_int (a + 1) :: rat) \<le> of_int (b * (n + 1))"
    using ab by (simp_all only: of_int_le_iff)
  then have "of_int (b * n + 1) / of_int b \<le> q" "of_int (a + 1) / of_int b \<le> (of_int (b * (n + 1)) / of_int b :: rat)"
    using assms(3) unfolding q_def by (intro divide_right_mono; simp)+
  then have lo: "of_int n + 1 / of_int b \<le> q" and hi: "q + 1 / of_int b \<le> of_int n + 1"
    using assms(3) by (simp_all add: q_def add_divide_distrib)
  show ?thesis
    unfolding js_div_def q_def [symmetric] n_def [symmetric]
  proof (rule floor_unique)
    show "of_int n \<le> js_round q" using err small lo by linarith
    show "js_round q < of_int n + 1" using err small hi by linarith
  qed
qed

lemma wf_cell_position:
  assumes "wf m" and "i < length (cells (active m))"
  shows "cell_x m i = int i mod columns m" and "cell_y m i = int i div columns m"
proof -
  have b: "1 \<le> columns m" "columns m < 2 ^ 31" "rows m < 2 ^ 31" "int i < columns m * rows m"
    "columns m * rows m \<le> 2 ^ 32 - 1"
    using assms by (auto simp: wf_def wf_size_def wf_screen_def active_def split: if_splits)
  have "\<lfloor>js_div (of_int (int i)) (of_int (columns m))\<rfloor> = int i div columns m"
    using b by (intro floor_js_div) simp_all
  then have f: "\<lfloor>js_div (of_nat i) (of_int (columns m))\<rfloor> = int i div columns m" by simp
  have "0 \<le> int i div columns m" using b by (simp add: pos_imp_zdiv_nonneg_iff)
  moreover have "columns m * (int i div columns m) \<le> int i"
    using b mult_div_mod_eq [of "columns m" "int i"] pos_mod_sign [of "columns m" "int i"] by linarith
  then have "columns m * (int i div columns m) < columns m * rows m" using b by linarith
  then have "int i div columns m < rows m" using b by simp
  moreover have "0 \<le> js_div (of_nat i) (of_int (columns m))"
    using f calculation(1) by (metis zero_le_floor)
  ultimately show "cell_y m i = int i div columns m"
    using b f by (simp add: cell_y_def to_int32_def rat_trunc_def)
qed (simp add: cell_x_def)

subsection \<open>Background and underline instances\<close>

lemma typed_set_append:
  assumes "off = length as" and "length bs = length vs"
  shows "typed_set (as @ bs @ cs) off vs = Inr (as @ map fround vs @ cs)"
  using assms by (simp add: typed_set_def)

lemma length_color [simp]: "length (color v) = 4"
  by (simp add: color_def Let_def)

definition place :: "renderer \<Rightarrow> nat \<Rightarrow> rat list" where
  "place r i = [of_int (cell_x (r_model r) i), of_int (cell_y (r_model r) i)]"

definition cell_entry :: "renderer \<Rightarrow> nat \<times> attrs \<Rightarrow> rat list" where
  "cell_entry r = (\<lambda>(i, a). map fround (place r i @ [0, 1]))"

definition cell_colour :: "renderer \<Rightarrow> nat \<times> attrs \<Rightarrow> rat list" where
  "cell_colour r = (\<lambda>(i, a). map fround (color (if at_cursor (r_model r) i then fg a else bg a)))"

definition line_entry :: "renderer \<Rightarrow> nat \<times> attrs \<Rightarrow> rat list" where
  "line_entry r = (\<lambda>(i, a). map fround (place r i @ [underlineTop, underlineHeight (cellHeight r)]))"

definition line_colour :: "renderer \<Rightarrow> nat \<times> attrs \<Rightarrow> rat list" where
  "line_colour r = (\<lambda>(i, a). map fround (color (if at_cursor (r_model r) i then bg a else fg a)))"

definition underlined :: "nat \<Rightarrow> attrs list \<Rightarrow> (nat \<times> attrs) list" where
  "underlined i as = filter (\<lambda>(i, a). underline a) (enumerate i as)"

lemma length_underlined: "length (underlined i as) = length (filter underline as)"
  by (induction as arbitrary: i) (auto simp: underlined_def)

lemma split4: "length B = 4 * Suc n \<Longrightarrow> \<exists>B1 B2. B = B1 @ B2 \<and> length B1 = 4 \<and> length B2 = 4 * n"
  by (rule exI [of _ "take 4 B"], rule exI [of _ "drop 4 B"]) simp

lemma background_cell_plain:
  assumes "length P = 4 * i" "length P' = 4 * i" "length B1 = 4" "length B1' = 4" "\<not> underline a"
  shows "background_cell r i a (\<lparr>cellData = P @ B1 @ T, colorData = P' @ B1' @ T'\<rparr>, u)
       = Inr (\<lparr>cellData = P @ cell_entry r (i, a) @ T, colorData = P' @ cell_colour r (i, a) @ T'\<rparr>, u)"
  using assms
  by (simp add: background_cell_def Let_def typed_set_append cell_entry_def cell_colour_def place_def)

lemma background_cell_line:
  assumes "length P = 4 * i" "length P' = 4 * i" "length B1 = 4" "length B1' = 4" "underline a"
    and "length (P @ B1 @ M) = 4 * u" "length (P' @ B1' @ M') = 4 * u" "length U1 = 4" "length U1' = 4"
  shows "background_cell r i a (\<lparr>cellData = P @ B1 @ M @ U1 @ T, colorData = P' @ B1' @ M' @ U1' @ T'\<rparr>, u)
       = Inr (\<lparr>cellData = P @ cell_entry r (i, a) @ M @ line_entry r (i, a) @ T,
               colorData = P' @ cell_colour r (i, a) @ M' @ line_colour r (i, a) @ T'\<rparr>, u + 1)"
proof -
  have o: "u * 4 = length (P @ cell_entry r (i, a) @ M)" "u * 4 = length (P' @ cell_colour r (i, a) @ M')"
    using assms by (simp_all add: cell_entry_def cell_colour_def place_def)
  have "typed_set (P @ cell_entry r (i, a) @ M @ U1 @ T) (u * 4) v
      = Inr (P @ cell_entry r (i, a) @ M @ map fround v @ T)" if "length v = 4" for v
    using typed_set_append [OF o(1), of U1 v T] that assms(8) by (simp only: append_assoc)
  moreover have "typed_set (P' @ cell_colour r (i, a) @ M' @ U1' @ T') (u * 4) v
      = Inr (P' @ cell_colour r (i, a) @ M' @ map fround v @ T')" if "length v = 4" for v
    using typed_set_append [OF o(2), of U1' v T'] that assms(9) by (simp only: append_assoc)
  ultimately show ?thesis
    using assms
    by (simp add: background_cell_def Let_def typed_set_append cell_entry_def cell_colour_def
        line_entry_def line_colour_def place_def)
qed

lemma background_loop_closed:
  assumes "length P = 4 * i" "length P' = 4 * i" "length B = 4 * length as" "length B' = 4 * length as"
    and "length (P @ B @ Q) = 4 * u" "length (P' @ B' @ Q') = 4 * u"
    and "length U = 4 * length (underlined i as)" "length U' = 4 * length (underlined i as)"
  shows "background_loop r i as (\<lparr>cellData = P @ B @ Q @ U, colorData = P' @ B' @ Q' @ U'\<rparr>, u)
       = Inr (\<lparr>cellData = P @ concat (map (cell_entry r) (enumerate i as)) @ Q @ concat (map (line_entry r) (underlined i as)),
               colorData = P' @ concat (map (cell_colour r) (enumerate i as)) @ Q' @ concat (map (line_colour r) (underlined i as))\<rparr>,
              u + length (underlined i as))"
  using assms
proof (induction as arbitrary: i P P' B B' Q Q' U U' u)
  case Nil
  then show ?case by (simp add: underlined_def)
next
  case (Cons a as)
  obtain B1 B2 where B: "B = B1 @ B2" "length B1 = 4" "length B2 = 4 * length as"
    using Cons.prems(3) split4 [of B "length as"] by auto
  obtain B1' B2' where B': "B' = B1' @ B2'" "length B1' = 4" "length B2' = 4 * length as"
    using Cons.prems(4) split4 [of B' "length as"] by auto
  have e: "length (cell_entry r (i, a)) = 4" "length (cell_colour r (i, a)) = 4"
    "length (line_entry r (i, a)) = 4" "length (line_colour r (i, a)) = 4"
    by (simp_all add: cell_entry_def cell_colour_def line_entry_def line_colour_def place_def)
  show ?case
  proof (cases "underline a")
    case False
    then have u: "underlined i (a # as) = underlined (Suc i) as" by (simp add: underlined_def)
    note step = background_cell_plain [OF Cons.prems(1,2) B(2) B'(2) False, of r "B2 @ Q @ U" "B2' @ Q' @ U'" u]
    show ?thesis
      using Cons.IH [of "P @ cell_entry r (i, a)" "Suc i" "P' @ cell_colour r (i, a)" B2 B2' Q u Q' U U']
        Cons.prems B B' e step u by simp
  next
    case True
    then have u: "underlined i (a # as) = (i, a) # underlined (Suc i) as" by (simp add: underlined_def)
    obtain U1 U2 where U: "U = U1 @ U2" "length U1 = 4" "length U2 = 4 * length (underlined (Suc i) as)"
      using Cons.prems(7) split4 [of U "length (underlined (Suc i) as)"] u by auto
    obtain U1' U2' where U': "U' = U1' @ U2'" "length U1' = 4" "length U2' = 4 * length (underlined (Suc i) as)"
      using Cons.prems(8) split4 [of U' "length (underlined (Suc i) as)"] u by auto
    note step = background_cell_line [OF Cons.prems(1,2) B(2) B'(2) True, of "B2 @ Q" u "B2' @ Q'" U1 U1' r U2 U2']
    show ?thesis
      using Cons.IH [of "P @ cell_entry r (i, a)" "Suc i" "P' @ cell_colour r (i, a)" B2 B2'
          "Q @ line_entry r (i, a)" "Suc u" "Q' @ line_colour r (i, a)" U2 U2']
        Cons.prems B B' U U' e step u by simp
  qed
qed

lemma backgrounds_closed:
  "backgrounds r as = Inr
     \<lparr>cellData = concat (map (cell_entry r) (enumerate 0 as)) @ concat (map (line_entry r) (underlined 0 as)),
      colorData = concat (map (cell_colour r) (enumerate 0 as)) @ concat (map (line_colour r) (underlined 0 as))\<rparr>"
proof -
  let ?n = "length as" and ?k = "length (underlined 0 as)"
  have z: "replicate ((?n + ?k) * 4) (0::rat) = [] @ replicate (4 * ?n) 0 @ [] @ replicate (4 * ?k) 0"
    by (simp add: replicate_add [symmetric] algebra_simps)
  show ?thesis
    unfolding backgrounds_def Let_def length_underlined [of 0 as, symmetric] z
    using background_loop_closed [of "[]" 0 "[]" "replicate (4 * ?n) 0" as "replicate (4 * ?n) 0" "[]" ?n "[]"
        "replicate (4 * ?k) 0" "replicate (4 * ?k) 0" r]
    by simp
qed


subsection \<open>Glyph draws\<close>

definition cell_draws :: "renderer \<Rightarrow> nat \<times> nat option \<times> attrs \<Rightarrow> draw list" where
  "cell_draws r = (\<lambda>(i, c, a).
     case c of
       None \<Rightarrow> []
     | Some k \<Rightarrow> if k = 32 then [] else (case find_range (int k) of None \<Rightarrow> [] | Some g \<Rightarrow> glyph_draws r i a g))"

lemma cell_draws_Some:
  "cell_draws r (i, Some k, a) =
     (if k = 32 then [] else case find_range (int k) of None \<Rightarrow> [] | Some g \<Rightarrow> glyph_draws r i a g)"
  by (simp add: cell_draws_def)

lemma glyph_loop_closed:
  assumes "coherent cache" and "list_all (\<lambda>(c, a). c \<noteq> None) vs"
  shows "fst (glyph_loop r i vs cache) = concat (map (cell_draws r) (enumerate i vs))"
    and "coherent (snd (glyph_loop r i vs cache))"
proof -
  have "fst (glyph_loop r i vs cache) = concat (map (cell_draws r) (enumerate i vs)) \<and>
      coherent (snd (glyph_loop r i vs cache))"
    using assms
  proof (induction vs arbitrary: i cache)
    case (Cons v vs)
    obtain k a where v: "v = (Some k, a)" using Cons.prems(2) by (cases v) auto
    obtain cache1 where g: "glyphRange (int k) cache = (find_range (int k), cache1)" and co: "coherent cache1"
      using glyphRange_coherent [OF Cons.prems(1), of "int k"] by (cases "glyphRange (int k) cache") auto
    have vs: "list_all (\<lambda>(c, a). c \<noteq> None) vs" using Cons.prems(2) by simp
    show ?case
      using Cons.IH [OF Cons.prems(1) vs, of "Suc i"] Cons.IH [OF co vs, of "Suc i"] g
      by (cases "k = 32") (simp_all add: v cell_draws_Some code_range_def case_prod_unfold)
  qed simp
  then show "fst (glyph_loop r i vs cache) = concat (map (cell_draws r) (enumerate i vs))"
    and "coherent (snd (glyph_loop r i vs cache))" by simp_all
qed

definition in_buffer :: "draw \<Rightarrow> bool" where
  "in_buffer d \<longleftrightarrow> 4 dvd d_offset d \<and> d_offset d div 4 + d_count d \<le> idx_count \<and> 3 dvd d_count d \<and> 0 < d_count d"

lemma cell_draws_in_buffer: "list_all in_buffer (cell_draws r v)"
proof -
  have "list_all in_buffer (glyph_draws r i a g)" if "find_range k = Some g" for i a g k
    using find_range_tiles [OF that] by (simp add: glyph_draws_def in_buffer_def list_all_iff)
  then show ?thesis by (auto simp: cell_draws_def split: prod.splits option.splits)
qed

lemma cell_draws_count:
  "length (cell_draws r (i, Some k, a)) = (if k = 32 \<or> k = 160 then 0 else if bold a then 2 else 1)"
  using find_range_None [of "int k"]
  by (auto simp: cell_draws_def glyph_draws_def split: option.split)

subsection \<open>Painting a well-formed screen\<close>

definition views :: "model \<Rightarrow> (nat option \<times> attrs) list" where
  "views m = map (\<lambda>s. case s of Cell c \<Rightarrow> (Some (code c), look c) | _ \<Rightarrow> (None, bare_attrs)) (cells (active m))"

lemma wf_active_slots: "wf m \<Longrightarrow> s \<in> set (cells (active m)) \<Longrightarrow> wf_slot s"
  by (auto simp: wf_def wf_screen_def active_def list_all_iff split: if_splits)

lemma map_c_views:
  assumes "\<And>s. s \<in> set ss \<Longrightarrow> wf_slot s"
  shows "map_c slot_view ss = Inr (map (\<lambda>s. case s of Cell c \<Rightarrow> (Some (code c), look c) | _ \<Rightarrow> (None, bare_attrs)) ss)"
  using assms
proof (induction ss)
  case (Cons s ss)
  then have "wf_slot s" by simp
  then show ?case using Cons by (cases s) (auto simp: slot_view_def wf_slot_def)
qed simp

lemma views_codes:
  assumes "wf m"
  shows "list_all (\<lambda>(c, a). c \<noteq> None) (views m)"
proof -
  have "\<exists>c. s = Cell c" if "s \<in> set (cells (active m))" for s
    using wf_active_slots [OF assms that] by (cases s) (simp_all add: wf_slot_def)
  then show ?thesis by (fastforce simp: views_def list_all_iff)
qed

lemma renderWebGL_closed:
  assumes "wf (r_model r)" and "coherent (glyphRanges r)"
  shows "\<exists>cache. coherent cache \<and> renderWebGL r = Inr (Gl
     \<lparr>cellData = concat (map (cell_entry r) (enumerate 0 (map snd (views (r_model r)))))
        @ concat (map (line_entry r) (underlined 0 (map snd (views (r_model r))))),
      colorData = concat (map (cell_colour r) (enumerate 0 (map snd (views (r_model r)))))
        @ concat (map (line_colour r) (underlined 0 (map snd (views (r_model r)))))\<rparr>
     (concat (map (cell_draws r) (enumerate 0 (views (r_model r))))), cache)"
proof -
  note v = views_codes [OF assms(1)]
  note g = glyph_loop_closed [OF assms(2) v, of r 0]
  have "map_c slot_view (cells (active (r_model r))) = Inr (views (r_model r))"
    unfolding views_def by (rule map_c_views) (rule wf_active_slots [OF assms(1)])
  then show ?thesis
    using g by (auto simp: renderWebGL_def backgrounds_closed split: prod.splits)
qed


lemma canvas_loop_total:
  assumes "\<And>s. s \<in> set ss \<Longrightarrow> wf_slot s"
  shows "\<exists>ops. canvas_loop r i ss = Inr ops"
  using assms
proof (induction ss arbitrary: i)
  case (Cons s ss)
  obtain c where s: "s = Cell c" "wf_cell c"
    using Cons.prems [of s] by (cases s) (auto simp: wf_slot_def)
  moreover obtain ops where "canvas_loop r (Suc i) ss = Inr ops" using Cons by auto
  ultimately show ?case
    by (auto simp: slot_view_def canvas_cell_def Let_def wf_cell_def)
qed simp

lemma paint_total:
  assumes "wf (r_model r)" and "coherent (glyphRanges r)"
  shows "\<exists>p cache. paint r = Inr (p, cache) \<and> coherent cache"
proof -
  obtain ops where "canvas_loop r 0 (cells (active (r_model r))) = Inr ops"
    using canvas_loop_total wf_active_slots [OF assms(1)] by blast
  then show ?thesis using renderWebGL_closed [OF assms] assms(2)
    by (auto simp: paint_def renderCanvas_def)
qed

lemma render_coherent:
  assumes "coherent (glyphRanges r)" and "wf (r_model r)" and "dirty r"
  shows "\<exists>p. render r = (None, (snd (render r))) \<and> paintings (snd (render r)) = paintings r @ [p] \<and>
      (\<exists>cache. paint (r\<lparr>dirty := False\<rparr>) = Inr (p, cache))"
  using paint_total [of "r\<lparr>dirty := False\<rparr>"] assms by (auto simp: render_def)

lemma render_frame [simp]:
  "dirty (snd (render r)) = False" "r_frame (snd (render r)) = r_frame r" "r_model (snd (render r)) = r_model r"
  "useWebGL (snd (render r)) = useWebGL r" "cellWidth (snd (render r)) = cellWidth r"
  "cellHeight (snd (render r)) = cellHeight r" "canvas_width (snd (render r)) = canvas_width r"
  "canvas_height (snd (render r)) = canvas_height r"
  by (simp_all add: render_def Let_def split: sum.split prod.split)


subsection \<open>Repainting as a step relation\<close>

lemma glyph_loop_coherent:
  "coherent cache \<Longrightarrow> coherent (snd (glyph_loop r i vs cache))"
proof (induction vs arbitrary: i cache)
  case (Cons v vs)
  obtain c a where v: "v = (c, a)" by (cases v)
  have "coherent (snd (code_range c cache))"
    using Cons.prems glyphRange_coherent(2) by (cases c) (simp_all add: code_range_def)
  then show ?case using Cons by (simp add: v case_prod_unfold Let_def)
qed simp

lemma render_keeps_coherent: "coherent (glyphRanges r) \<Longrightarrow> coherent (glyphRanges (snd (render r)))"
  using glyph_loop_coherent [of "glyphRanges r"]
  by (auto simp: render_def paint_def renderWebGL_def renderCanvas_def Let_def case_prod_unfold
      split: sum.split elim!: bind_c_InrE)

text \<open>
  The page around the renderer: \<open>callbacks\<close> counts the animation-frame callbacks that the browser
  still has to run. The application shows a new model state and calls \<open>markDirty\<close>, the browser
  runs a callback, or the container changes its size.
\<close>

record page =
  shown :: renderer
  callbacks :: nat

inductive page_step :: "page \<Rightarrow> page \<Rightarrow> bool" where
  update: "h \<noteq> 0 \<Longrightarrow> markDirty (Some h) (r\<lparr>r_model := m\<rparr>) = (e, asked, r') \<Longrightarrow>
     page_step \<lparr>shown = r, callbacks = n\<rparr> \<lparr>shown = r', callbacks = (if asked then Suc n else n)\<rparr>"
| fire: "frame_callback r = (e, r') \<Longrightarrow>
     page_step \<lparr>shown = r, callbacks = Suc n\<rparr> \<lparr>shown = r', callbacks = n\<rparr>"
| resized: "resize_renderer v r = (e, r') \<Longrightarrow>
     page_step \<lparr>shown = r, callbacks = n\<rparr> \<lparr>shown = r', callbacks = n\<rparr>"

inductive page_reachable :: "page \<Rightarrow> bool" where
  start: "new_renderer glyph background v m = (e, r) \<Longrightarrow> page_reachable \<lparr>shown = r, callbacks = 0\<rparr>"
| step: "page_reachable p \<Longrightarrow> page_step p p' \<Longrightarrow> page_reachable p'"

inductive_cases page_stepE: "page_step p p'"

definition page_inv :: "page \<Rightarrow> bool" where
  "page_inv p \<longleftrightarrow>
     callbacks p = (if r_frame (shown p) = 0 then 0 else 1) \<and>
     (dirty (shown p) \<longrightarrow> r_frame (shown p) \<noteq> 0) \<and> coherent (glyphRanges (shown p))"

lemma render_eqD: "render r = (e, r') \<Longrightarrow> r' = snd (render r)"
  by simp

lemma resize_renderer_frame:
  assumes "resize_renderer v r = (e, r')"
  shows "\<not> dirty r' \<and> r_frame r' = r_frame r \<and> r_model r' = r_model r \<and>
    (coherent (glyphRanges r) \<longrightarrow> coherent (glyphRanges r'))"
proof -
  obtain r1 where r1: "r' = snd (render r1)" "r_frame r1 = r_frame r" "r_model r1 = r_model r" "glyphRanges r1 = glyphRanges r"
    using assms by (auto simp: resize_renderer_def Let_def split: prod.splits dest!: render_eqD)
  then show ?thesis using render_keeps_coherent [of r1] by simp
qed

lemma page_step_inv:
  assumes "page_step p p'" and "page_inv p"
  shows "page_inv p'"
  using assms(1)
proof cases
  case (update h r m e asked r' n)
  then show ?thesis using assms(2)
    by (auto simp: page_inv_def markDirty_def Let_def split: if_splits)
next
  case (fire r e r' n)
  have "r' = snd (render (r\<lparr>r_frame := 0\<rparr>))" using fire by (auto simp: frame_callback_def dest: render_eqD)
  then show ?thesis using fire assms(2) render_keeps_coherent [of "r\<lparr>r_frame := 0\<rparr>"]
    by (auto simp: page_inv_def split: if_splits)
next
  case (resized v r e r' n)
  from resize_renderer_frame [OF resized(3)] show ?thesis
    using resized assms(2) by (simp add: page_inv_def)
qed

lemma page_reachable_inv: "page_reachable p \<Longrightarrow> page_inv p"
proof (induction rule: page_reachable.induct)
  case (start glyph background v m e r)
  then obtain r0 where r0: "resize_renderer v r0 = (e, r)" "r_frame r0 = 0" "coherent (glyphRanges r0)"
    by (auto simp: new_renderer_def init_def Let_def)
  from resize_renderer_frame [OF r0(1)] show ?case using r0 by (simp add: page_inv_def)
qed (rule page_step_inv)


subsection \<open>Colours\<close>

lemma hex_digit_values:
  "list_all (\<lambda>d. digit_value (of_char (hex_digit d)) = nat d) [0..15]"
  by code_simp

lemma hex_digit_value: "0 \<le> d \<Longrightarrow> d < 16 \<Longrightarrow> digit_value (of_char (hex_digit d)) = nat d"
  using hex_digit_values by (simp add: list_all_iff)

lemma digit_value_not_space: "digit_value c < 16 \<Longrightarrow> \<not> is_space c \<and> c \<noteq> 45 \<and> c \<noteq> 43 \<and> c \<noteq> 120 \<and> c \<noteq> 88"
  by (cases "48 \<le> c \<and> c \<le> 57"; cases "97 \<le> c \<and> c \<le> 122"; cases "65 \<le> c \<and> c \<le> 90")
    (auto simp: digit_value_def is_space_def)

lemma parse_hex_digits:
  assumes "ds \<noteq> []" and "list_all (\<lambda>c. digit_value c < 16) ds" and "digits_value 16 ds < 2 ^ 31"
  shows "parse_hex ds = Some (of_nat (digits_value 16 ds))"
proof -
  have n: "\<not> is_space c \<and> c \<noteq> 45 \<and> c \<noteq> 43 \<and> c \<noteq> 120 \<and> c \<noteq> 88" if "c \<in> set ds" for c
    using assms(2) that by (intro digit_value_not_space) (simp add: list_all_iff)
  have "dropWhile is_space ds = ds" using n assms(1) by (cases ds) auto
  moreover have "takeWhile (\<lambda>c. digit_value c < 16) ds = ds"
    using assms(2) by (simp add: takeWhile_eq_all_conv list_all_iff)
  moreover have "js_round (of_nat (digits_value 16 ds)) = of_nat (digits_value 16 ds)"
    using js_round_of_int_small [of "int (digits_value 16 ds)"] assms(3) by simp
  moreover have "(case ds of c # r \<Rightarrow> c = 45 | [] \<Rightarrow> False) = False"
    "(case ds of c # r \<Rightarrow> if c = 45 \<or> c = 43 then r else ds | [] \<Rightarrow> []) = ds"
    "(case ds of z # x # r \<Rightarrow> if z = 48 \<and> (x = 120 \<or> x = 88) then r else ds | _ \<Rightarrow> ds) = ds"
    using n by (auto split: list.split)
  ultimately show ?thesis using assms(1) unfolding parse_hex_def Let_def by (simp only: if_False) simp
qed

lemma color_channels:
  assumes "0 \<le> r" "r < 256" "0 \<le> g" "g < 256" "0 \<le> b" "b < (256::int)"
  defines "n \<equiv> r * 65536 + g * 256 + b"
  shows "drop_bit 16 n AND 255 = r" "drop_bit 8 n AND 255 = g" "n AND 255 = b"
proof -
  have m: "x AND 255 = x mod 256" for x :: int
    using take_bit_eq_mask [of 8 x] by (simp add: take_bit_eq_mod mask_eq_exp_minus_1)
  have n: "n = b + (g + r * 256) * 256" "n = (b + g * 256) + r * 65536" by (simp_all add: n_def)
  have "n div 65536 = r" "n div 256 = g + r * 256"
    using assms(1-6) by (subst n, simp)+
  moreover have "n mod 256 = b" unfolding n(1) mod_mult_self1 using assms(1-6) by simp
  ultimately show "drop_bit 16 n AND 255 = r" "drop_bit 8 n AND 255 = g" "n AND 255 = b"
    using assms(1-6) by (simp_all add: m drop_bit_eq_div)
qed


lemma hex_pairs:
  assumes "r1 * 16 + r0 = r" "g1 * 16 + g0 = g" "b1 * 16 + b0 = (b::int)"
  shows "((((r1 * 16 + r0) * 16 + g1) * 16 + g0) * 16 + b1) * 16 + b0 = r * 65536 + g * 256 + b"
  unfolding assms [symmetric] by simp

text \<open>
  The colour string that the terminal model builds from three channels is read back by the
  renderer as exactly these channels, scaled to the unit interval, with full opacity.
\<close>

theorem color_reads_rgb:
  assumes "0 \<le> r" "r < 256" "0 \<le> g" "g < 256" "0 \<le> b" "b < 256"
  shows "color (Some (rgb (of_int r) (of_int g) (of_int b)))
       = [js_div (of_int r) 255, js_div (of_int g) 255, js_div (of_int b) 255, 1]"
proof -
  define ds where "ds = [r div 16, r mod 16, g div 16, g mod 16, b div 16, b mod 16]"
  define cs where "cs = map (\<lambda>d. of_char (hex_digit d) :: nat) ds"
  have t: "to_int32 (of_int x) = x" if "0 \<le> x" "x < 256" for x
    using that by (intro to_int32_of_int) simp_all
  have str: "drop 1 (js_string (Some (rgb (of_int r) (of_int g) (of_int b)))) = cs"
    using assms by (simp add: js_string_def rgb_def hex2_def Let_def t clamp_def cs_def ds_def)
  have dv: "map digit_value cs = map nat ds"
    using assms by (simp add: cs_def ds_def hex_digit_value)
  then have "digits_value 16 cs = foldl (\<lambda>n d. n * 16 + d) 0 (map nat ds)"
    by (simp add: digits_value_def foldl_map flip: dv)
  moreover have "int (foldl (\<lambda>n d. n * 16 + d) 0 (map nat ds)) = r * 65536 + g * 256 + b"
  proof -
    have nn: "int (nat (x div 16)) = x div 16" "int (nat (x mod 16)) = x mod 16" if "0 \<le> x" for x :: int
      using that by (simp_all add: pos_imp_zdiv_nonneg_iff)
    have "int (foldl (\<lambda>n d. n * 16 + d) 0 (map nat ds)) =
        ((((r div 16 * 16 + r mod 16) * 16 + g div 16) * 16 + g mod 16) * 16 + b div 16) * 16 + b mod 16"
      by (simp only: ds_def list.map foldl.simps of_nat_add of_nat_mult of_nat_numeral of_nat_0 nn assms mult_zero_left add_0)
    also have "\<dots> = r * 65536 + g * 256 + b"
      by (rule hex_pairs) (rule div_mult_mod_eq)+
    finally show ?thesis .
  qed
  ultimately have v: "int (digits_value 16 cs) = r * 65536 + g * 256 + b" by simp
  have "parse_hex cs = Some (of_nat (digits_value 16 cs))"
  proof (rule parse_hex_digits)
    show "cs \<noteq> []" by (simp add: cs_def ds_def)
    have "nat (r div 16) < 16" "nat (g div 16) < 16" "nat (b div 16) < 16" using assms by simp_all
    then have "list_all (\<lambda>d. d < 16) (map digit_value cs)"
      unfolding dv by (simp add: ds_def nat_less_iff)
    then show "list_all (\<lambda>c. digit_value c < 16) cs" by (simp add: list_all_iff)
    show "digits_value 16 cs < 2 ^ 31" using v assms by simp
  qed
  moreover have "to_int32 (of_nat (digits_value 16 cs)) = r * 65536 + g * 256 + b"
    using to_int32_of_int [of "int (digits_value 16 cs)"] v assms unfolding of_int_of_nat_eq by simp
  ultimately show ?thesis
    using color_channels [OF assms] unfolding color_def str Let_def by simp
qed

theorem color_reads_rgb_witness:
  "color (Some (rgb 255 128 0)) = [js_div 255 255, js_div 128 255, js_div 0 255, 1]"
  using color_reads_rgb [of 255 128 0] by simp

subsection \<open>What is painted\<close>

definition probe :: renderer where
  "probe = \<lparr>r_model = small, cellWidth = 8, cellHeight = 19, pixel_ratio = 1, dirty = True, r_frame = 0,
     useWebGL = True, has_ctx = False, glyphRanges = Map.empty, canvas_width = 32, canvas_height = 38,
     style_width = 32, style_height = 38, paintings = []\<rparr>"

text \<open>
  C24. Painting a well-formed screen with WebGL always succeeds. Every cell gets one background
  instance at its column and row, in its background colour or, under the visible cursor, in its
  foreground colour; the underlined cells follow as further instances, without a write past the
  arrays; and the glyph draws are, cell by cell, those of the font's range for the code point,
  each a whole number of triangles inside the index buffer. The glyph cache does not influence
  what is drawn.
\<close>

theorem renderWebGL_draws:
  assumes "wf (r_model r)" and "coherent (glyphRanges r)"
  shows "\<exists>d ds cache. renderWebGL r = Inr (Gl d ds, cache) \<and> coherent cache \<and> list_all in_buffer ds \<and>
     ds = concat (map (cell_draws r) (enumerate 0 (views (r_model r)))) \<and>
     (let as = map snd (views (r_model r))
      in cellData d = concat (map (cell_entry r) (enumerate 0 as)) @ concat (map (line_entry r) (underlined 0 as)) \<and>
         colorData d = concat (map (cell_colour r) (enumerate 0 as)) @ concat (map (line_colour r) (underlined 0 as)) \<and>
         (\<forall>i < length as. place r i = [of_int (int i mod columns (r_model r)), of_int (int i div columns (r_model r))]))"
proof -
  have "list_all in_buffer (concat (map (cell_draws r) vs))" for vs
    using cell_draws_in_buffer [of r] by (induction vs) auto
  moreover have "place r i = [of_int (int i mod columns (r_model r)), of_int (int i div columns (r_model r))]"
    if "i < length (map snd (views (r_model r)))" for i
    using that wf_cell_position [OF assms(1), of i] by (simp add: place_def views_def)
  ultimately show ?thesis using renderWebGL_closed [OF assms] unfolding Let_def by fastforce
qed

theorem renderWebGL_draws_witness:
  "\<exists>d ds cache. renderWebGL probe = Inr (Gl d ds, cache) \<and> list_all in_buffer ds \<and>
     ds = concat (map (cell_draws probe) (enumerate 0 (views small)))"
proof -
  have "wf (r_model probe)" "coherent (glyphRanges probe)" "r_model probe = small"
    using small_wf by (simp_all add: probe_def)
  then show ?thesis using renderWebGL_draws [of probe] by auto
qed

text \<open>
  C25. No repaint is lost: in every reachable state of the page in which the renderer is dirty,
  exactly one animation-frame callback is outstanding, however many updates were made; running
  it paints the current model once, without an error when the model is well-formed, and leaves
  the renderer clean.
\<close>

theorem dirty_is_repainted:
  assumes "page_reachable p" and "dirty (shown p)" and "wf (r_model (shown p))"
  shows "callbacks p = 1 \<and>
     (\<exists>r' p' cache. frame_callback (shown p) = (None, r') \<and> page_step p \<lparr>shown = r', callbacks = 0\<rparr> \<and>
        \<not> dirty r' \<and> paintings r' = paintings (shown p) @ [p'] \<and>
        paint (shown p\<lparr>r_frame := 0, dirty := False\<rparr>) = Inr (p', cache))"
proof -
  let ?r = "shown p\<lparr>r_frame := 0\<rparr>"
  have inv: "callbacks p = 1" "coherent (glyphRanges (shown p))"
    using page_reachable_inv [OF assms(1)] assms(2) by (auto simp: page_inv_def)
  obtain p' cache where q: "render ?r = (None, snd (render ?r))" "paintings (snd (render ?r)) = paintings (shown p) @ [p']"
    "paint (?r\<lparr>dirty := False\<rparr>) = Inr (p', cache)"
    using render_coherent [of ?r] inv(2) assms(2,3) by auto
  have "p = \<lparr>shown = shown p, callbacks = Suc 0\<rparr>" using inv(1) by (cases p) simp
  moreover have "frame_callback (shown p) = (None, snd (render ?r))" using q(1) by (simp add: frame_callback_def)
  ultimately have "page_step p \<lparr>shown = snd (render ?r), callbacks = 0\<rparr>"
    by (metis page_step.fire)
  then show ?thesis using inv(1) q by (auto simp: frame_callback_def)
qed

definition no_gl :: gl_status where
  "no_gl = \<lparr>webgl2 = Inr False, context2d = True, vertex_log = None, fragment_log = None, link_log = None\<rparr>"

definition bare_viewport :: viewport where
  "bare_viewport = \<lparr>devicePixelRatio = None, container = None\<rparr>"

theorem dirty_is_repainted_witness:
  "\<exists>p. page_reachable p \<and> dirty (shown p) \<and> callbacks p = 1"
proof -
  obtain e r where r: "new_renderer no_gl no_gl bare_viewport small = (e, r)" by fastforce
  then have p0: "page_reachable \<lparr>shown = r, callbacks = 0\<rparr>" by (rule page_reachable.start)
  have f: "r_frame r = 0"
    using r by (auto simp: new_renderer_def init_def Let_def dest!: resize_renderer_frame)
  define r1 where "r1 = r\<lparr>r_model := small, dirty := True, r_frame := 5\<rparr>"
  have "markDirty (Some 5) (r\<lparr>r_model := small\<rparr>) = (None, True, r1)" using f by (simp add: markDirty_def r1_def)
  from page_step.update [OF _ this, of 0] have "page_step \<lparr>shown = r, callbacks = 0\<rparr> \<lparr>shown = r1, callbacks = 1\<rparr>"
    by simp
  with p0 have "page_reachable \<lparr>shown = r1, callbacks = 1\<rparr>" by (rule page_reachable.step)
  moreover from this have "callbacks \<lparr>shown = r1, callbacks = 1\<rparr> = 1"
    using dirty_is_repainted [of "\<lparr>shown = r1, callbacks = 1\<rparr>"] small_wf by (simp add: r1_def)
  ultimately show ?thesis by (intro exI [of _ "\<lparr>shown = r1, callbacks = 1\<rparr>"]) (simp add: r1_def)
qed

lemma cell_size_width:
  assumes "container v = Some (w, h, p)" "devicePixelRatio v = Some q"
    and "0 < js_sub (js_sub w (p_left p)) (p_right p)"
  shows "4 \<le> fst (cell_size v cols rws)" and "fst (cell_size v cols rws) \<le>
      max 4 \<lfloor>js_div (js_mul (js_sub (js_sub w (p_left p)) (p_right p)) q) (of_int cols)\<rfloor>"
    and "8 \<le> snd (cell_size v cols rws)"
  using assms by (auto simp: cell_size_def Let_def)

text \<open>
  Resizing gives every cell a whole number of device pixels, at least 4 by 8, and a canvas that
  is exactly the grid of cells. Unless the cells have shrunk to the minimal width, the grid is
  not wider than the available width in device pixels.
\<close>

theorem resize_fits:
  assumes "wf (r_model r)" and "resize_renderer v r = (e, r')"
    and "container v = Some (w, h, p)" and "devicePixelRatio v = Some q"
    and "0 < js_sub (js_sub w (p_left p)) (p_right p)"
    and "js_mul (js_sub (js_sub w (p_left p)) (p_right p)) q = of_int px" and "0 \<le> px" and "px < 2 ^ 53"
  shows "4 \<le> cellWidth r' \<and> 8 \<le> cellHeight r' \<and>
     canvas_width r' = cellWidth r' * columns (r_model r) \<and> canvas_height r' = cellHeight r' * rows (r_model r) \<and>
     (4 < cellWidth r' \<longrightarrow> canvas_width r' \<le> px)"
proof -
  let ?c = "columns (r_model r)"
  obtain cw ch where c: "cell_size v ?c (rows (r_model r)) = (cw, ch)" by fastforce
  have r': "cellWidth r' = cw" "cellHeight r' = ch" "canvas_width r' = cw * ?c" "canvas_height r' = ch * rows (r_model r)"
    using assms(2) c by (auto simp: resize_renderer_def Let_def dest!: render_eqD)
  have dims: "1 \<le> ?c" "?c < 2 ^ 31" using assms(1) by (auto simp: wf_def wf_size_def)
  have "\<lfloor>js_div (of_int px) (of_int ?c)\<rfloor> = px div ?c"
    using dims assms(7,8) by (intro floor_js_div) simp_all
  then have "4 \<le> cw" "8 \<le> ch" "4 < cw \<longrightarrow> cw \<le> px div ?c"
    using cell_size_width [OF assms(3-5), of ?c "rows (r_model r)"] c unfolding assms(6) by auto
  moreover have "px div ?c * ?c \<le> px"
    using dims div_mult_mod_eq [of px ?c] pos_mod_sign [of ?c px] by linarith
  moreover have "cw * ?c \<le> px div ?c * ?c" if "cw \<le> px div ?c"
    using that dims by (intro mult_right_mono) simp_all
  ultimately show ?thesis unfolding r' by auto
qed

theorem resize_fits_witness:
  "\<exists>e r'. resize_renderer \<lparr>devicePixelRatio = Some 2,
       container = Some (100, 90, \<lparr>p_left = 3, p_right = 1, p_top = 0, p_bottom = 0\<rparr>)\<rparr> probe = (e, r') \<and>
     4 \<le> cellWidth r' \<and> canvas_width r' = cellWidth r' * 4 \<and> (4 < cellWidth r' \<longrightarrow> canvas_width r' \<le> 192)"
proof -
  let ?p = "\<lparr>p_left = 3, p_right = 1, p_top = 0, p_bottom = 0\<rparr>"
  let ?v = "\<lparr>devicePixelRatio = Some 2, container = Some (100, 90, ?p)\<rparr>"
  have m: "wf (r_model probe)" "columns (r_model probe) = 4" using small_wf by (simp_all add: probe_def)
  obtain e r' where r: "resize_renderer ?v probe = (e, r')" by fastforce
  have "js_sub 100 3 = 97" "js_sub 97 1 = 96" "js_mul 96 2 = 192"
    using js_sub_int [of 100 3] js_sub_int [of 97 1] js_mul_int [of 96 2] by simp_all
  then show ?thesis
    using resize_fits [OF m(1) r, of 100 90 ?p 2 192] r m(2) by auto
qed

end
