(* ===== verification/Waste_Config.thy ===== *)
theory Waste_Config
  imports Waste_Prelude
begin

text \<open>
  The entries of the configuration object \<open>WASTE_CONFIG\<close> that the modelled components read, with
  the values of the installed application, and the string helpers these components share.
  JavaScript strings are lists of code units or code points; the components compare, cut and
  join them only at ASCII characters, where the two agree.
\<close>

definition TERMINAL_INPUT_CAPACITY :: nat where "TERMINAL_INPUT_CAPACITY = 4096"
definition BROWSER_RESULT_BYTES :: nat where "BROWSER_RESULT_BYTES = 256"
definition BROWSER_RESULT_ERROR_OFFSET :: nat where "BROWSER_RESULT_ERROR_OFFSET = 64"
definition WAST_SETUP_ERROR_BYTES :: nat where "WAST_SETUP_ERROR_BYTES = 256"
definition EXECUTION_DEFAULT_PUMP_QUANTUM_MS :: nat where "EXECUTION_DEFAULT_PUMP_QUANTUM_MS = 16"
definition EXECUTION_MAX_PUMP_QUANTUM_MS :: nat where "EXECUTION_MAX_PUMP_QUANTUM_MS = 60000"
definition EXECUTION_MAX_TIMEOUT_MS :: nat where "EXECUTION_MAX_TIMEOUT_MS = 3600000"
definition RENDER_TEST_REPLY_MAX_BYTES :: nat where "RENDER_TEST_REPLY_MAX_BYTES = 65536"
definition SUITE_BROWSER_MAX_JOBS :: nat where "SUITE_BROWSER_MAX_JOBS = 8"
definition SUITE_GUEST_DEFAULT_JOBS :: nat where "SUITE_GUEST_DEFAULT_JOBS = 2"
definition SUITE_GUEST_MAX_ARGS :: nat where "SUITE_GUEST_MAX_ARGS = 64"
definition SUITE_GUEST_REPLY_MAX_BYTES :: nat where "SUITE_GUEST_REPLY_MAX_BYTES = 16777216"
definition SUITE_GUEST_REQUEST_MAX_BYTES :: nat where "SUITE_GUEST_REQUEST_MAX_BYTES = 4096"
definition SUITE_OUTPUT_MAX_BYTES :: nat where "SUITE_OUTPUT_MAX_BYTES = 16777216"
definition SUITE_TIMEOUT_CORE_MS :: nat where "SUITE_TIMEOUT_CORE_MS = 15000"
definition SUITE_TIMEOUT_DEFAULT_MS :: nat where "SUITE_TIMEOUT_DEFAULT_MS = 5000"
definition SUITE_TIMEOUT_HEAVY_MS :: nat where "SUITE_TIMEOUT_HEAVY_MS = 10000"

subsection \<open>Strings\<close>

type_synonym jstr = "nat list"

text \<open>A string literal of the source.\<close>

definition js :: "string \<Rightarrow> jstr" where
  "js s = map of_char s"

definition starts_with :: "'a list \<Rightarrow> 'a list \<Rightarrow> bool" where
  "starts_with p s \<longleftrightarrow> take (length p) s = p"

text \<open>\<open>text.split(separator)\<close> for a one-character separator.\<close>

fun split_on :: "'a \<Rightarrow> 'a list \<Rightarrow> 'a list list" where
  "split_on x [] = [[]]"
| "split_on x (c # cs) =
     (if c = x then [] # split_on x cs
      else case split_on x cs of w # ws \<Rightarrow> (c # w) # ws | [] \<Rightarrow> [[c]])"

text \<open>\<open>words.join(separator)\<close>.\<close>

fun join_with :: "'a \<Rightarrow> 'a list list \<Rightarrow> 'a list" where
  "join_with x [] = []"
| "join_with x [w] = w"
| "join_with x (w # ws) = w @ x # join_with x ws"

lemma split_on_ne [simp]: "split_on x cs \<noteq> []"
  by (cases cs) (auto split: list.splits)

lemma split_on_no: "x \<notin> set w \<Longrightarrow> split_on x w = [w]"
  by (induction w) auto

lemma split_on_append: "x \<notin> set w \<Longrightarrow> split_on x (w @ x # r) = w # split_on x r"
  by (induction w) auto

lemma split_on_join:
  "ws \<noteq> [] \<Longrightarrow> (\<And>w. w \<in> set ws \<Longrightarrow> x \<notin> set w) \<Longrightarrow> split_on x (join_with x ws) = ws"
  by (induction ws rule: join_with.induct) (simp_all add: split_on_no split_on_append)

lemma join_split_on: "join_with x (split_on x cs) = cs"
proof (induction cs)
  case (Cons c cs)
  obtain w ws where w: "split_on x cs = w # ws" by (cases "split_on x cs") auto
  with Cons show ?case by (cases ws) auto
qed simp

lemma split_on_pieces: "w \<in> set (split_on x cs) \<Longrightarrow> x \<notin> set w"
proof (induction cs arbitrary: w)
  case (Cons c cs)
  then show ?case by (cases "split_on x cs") (auto split: if_splits)
qed simp

text \<open>A little-endian 32-bit number in a \<open>DataView\<close>.\<close>

fun le_bytes :: "nat \<Rightarrow> int \<Rightarrow> nat list" where
  "le_bytes 0 v = []"
| "le_bytes (Suc n) v = nat (v mod 256) # le_bytes n (v div 256)"

definition le32 :: "int \<Rightarrow> nat list" where
  "le32 v = le_bytes 4 v"

definition get32 :: "nat list \<Rightarrow> nat" where
  "get32 bs = foldr (\<lambda>b n. b + 256 * n) (take 4 bs) 0"

lemma length_le_bytes [simp]: "length (le_bytes n v) = n"
  by (induction n arbitrary: v) auto

lemma length_le32 [simp]: "length (le32 v) = 4"
  by (simp add: le32_def)

lemma le_bytes_byte: "b \<in> set (le_bytes n v) \<Longrightarrow> b < 256"
  by (induction n arbitrary: v) (auto simp: nat_less_iff)

lemma foldr_le_bytes:
  "0 \<le> v \<Longrightarrow> v < 256 ^ n \<Longrightarrow> int (foldr (\<lambda>b n. b + 256 * n) (le_bytes n v) 0) = v"
proof (induction n arbitrary: v)
  case (Suc n)
  have "v div 256 < 256 ^ n" using Suc.prems mult_div_mod_eq [of 256 v] pos_mod_sign [of 256 v]
    unfolding power_Suc by linarith
  then have "int (foldr (\<lambda>b n. b + 256 * n) (le_bytes n (v div 256)) 0) = v div 256"
    using Suc.prems by (intro Suc.IH) (simp_all add: pos_imp_zdiv_nonneg_iff)
  then show ?case by simp
qed simp

lemma get32_le32:
  assumes "0 \<le> v" "v < 2 ^ 32"
  shows "get32 (le32 v @ bs) = nat v"
  using foldr_le_bytes [of v 4] assms unfolding get32_def le32_def by (simp del: le_bytes.simps)

end
