(* ===== verification/Suite_Model.thy ===== *)
theory Suite_Model
  imports Waste_Config Utf8
begin

text \<open>
  The batch test controller of \<open>test-suite.js\<close> (class \<open>WasteTestSuite\<close>): enumeration and selection
  of tests, the request to one test worker as a state machine, the judgement of a worker's report,
  the concurrent batch as a step relation over its consumers, and the command protocol that a
  guest process uses to start a batch. Values of the wrong type in a worker's report are \<open>None\<close>.
  Time is not modelled: a timeout is an event.
\<close>

subsection \<open>Tests and their selection\<close>

record test =
  identity :: jstr
  path :: jstr
  test_file :: jstr
  group :: jstr
  mode :: jstr
  unsupported :: bool
  skipReason :: jstr
  expectedFailure :: bool

record selection =
  groups :: "jstr list"
  files :: "jstr list"
  excludeGroups :: "jstr list"
  excludeFiles :: "jstr list"

definition fileMatch :: "test \<Rightarrow> jstr \<Rightarrow> bool" where
  "fileMatch t name \<longleftrightarrow> name \<in> set [identity t, path t, test_file t, last (split_on 47 (identity t))]"

definition known_names :: "test list \<Rightarrow> (test \<Rightarrow> jstr \<Rightarrow> bool) \<Rightarrow> jstr list \<Rightarrow> bool" where
  "known_names tests match names \<longleftrightarrow> list_all (\<lambda>name. list_ex (\<lambda>t. match t name) tests) names"

definition chosen :: "selection \<Rightarrow> test \<Rightarrow> bool" where
  "chosen opt t \<longleftrightarrow>
     ((groups opt = [] \<and> files opt = []) \<or> group t \<in> set (groups opt) \<or> list_ex (fileMatch t) (files opt)) \<and>
     group t \<notin> set (excludeGroups opt) \<and> \<not> list_ex (fileMatch t) (excludeFiles opt)"

definition select :: "test list \<Rightarrow> selection \<Rightarrow> test list completion" where
  "select tests opt =
     (let same = (\<lambda>t name. group t = name)
      in if \<not> (known_names tests same (groups opt) \<and> known_names tests same (excludeGroups opt) \<and>
               known_names tests fileMatch (files opt) \<and> known_names tests fileMatch (excludeFiles opt))
         then Inl (Error ''Unknown test selection'')
         else let selected = filter (chosen opt) tests
              in if selected = [] then Inl (Error ''No requested browser tests found'') else Inr selected)"

text \<open>\<open>text.split(/\r?\n/)\<close>.\<close>

definition split_lines :: "jstr \<Rightarrow> jstr list" where
  "split_lines s =
     (let parts = split_on 10 s
      in map (\<lambda>p. if p \<noteq> [] \<and> last p = 13 then butlast p else p) (butlast parts) @ [last parts])"

fun expected_failures :: "test list \<Rightarrow> jstr list \<Rightarrow> jstr list \<Rightarrow> jstr list completion" where
  "expected_failures tests expected [] = Inr expected"
| "expected_failures tests expected (line # ls) =
     (let name = js_trim (hd (split_on 35 line))
      in if name = [] then expected_failures tests expected ls
         else if name \<in> set expected \<or> \<not> list_ex (\<lambda>t. identity t = name) tests
         then Inl (Error (''Unknown or duplicate expected-failure identity: '' @ map char_of name))
         else expected_failures tests (expected @ [name]) ls)"

definition catalogue_entry :: "(jstr \<Rightarrow> bool) \<Rightarrow> jstr list \<Rightarrow> test \<Rightarrow> test" where
  "catalogue_entry native expected t =
     (let browserNative = (native (identity t) \<and> mode t = js ''browser-native'' \<and> \<not> unsupported t)
      in t\<lparr>skipReason := (if browserNative then [] else skipReason t),
           expectedFailure := (expectedFailure t \<or> identity t \<in> set expected)\<rparr>)"

text \<open>
  \<open>list\<close>, from the error and the tests of the worker's \<open>suite-list\<close> message (\<open>None\<close> when the
  response has no array of tests); \<open>native\<close> tells which identities have a browser-native
  specification.
\<close>

definition list_tests :: "(jstr \<Rightarrow> bool) \<Rightarrow> jstr \<Rightarrow> string \<Rightarrow> test list option \<Rightarrow> test list completion" where
  "list_tests native expected_text err response =
     (case response of
        None \<Rightarrow> Inl (Error (if err \<noteq> [] then err else ''Mounted manifest enumeration timed out''))
      | Some tests \<Rightarrow>
          bind_c (expected_failures tests [] (split_lines expected_text)) (\<lambda>expected.
            Inr (map (catalogue_entry native expected) tests)))"

subsection \<open>One request to a worker\<close>

text \<open>
  The response of a worker: every field that a report may lack or carry with a wrong type is an
  option. An empty error string is falsy.
\<close>

record setup_report =
  s_complete :: bool
  s_total :: "int option"
  s_passed :: "int option"
  s_failures :: "nat option"

record response =
  r_error :: jstr
  r_cancelled :: bool
  r_timedOut :: bool
  r_results :: "bool list option"
  r_ok :: "bool option"
  r_total :: "int option"
  r_passed :: "int option"
  r_completed :: "bool option"
  r_setup :: "setup_report option"

definition no_response :: response where
  "no_response = \<lparr>r_error = [], r_cancelled = False, r_timedOut = False, r_results = None, r_ok = None,
     r_total = None, r_passed = None, r_completed = None, r_setup = None\<rparr>"

datatype worker_message =
    Output jstr
  | Suite_list
  | Done_report response
  | Host_transfer
  | Other_message

datatype request_event =
    Timer
  | Cancel
  | Worker_created
  | Create_failed js_error
  | Worker_error jstr
  | Message worker_message

datatype worker_state = No_worker | Alive | Terminated

record request =
  finished :: bool
  out_text :: jstr
  worker :: worker_state
  posted :: nat
  outcome :: "(response \<times> jstr) completion option"

definition new_request :: request where
  "new_request = \<lparr>finished = False, out_text = [], worker = No_worker, posted = 0, outcome = None\<rparr>"

definition complete :: "response completion \<Rightarrow> request \<Rightarrow> request" where
  "complete value q =
     (if finished q then q
      else q\<lparr>finished := True, worker := (if worker q = Alive then Terminated else worker q),
             outcome := Some (bind_c value (\<lambda>v. Inr (v, take 4096 (out_text q))))\<rparr>)"

definition failed :: "string \<Rightarrow> response" where
  "failed message = no_response\<lparr>r_error := js message\<rparr>"

definition on_message :: "worker_message \<Rightarrow> request \<Rightarrow> request" where
  "on_message m q =
     (case m of
        Output s \<Rightarrow>
          (let q1 = q\<lparr>out_text := out_text q @ s\<rparr>
           in if length (out_text q1) > SUITE_OUTPUT_MAX_BYTES
              then complete (Inr (failed ''test output exceeded configured limit'')) q1 else q1)
      | Suite_list \<Rightarrow> complete (Inr no_response) q
      | Done_report r \<Rightarrow> complete (Inr r) q
      | Host_transfer \<Rightarrow> complete (Inr (failed ''batch test requested an interactive host transfer'')) q
      | Other_message \<Rightarrow> q)"

definition request_step :: "request_event \<Rightarrow> request \<Rightarrow> request" where
  "request_step e q =
     (case e of
        Timer \<Rightarrow> complete (Inr (no_response\<lparr>r_timedOut := True\<rparr>)) q
      | Cancel \<Rightarrow> complete (Inr (no_response\<lparr>r_cancelled := True\<rparr>)) q
      | Worker_created \<Rightarrow>
          if finished q then q\<lparr>worker := Terminated\<rparr>
          else q\<lparr>worker := Alive, posted := posted q + 1\<rparr>
      | Create_failed err \<Rightarrow> complete (Inl err) q
      | Worker_error message \<Rightarrow>
          complete (Inr (no_response\<lparr>r_error := (if message = [] then js ''worker crashed'' else message)\<rparr>)) q
      | Message m \<Rightarrow> on_message m q)"

text \<open>
  Which events can happen: the worker is created or fails to be created once, and only a live
  worker sends messages or errors.
\<close>

definition possible :: "request_event \<Rightarrow> request \<Rightarrow> bool" where
  "possible e q =
     (case e of
        Worker_created \<Rightarrow> worker q = No_worker
      | Create_failed _ \<Rightarrow> worker q = No_worker
      | Worker_error _ \<Rightarrow> worker q = Alive
      | Message _ \<Rightarrow> worker q = Alive
      | _ \<Rightarrow> True)"

subsection \<open>Judging a report\<close>

datatype status = SKIP | CANCELLED | TIMEOUT | PASS | FAIL | XPASS | XFAIL

record result =
  res_test :: test
  res_status :: status
  res_counts :: "(int \<times> int \<times> int) option"
  res_error :: "jstr option"

definition inconsistent :: "response \<Rightarrow> bool" where
  "inconsistent r =
     (r_error r \<noteq> [] \<or>
      (case (r_results r, r_ok r, r_total r, r_completed r, r_setup r) of
         (Some results, Some ok, Some tot, Some completed, Some s) \<Rightarrow>
           tot \<noteq> int (length results) \<or>
           r_passed r \<noteq> Some (int (length (filter id results))) \<or>
           \<not> s_complete s \<or>
           (case (s_total s, s_passed s, s_failures s) of
              (Some st, Some sp, Some sf) \<Rightarrow>
                sp < 0 \<or> sp > st \<or> int sf \<noteq> st - sp \<or>
                ok \<noteq> (r_passed r = Some tot \<and> completed \<and> sp = st)
            | _ \<Rightarrow> True)
       | _ \<Rightarrow> True))"

definition judge :: "test \<Rightarrow> response \<Rightarrow> result" where
  "judge t r =
     (let plain = \<lparr>res_test = t, res_status = FAIL, res_counts = None, res_error = None\<rparr>
      in if r_cancelled r then plain\<lparr>res_status := CANCELLED\<rparr>
         else if r_timedOut r then plain\<lparr>res_status := TIMEOUT\<rparr>
         else if inconsistent r then
           plain\<lparr>res_error := Some (if r_error r \<noteq> [] then r_error r else js ''Incomplete browser assertion report'')\<rparr>
         else plain\<lparr>res_status := (if r_ok r = Some True then (if expectedFailure t then XPASS else PASS)
                                    else (if expectedFailure t then XFAIL else FAIL)),
                     res_counts := (case (r_passed r, r_total r) of
                         (Some p, Some n) \<Rightarrow> Some (p, n, n - p) | _ \<Rightarrow> None)\<rparr>)"

subsection \<open>The batch\<close>

record limits =
  jobs :: rat
  timeoutMs :: "rat option"
  timeoutGroups :: "(jstr \<times> rat) list"

definition validMs :: "rat \<Rightarrow> bool" where
  "validMs v \<longleftrightarrow> of_int \<lfloor>v\<rfloor> = v \<and> 0 < v \<and> v \<le> of_nat EXECUTION_MAX_TIMEOUT_MS"

definition valid_limits :: "limits \<Rightarrow> bool" where
  "valid_limits l \<longleftrightarrow>
     of_int \<lfloor>jobs l\<rfloor> = jobs l \<and> 1 \<le> jobs l \<and> jobs l \<le> of_nat SUITE_BROWSER_MAX_JOBS \<and>
     (case timeoutMs l of None \<Rightarrow> True | Some v \<Rightarrow> validMs v) \<and> list_all (\<lambda>(_, v). validMs v) (timeoutGroups l)"

definition budget :: "limits \<Rightarrow> test \<Rightarrow> rat" where
  "budget l t =
     (case map_of (timeoutGroups l) (group t) of
        Some v \<Rightarrow> v
      | None \<Rightarrow> (case timeoutMs l of
            Some v \<Rightarrow> v
          | None \<Rightarrow> of_nat
              (if group t = js ''wasm-spec/core'' then SUITE_TIMEOUT_CORE_MS
               else if group t \<in> set [js ''wasm-spec/core/simd'', js ''wasm-spec/core/bulk-memory'', js ''wasm-spec/core/memory64'']
               then SUITE_TIMEOUT_HEAVY_MS else SUITE_TIMEOUT_DEFAULT_MS)))"

datatype consumer = Ready | Waiting nat | Finished

record batch =
  selected :: "test list"
  next_index :: nat
  records :: "result option list"
  cancelled :: bool
  consumers :: "consumer list"

definition new_batch :: "limits \<Rightarrow> test list \<Rightarrow> batch" where
  "new_batch l ts =
     \<lparr>selected = ts, next_index = 0, records = replicate (length ts) None, cancelled = False,
      consumers = replicate (nat \<lfloor>min (jobs l) (of_nat (length ts))\<rfloor>) Ready\<rparr>"

text \<open>One turn of the loop of \<open>consume\<close>, up to the request or to the end of the loop.\<close>

definition take_test :: "nat \<Rightarrow> batch \<Rightarrow> batch" where
  "take_test c b =
     (let i = next_index b
      in if \<not> i < length (selected b) then b\<lparr>consumers := (consumers b)[c := Finished]\<rparr>
         else let t = selected b ! i; b1 = b\<lparr>next_index := i + 1\<rparr>;
                  now = (\<lambda>s. b1\<lparr>records := (records b)[i := Some \<lparr>res_test = t, res_status = s, res_counts = None,
                                                           res_error = None\<rparr>]\<rparr>)
              in if skipReason t \<noteq> [] then now SKIP
                 else if cancelled b then now CANCELLED
                 else b1\<lparr>consumers := (consumers b)[c := Waiting i]\<rparr>)"

text \<open>The rest of the turn, when the request has been answered.\<close>

definition answer_test :: "nat \<Rightarrow> response \<Rightarrow> batch \<Rightarrow> batch" where
  "answer_test c r b =
     (case consumers b ! c of
        Waiting i \<Rightarrow> b\<lparr>records := (records b)[i := Some (judge (selected b ! i) r)],
                       consumers := (consumers b)[c := Ready]\<rparr>
      | _ \<Rightarrow> b)"

definition cancel_batch :: "batch \<Rightarrow> batch" where
  "cancel_batch b = b\<lparr>cancelled := True\<rparr>"

inductive batch_step :: "batch \<Rightarrow> batch \<Rightarrow> bool" where
  take: "c < length (consumers b) \<Longrightarrow> consumers b ! c = Ready \<Longrightarrow> batch_step b (take_test c b)"
| answer: "c < length (consumers b) \<Longrightarrow> consumers b ! c = Waiting i \<Longrightarrow> batch_step b (answer_test c r b)"
| cancel: "\<not> cancelled b \<Longrightarrow> batch_step b (cancel_batch b)"

definition batch_done :: "batch \<Rightarrow> bool" where
  "batch_done b \<longleftrightarrow> list_all (\<lambda>c. c = Finished) (consumers b)"

record summary =
  n_pass :: nat
  n_fail :: nat
  n_xfail :: nat
  n_xpass :: nat
  n_skip :: nat
  failures :: "jstr list"
  unexpectedPasses :: "jstr list"

definition count_record :: "result \<Rightarrow> summary \<Rightarrow> summary" where
  "count_record r s =
     (case res_status r of
        PASS \<Rightarrow> s\<lparr>n_pass := n_pass s + 1\<rparr>
      | XFAIL \<Rightarrow> s\<lparr>n_xfail := n_xfail s + 1\<rparr>
      | SKIP \<Rightarrow> s\<lparr>n_skip := n_skip s + 1\<rparr>
      | XPASS \<Rightarrow> s\<lparr>n_xpass := n_xpass s + 1, unexpectedPasses := unexpectedPasses s @ [identity (res_test r)]\<rparr>
      | _ \<Rightarrow> s\<lparr>n_fail := n_fail s + 1, failures := failures s @ [identity (res_test r)]\<rparr>)"

definition summarise :: "result list \<Rightarrow> summary" where
  "summarise rs = fold count_record rs
     \<lparr>n_pass = 0, n_fail = 0, n_xfail = 0, n_xpass = 0, n_skip = 0, failures = [], unexpectedPasses = []\<rparr>"

record report =
  rep_summary :: summary
  rep_tests :: "result list"
  exitCode :: nat

text \<open>The report; reading the status of a missing record throws.\<close>

definition finish_batch :: "batch \<Rightarrow> report completion" where
  "finish_batch b =
     (if \<not> list_all (\<lambda>r. r \<noteq> None) (records b) then Inl (TypeError ''Cannot read properties of undefined'')
      else let rs = map the (records b); s = summarise rs
           in Inr \<lparr>rep_summary = s, rep_tests = rs,
                   exitCode = (if cancelled b then 130 else if n_fail s \<noteq> 0 \<or> n_xpass s \<noteq> 0 then 1 else 0)\<rparr>)"

text \<open>The checks of \<open>run\<close> before the first consumer starts.\<close>

definition start_batch :: "bool \<Rightarrow> test list completion \<Rightarrow> limits \<Rightarrow> selection \<Rightarrow> batch completion" where
  "start_batch running tests l opt =
     (if running then Inl (Error ''A batch is already running'')
      else if \<not> valid_limits l then Inl (Error ''Invalid jobs or execution deadline'')
      else bind_c tests (\<lambda>ts.
        if \<not> list_all (\<lambda>(g, _). list_ex (\<lambda>t. group t = g) ts) (timeoutGroups l) then Inl (Error ''Unknown timeout group'')
        else bind_c (select ts opt) (\<lambda>sel. Inr (new_batch l sel))))"

subsection \<open>The command of a guest process\<close>

definition fatal_decode :: "nat list \<Rightarrow> jstr completion" where
  "fatal_decode bs =
     (let cs = utf8_decode_raw bs
      in if utf8_encode cs = bs then Inr cs else Inl (TypeError ''The encoded data was not valid''))"

record guest_options =
  g_select :: selection
  g_limits :: limits
  g_list :: bool
  g_json :: bool

definition ms :: "jstr \<Rightarrow> rat completion" where
  "ms t =
     (if t = [] \<or> \<not> list_all is_digit t then Inl (Error ''Invalid execution deadline'')
      else case to_number t of
        Finite False v \<Rightarrow>
          if v < 1 \<or> v > of_nat EXECUTION_MAX_TIMEOUT_MS then Inl (Error ''Invalid execution deadline'') else Inr v
      | _ \<Rightarrow> Inl (Error ''Invalid execution deadline''))"

text \<open>\<open>object[key] = value\<close> keeps the place of a key that exists.\<close>

fun set_key :: "'k \<Rightarrow> 'v \<Rightarrow> ('k \<times> 'v) list \<Rightarrow> ('k \<times> 'v) list" where
  "set_key k v [] = [(k, v)]"
| "set_key k v ((k', v') # r) = (if k = k' then (k, v) # r else (k', v') # set_key k v r)"

definition last_index_of :: "nat \<Rightarrow> jstr \<Rightarrow> nat option" where
  "last_index_of x s = (if x \<in> set s then Some (length s - 1 - length (takeWhile (\<lambda>c. c \<noteq> x) (rev s))) else None)"

definition default_options :: guest_options where
  "default_options =
     \<lparr>g_select = \<lparr>groups = [], files = [], excludeGroups = [], excludeFiles = []\<rparr>,
      g_limits = \<lparr>jobs = of_nat SUITE_GUEST_DEFAULT_JOBS, timeoutMs = None, timeoutGroups = []\<rparr>,
      g_list = False, g_json = False\<rparr>"

definition add_group :: "jstr \<Rightarrow> guest_options \<Rightarrow> guest_options" where
  "add_group g opt = opt\<lparr>g_select := (g_select opt)\<lparr>groups := groups (g_select opt) @ [g]\<rparr>\<rparr>"

definition add_file :: "jstr \<Rightarrow> guest_options \<Rightarrow> guest_options" where
  "add_file f opt = opt\<lparr>g_select := (g_select opt)\<lparr>files := files (g_select opt) @ [f]\<rparr>\<rparr>"

definition add_exclude :: "jstr \<Rightarrow> guest_options \<Rightarrow> guest_options" where
  "add_exclude f opt = opt\<lparr>g_select := (g_select opt)\<lparr>excludeFiles := excludeFiles (g_select opt) @ [f]\<rparr>\<rparr>"

definition add_exclude_group :: "jstr \<Rightarrow> guest_options \<Rightarrow> guest_options" where
  "add_exclude_group g opt = opt\<lparr>g_select := (g_select opt)\<lparr>excludeGroups := excludeGroups (g_select opt) @ [g]\<rparr>\<rparr>"

definition parse_arg :: "jstr \<Rightarrow> guest_options \<Rightarrow> guest_options completion" where
  "parse_arg arg opt =
     (if arg = js ''--list'' then Inr (opt\<lparr>g_list := True\<rparr>)
      else if arg = js ''--json'' then Inr (opt\<lparr>g_json := True\<rparr>)
      else if starts_with (js ''--group='') arg then Inr (add_group (drop 8 arg) opt)
      else if starts_with (js ''--exclude='') arg then Inr (add_exclude (drop 10 arg) opt)
      else if starts_with (js ''--exclude-group='') arg then Inr (add_exclude_group (drop 16 arg) opt)
      else if starts_with (js ''--jobs='') arg then
        bind_c (ms (drop 7 arg)) (\<lambda>v. Inr (opt\<lparr>g_limits := (g_limits opt)\<lparr>jobs := v\<rparr>\<rparr>))
      else if starts_with (js ''--timeout-ms='') arg then
        bind_c (ms (drop 13 arg)) (\<lambda>v. Inr (opt\<lparr>g_limits := (g_limits opt)\<lparr>timeoutMs := Some v\<rparr>\<rparr>))
      else if starts_with (js ''--timeout-group='') arg then
        (let value = drop 16 arg
         in case last_index_of 58 value of
              Some (Suc k) \<Rightarrow>
                bind_c (ms (drop (Suc k + 1) value)) (\<lambda>v.
                  Inr (opt\<lparr>g_limits := (g_limits opt)\<lparr>timeoutGroups :=
                           set_key (take (Suc k) value) v (timeoutGroups (g_limits opt))\<rparr>\<rparr>))
            | _ \<Rightarrow> Inl (Error ''Invalid timeout group''))
      else if starts_with (js ''-'') arg then Inl (Error ''Unknown batch option'')
      else Inr (add_file arg opt))"

fun parse_args :: "jstr list \<Rightarrow> guest_options \<Rightarrow> guest_options completion" where
  "parse_args [] opt = Inr opt"
| "parse_args (a # as) opt = bind_c (parse_arg a opt) (\<lambda>opt'. parse_args as opt')"

definition guest_args :: "nat list \<Rightarrow> jstr list completion" where
  "guest_args bytes =
     (if length bytes < 4 \<or> length bytes > SUITE_GUEST_REQUEST_MAX_BYTES \<or> get32 bytes \<noteq> 1
      then Inl (Error ''Invalid batch request'')
      else bind_c (fatal_decode (drop 4 bytes)) (\<lambda>strings.
        if strings \<noteq> [] \<and> last strings \<noteq> 0 then Inl (Error ''Unterminated batch arguments'')
        else let args = (if strings \<noteq> [] then split_on 0 (butlast strings) else [])
             in if length args > SUITE_GUEST_MAX_ARGS \<or> list_ex (\<lambda>a. a = []) args
                then Inl (Error ''Invalid batch arguments'') else Inr args))"

definition guest_request :: "nat list \<Rightarrow> guest_options completion" where
  "guest_request bytes =
     bind_c (guest_args bytes) (\<lambda>args. bind_c (parse_args args default_options) (\<lambda>opt.
       if jobs (g_limits opt) > of_nat SUITE_BROWSER_MAX_JOBS then Inl (Error ''Invalid jobs'') else Inr opt))"

text \<open>\<open>json\<close> is the serialised report, \<open>[]\<close> without a report.\<close>

definition guestReply :: "int \<Rightarrow> jstr \<Rightarrow> jstr \<Rightarrow> nat list completion" where
  "guestReply c out json =
     (let opt = utf8_encode out; j = utf8_encode json
      in if 16 + length opt + length j > SUITE_GUEST_REPLY_MAX_BYTES
         then Inl (Error ''Batch response exceeds configured limit'')
         else Inr (le32 1 @ le32 c @ le32 (int (length opt)) @ le32 (int (length j)) @ opt @ j))"


text \<open>Decimal digits of a count in a template string.\<close>

fun decimal :: "nat \<Rightarrow> jstr" where
  "decimal n = (if n < 10 then [48 + n] else decimal (n div 10) @ [48 + n mod 10])"

declare decimal.simps [simp del]

definition listing_line :: "test \<Rightarrow> jstr" where
  "listing_line t =
     js (if skipReason t \<noteq> [] then ''SKIP '' else if expectedFailure t then ''XFAIL? '' else ''PASS? '') @
     identity t @ (if skipReason t \<noteq> [] then js '': '' @ skipReason t else []) @ [10]"

definition status_name :: "status \<Rightarrow> jstr" where
  "status_name s = js (case s of SKIP \<Rightarrow> ''SKIP'' | CANCELLED \<Rightarrow> ''CANCELLED'' | TIMEOUT \<Rightarrow> ''TIMEOUT''
     | PASS \<Rightarrow> ''PASS'' | FAIL \<Rightarrow> ''FAIL'' | XPASS \<Rightarrow> ''XPASS'' | XFAIL \<Rightarrow> ''XFAIL'')"

definition batch_output :: "report \<Rightarrow> jstr" where
  "batch_output r =
     (let s = rep_summary r
      in concat (map (\<lambda>t. status_name (res_status t) @ js '' '' @ identity (res_test t) @ [10]) (rep_tests r)) @
         js ''Suite: '' @ decimal (n_pass s) @ js '' PASS, '' @ decimal (n_fail s) @ js '' FAIL, '' @
         decimal (n_xfail s) @ js '' XFAIL, '' @ decimal (n_xpass s) @ js '' XPASS, '' @ decimal (n_skip s) @
         js '' SKIP'' @ [10])"

datatype guest_report = Listing "test list" | Batch_report report | Cancelled_report

definition error_message :: "js_error \<Rightarrow> jstr" where
  "error_message e = js (case e of RangeError m \<Rightarrow> m | SyntaxError m \<Rightarrow> m | TypeError m \<Rightarrow> m | Error m \<Rightarrow> m)"

text \<open>
  The whole of \<open>guestCommand\<close>, from what its awaits deliver: the catalogue of \<open>list\<close>, whether the
  command was cancelled by then, the report of \<open>run\<close>, and whether it was cancelled when an error is
  caught. \<open>stringify\<close> is \<open>JSON.stringify\<close> on the report object, whose test entries also carry
  fields of the worker's messages that the model does not have.
\<close>

definition guest_result ::
  "(guest_report \<Rightarrow> jstr) \<Rightarrow> nat list \<Rightarrow> test list completion \<Rightarrow> bool \<Rightarrow> (guest_options \<Rightarrow> report completion) \<Rightarrow> nat list completion"
where
  "guest_result stringify bytes catalogue cancelled1 run =
     bind_c (guest_request bytes) (\<lambda>opt.
     bind_c catalogue (\<lambda>tests.
     if cancelled1 then Inl (Error ''Batch cancelled before enumeration'')
     else bind_c (select tests (g_select opt)) (\<lambda>sel.
       if \<not> list_all (\<lambda>(g, _). list_ex (\<lambda>t. group t = g) tests) (timeoutGroups (g_limits opt))
       then Inl (Error ''Unknown timeout group'')
       else if g_list opt then
         (let text = stringify (Listing sel) @ [10]
          in guestReply 0 (if g_json opt then text else concat (map listing_line sel)) text)
       else bind_c (run opt) (\<lambda>rep.
         let text = stringify (Batch_report rep) @ [10]
         in guestReply (int (exitCode rep)) (if g_json opt then text else batch_output rep) text))))"

definition guestCommand ::
  "(guest_report \<Rightarrow> jstr) \<Rightarrow> bool \<Rightarrow> nat list \<Rightarrow> test list completion \<Rightarrow> bool \<Rightarrow> (guest_options \<Rightarrow> report completion) \<Rightarrow> bool
     \<Rightarrow> nat list completion"
where
  "guestCommand stringify busy bytes catalogue cancelled1 run cancelled2 =
     (case (if busy then Inl (Error ''A batch is already running'')
            else guest_result stringify bytes catalogue cancelled1 run) of
        Inr reply \<Rightarrow> Inr reply
      | Inl e \<Rightarrow>
          if \<not> busy \<and> cancelled2
          then guestReply 130 (js ''waste-test: cancelled before enumeration'' @ [10]) (stringify Cancelled_report @ [10])
          else guestReply 2 (js ''waste-test: '' @ error_message e @ [10]) [])"

end
