(* ===== verification/Suite_Props.thy ===== *)
theory Suite_Props
  imports Suite_Model
begin

text \<open>
  Correctness of the batch controller: a batch always terminates and accounts for every selected
  test exactly once, whatever the order in which workers answer; a test passes only on a complete
  and consistent report; a request settles once and never leaks a worker; and the binary protocol
  with guest processes round-trips.
\<close>

subsection \<open>The batch invariant\<close>

definition waits :: "batch \<Rightarrow> nat \<Rightarrow> nat \<Rightarrow> bool" where
  "waits b c i \<longleftrightarrow> c < length (consumers b) \<and> consumers b ! c = Waiting i"

definition batch_inv :: "batch \<Rightarrow> bool" where
  "batch_inv b \<longleftrightarrow>
     length (records b) = length (selected b) \<and> next_index b \<le> length (selected b) \<and>
     consumers b \<noteq> [] \<and>
     (\<forall>c i. waits b c i \<longrightarrow> i < next_index b) \<and>
     (\<forall>c d i. waits b c i \<longrightarrow> waits b d i \<longrightarrow> c = d) \<and>
     (\<forall>i < length (selected b). records b ! i \<noteq> None \<longleftrightarrow> i < next_index b \<and> (\<forall>c. \<not> waits b c i)) \<and>
     (\<forall>i < length (selected b). \<forall>r. records b ! i = Some r \<longrightarrow> res_test r = selected b ! i) \<and>
     (Finished \<in> set (consumers b) \<longrightarrow> next_index b = length (selected b))"

lemma waits_update:
  "waits (b\<lparr>consumers := (consumers b)[c := v]\<rparr>) d i \<longleftrightarrow>
     (if d = c then c < length (consumers b) \<and> v = Waiting i else waits b d i)"
  by (auto simp: waits_def nth_list_update)

lemma waits_frame [simp]:
  "waits (b\<lparr>records := rs\<rparr>) = waits b" "waits (b\<lparr>next_index := k\<rparr>) = waits b"
  "waits (b\<lparr>cancelled := k'\<rparr>) = waits b"
  by (auto simp: waits_def fun_eq_iff)

lemma new_batch_inv:
  assumes "1 \<le> jobs l" and "ts \<noteq> []"
  shows "batch_inv (new_batch l ts)"
proof -
  have "(1::rat) \<le> of_nat (length ts)" using assms(2) by (cases ts) auto
  with assms(1) have "1 \<le> min (jobs l) (of_nat (length ts))" by (simp only: min.bounded_iff)
  then have "1 \<le> \<lfloor>min (jobs l) (of_nat (length ts))\<rfloor>" by (simp only: one_le_floor)
  then have "nat \<lfloor>min (jobs l) (of_nat (length ts))\<rfloor> \<noteq> 0" by linarith
  then show ?thesis
    by (auto simp: batch_inv_def new_batch_def waits_def simp del: nat_eq_iff2 nat_0_iff)
qed

lemma batch_invD:
  assumes "batch_inv b"
  shows "length (records b) = length (selected b)" "next_index b \<le> length (selected b)" "consumers b \<noteq> []"
    "waits b c i \<Longrightarrow> i < next_index b" "waits b c i \<Longrightarrow> waits b d i \<Longrightarrow> c = d"
    "i < length (selected b) \<Longrightarrow> records b ! i \<noteq> None \<longleftrightarrow> i < next_index b \<and> (\<forall>c. \<not> waits b c i)"
    "i < length (selected b) \<Longrightarrow> records b ! i = Some r \<Longrightarrow> res_test r = selected b ! i"
    "Finished \<in> set (consumers b) \<Longrightarrow> next_index b = length (selected b)"
  using assms unfolding batch_inv_def by metis+

lemma set_update_Finished:
  "Finished \<in> set (xs[c := v]) \<Longrightarrow> v \<noteq> Finished \<Longrightarrow> Finished \<in> set xs"
  using set_update_subset_insert [of xs c v] by auto

lemma take_test_inv:
  assumes "batch_inv b" and "c < length (consumers b)" and "consumers b ! c = Ready"
  shows "batch_inv (take_test c b)"
proof -
  have nw: "\<not> waits b c i" for i using assms(3) by (simp add: waits_def)
  show ?thesis
  proof (cases "next_index b < length (selected b)")
    case False
    then have t: "take_test c b = b\<lparr>consumers := (consumers b)[c := Finished]\<rparr>" by (simp add: take_test_def Let_def)
    have w: "waits (take_test c b) d i \<longleftrightarrow> waits b d i" for d i
      unfolding t waits_update using nw by auto
    show ?thesis using assms(1,2) False unfolding batch_inv_def w by (auto simp: t)
  next
    case True
    show ?thesis
    proof (cases "skipReason (selected b ! next_index b) \<noteq> [] \<or> cancelled b")
      case now: True
      define s where "s = (if skipReason (selected b ! next_index b) \<noteq> [] then SKIP else CANCELLED)"
      have t: "take_test c b = b\<lparr>next_index := next_index b + 1, records := (records b)[next_index b :=
           Some \<lparr>res_test = selected b ! next_index b, res_status = s, res_counts = None, res_error = None\<rparr>]\<rparr>"
        using True now by (simp add: take_test_def Let_def s_def)
      show ?thesis unfolding t using assms(1) True
        unfolding batch_inv_def by (auto simp: nth_list_update less_Suc_eq)
    next
      case False
      with True have t: "take_test c b =
          (b\<lparr>next_index := next_index b + 1\<rparr>)\<lparr>consumers := (consumers b)[c := Waiting (next_index b)]\<rparr>"
        by (simp add: take_test_def Let_def)
      have w: "waits (take_test c b) d i \<longleftrightarrow> (if d = c then i = next_index b else waits b d i)" for d i
        unfolding t using assms(2) waits_update [of "b\<lparr>next_index := next_index b + 1\<rparr>" c] by auto
      show ?thesis
        using assms(1,2) True nw set_update_Finished [of "consumers b" c "Waiting (next_index b)"]
        unfolding batch_inv_def w by (auto simp: t less_Suc_eq split: if_splits)
    qed
  qed
qed

lemma answer_test_inv:
  assumes "batch_inv b" and "c < length (consumers b)" and "consumers b ! c = Waiting i"
  shows "batch_inv (answer_test c r b)"
proof -
  note inv = batch_invD [OF assms(1)]
  have wi: "waits b c i" using assms by (simp add: waits_def)
  then have i: "i < next_index b" "i < length (selected b)" using inv(2) inv(4) [OF wi] by simp_all
  have uniq: "waits b d i \<longleftrightarrow> d = c" for d using inv(5) [OF wi, of d] wi by blast
  have only: "waits b c j \<longleftrightarrow> j = i" for j using assms(2,3) by (auto simp: waits_def)
  let ?b = "answer_test c r b"
  have b: "?b = (b\<lparr>records := (records b)[i := Some (judge (selected b ! i) r)]\<rparr>)\<lparr>consumers := (consumers b)[c := Ready]\<rparr>"
    using assms(3) by (simp add: answer_test_def)
  have w: "waits ?b d j \<longleftrightarrow> d \<noteq> c \<and> waits b d j" for d j
    unfolding b using waits_update [of "b\<lparr>records := (records b)[i := Some (judge (selected b ! i) r)]\<rparr>" c] by auto
  have rec: "records ?b ! j = (if j = i then Some (judge (selected b ! i) r) else records b ! j)"
    if "j < length (selected b)" for j
    using that inv(1) by (simp add: b nth_list_update)
  have jt: "res_test (judge t r) = t" for t by (simp add: judge_def Let_def)
  have some: "records ?b ! j \<noteq> None \<longleftrightarrow> j < next_index b \<and> (\<forall>d. \<not> (d \<noteq> c \<and> waits b d j))"
    if "j < length (selected b)" for j
  proof (cases "j = i")
    case True
    then show ?thesis using rec [OF that] i uniq by simp
  next
    case False
    then have "(d \<noteq> c \<and> waits b d j) = waits b d j" for d using only [of j] by (cases "d = c") simp_all
    then show ?thesis using rec [OF that] False inv(6) [OF that] by simp
  qed
  have name: "res_test q = selected b ! j" if "j < length (selected b)" "records ?b ! j = Some q" for j q
    using rec [OF that(1)] that jt inv(7) [OF that(1)] by (auto split: if_splits)
  have fin: "Finished \<in> set (consumers ?b) \<longrightarrow> next_index b = length (selected b)"
    using inv(8) set_update_Finished [of "consumers b" c Ready] by (simp add: b)
  have dims: "length (records ?b) = length (selected ?b)" "next_index ?b = next_index b" "selected ?b = selected b"
    "consumers ?b \<noteq> []" using inv(1,3) by (simp_all add: b)
  have "\<forall>d j. d \<noteq> c \<and> waits b d j \<longrightarrow> j < next_index b" using inv(4) by blast
  moreover have "\<forall>d e j. d \<noteq> c \<and> waits b d j \<longrightarrow> e \<noteq> c \<and> waits b e j \<longrightarrow> d = e" using inv(5) by blast
  moreover have "\<forall>j<length (selected b). (records ?b ! j \<noteq> None) = (j < next_index b \<and> (\<forall>d. \<not> (d \<noteq> c \<and> waits b d j)))"
    using some by blast
  moreover have "\<forall>j<length (selected b). \<forall>q. records ?b ! j = Some q \<longrightarrow> res_test q = selected b ! j"
    using name by blast
  ultimately show ?thesis unfolding batch_inv_def w dims(2,3)
    using dims(1,4) fin inv(2) unfolding dims(3) by - (intro conjI; assumption)
qed

lemma batch_step_inv: "batch_step b b' \<Longrightarrow> batch_inv b \<Longrightarrow> batch_inv b'"
proof (induction rule: batch_step.induct)
  case (cancel b)
  then show ?case by (simp add: cancel_batch_def batch_inv_def)
qed (simp_all add: take_test_inv answer_test_inv)

lemma batch_steps_inv: "batch_step\<^sup>*\<^sup>* b b' \<Longrightarrow> batch_inv b \<Longrightarrow> batch_inv b'"
  by (induction rule: rtranclp_induct) (auto intro: batch_step_inv)


subsection \<open>Progress\<close>

fun weight :: "consumer \<Rightarrow> nat" where
  "weight Ready = 1"
| "weight (Waiting i) = 2"
| "weight Finished = 0"

definition work :: "batch \<Rightarrow> nat" where
  "work b = 2 * (length (selected b) - next_index b) + sum_list (map weight (consumers b)) + (if cancelled b then 0 else 1)"

lemma sum_list_update_weight:
  "c < length xs \<Longrightarrow> sum_list (map weight (xs[c := v])) + weight (xs ! c) = sum_list (map weight xs) + weight v"
  by (induction xs arbitrary: c) (auto split: nat.split)

lemma batch_step_work:
  assumes "batch_step b b'" and "batch_inv b"
  shows "work b' < work b"
  using assms(1)
proof cases
  case (take c)
  then show ?thesis
    using sum_list_update_weight [of c "consumers b" Finished]
      sum_list_update_weight [of c "consumers b" "Waiting (next_index b)"]
    by (auto simp: take_test_def Let_def work_def)
next
  case (answer c i r)
  then show ?thesis using sum_list_update_weight [of c "consumers b" Ready]
    by (auto simp: answer_test_def work_def)
next
  case cancel
  then show ?thesis by (simp add: cancel_batch_def work_def)
qed

lemma batch_not_done:
  assumes "\<not> batch_done b"
  shows "\<exists>b'. batch_step b b'"
proof -
  obtain c where c: "c < length (consumers b)" "consumers b ! c \<noteq> Finished"
    using assms by (auto simp: batch_done_def list_all_length)
  then show ?thesis by (cases "consumers b ! c") (auto intro: batch_step.intros)
qed

lemma batch_done_records:
  assumes "batch_inv b" and "batch_done b" and "i < length (selected b)"
  shows "\<exists>r. records b ! i = Some r \<and> res_test r = selected b ! i"
proof -
  have "\<not> waits b c j" for c j using assms(2) by (auto simp: waits_def batch_done_def list_all_length)
  moreover have "Finished \<in> set (consumers b)"
    using assms(2) batch_invD(3) [OF assms(1)] by (cases "consumers b") (auto simp: batch_done_def)
  ultimately have "records b ! i \<noteq> None"
    using batch_invD(6,8) [OF assms(1)] assms(3) by simp
  then show ?thesis using batch_invD(7) [OF assms(1,3)] by blast
qed

definition batch_started :: "limits \<Rightarrow> test list \<Rightarrow> batch \<Rightarrow> bool" where
  "batch_started l ts b \<longleftrightarrow> batch_step\<^sup>*\<^sup>* (new_batch l ts) b"

lemma batch_started_inv:
  assumes "valid_limits l" "ts \<noteq> []" "batch_started l ts b"
  shows "batch_inv b"
  using assms new_batch_inv [of l ts] batch_steps_inv by (auto simp: valid_limits_def batch_started_def)

lemma batch_step_frame:
  "batch_step b b' \<Longrightarrow> selected b' = selected b \<and> length (consumers b') = length (consumers b)"
  by (induction rule: batch_step.induct) (auto simp: take_test_def answer_test_def cancel_batch_def Let_def split: consumer.split)

lemma batch_started_frame:
  assumes "batch_started l ts b"
  shows "selected b = ts \<and> length (consumers b) = nat \<lfloor>min (jobs l) (of_nat (length ts))\<rfloor>"
  using assms unfolding batch_started_def
  by (induction rule: rtranclp_induct) (auto simp: new_batch_def dest: batch_step_frame)

subsection \<open>Counting\<close>

definition counted :: "summary \<Rightarrow> nat" where
  "counted s = n_pass s + n_fail s + n_xfail s + n_xpass s + n_skip s"

lemma fold_counts:
  "counted (fold count_record rs s) = counted s + length rs \<and>
   n_fail (fold count_record rs s) = n_fail s + length (filter (\<lambda>r. res_status r \<in> {FAIL, TIMEOUT, CANCELLED}) rs) \<and>
   n_xpass (fold count_record rs s) = n_xpass s + length (filter (\<lambda>r. res_status r = XPASS) rs)"
proof (induction rs arbitrary: s)
  case (Cons r rs)
  show ?case using Cons [of "count_record r s"]
    by (cases "res_status r") (simp_all add: count_record_def counted_def)
qed simp


lemma summarise_counts:
  "counted (summarise rs) = length rs"
  "n_fail (summarise rs) = 0 \<and> n_xpass (summarise rs) = 0 \<longleftrightarrow> list_all (\<lambda>r. res_status r \<in> {PASS, XFAIL, SKIP}) rs"
proof -
  have st: "res_status r \<in> {PASS, XFAIL, SKIP} \<longleftrightarrow> res_status r \<notin> {FAIL, TIMEOUT, CANCELLED} \<and> res_status r \<noteq> XPASS" for r
    by (cases "res_status r") auto
  let ?z = "\<lparr>n_pass = 0, n_fail = 0, n_xfail = 0, n_xpass = 0, n_skip = 0, failures = [], unexpectedPasses = []\<rparr>"
  have "counted ?z = 0" by (simp add: counted_def)
  with fold_counts [of rs ?z] show "counted (summarise rs) = length rs" by (simp add: summarise_def)
  show "n_fail (summarise rs) = 0 \<and> n_xpass (summarise rs) = 0 \<longleftrightarrow> list_all (\<lambda>r. res_status r \<in> {PASS, XFAIL, SKIP}) rs"
    unfolding st using fold_counts [of rs ?z] by (simp add: summarise_def list_all_iff filter_empty_conv) blast
qed

subsection \<open>The properties of a batch\<close>

definition sample_test :: "string \<Rightarrow> test" where
  "sample_test s = \<lparr>identity = js s, path = js s, test_file = js s, group = js ''g'', mode = [], unsupported = False,
     skipReason = [], expectedFailure = False\<rparr>"

definition two_jobs :: limits where
  "two_jobs = \<lparr>jobs = 2, timeoutMs = None, timeoutGroups = []\<rparr>"

lemma two_jobs_valid: "valid_limits two_jobs"
  by code_simp


text \<open>One test, one worker, a consistent report: a complete run.\<close>

definition good_report :: response where
  "good_report = \<lparr>r_error = [], r_cancelled = False, r_timedOut = False, r_results = Some [True, True],
     r_ok = Some True, r_total = Some 2, r_passed = Some 2, r_completed = Some True,
     r_setup = Some \<lparr>s_complete = True, s_total = Some 1, s_passed = Some 1, s_failures = Some 0\<rparr>\<rparr>"

definition one_run :: batch where
  "one_run = take_test 0 (answer_test 0 good_report (take_test 0 (new_batch two_jobs [sample_test ''a''])))"

lemma one_run_started: "batch_started two_jobs [sample_test ''a''] one_run"
proof -
  let ?b0 = "new_batch two_jobs [sample_test ''a'']"
  let ?b1 = "take_test 0 ?b0" and ?b2 = "answer_test 0 good_report (take_test 0 ?b0)"
  have "consumers ?b0 = [Ready]" "consumers ?b1 = [Waiting 0]" "consumers ?b2 = [Ready]" by code_simp+
  then have "batch_step ?b0 ?b1" "batch_step ?b1 ?b2" "batch_step ?b2 one_run"
    unfolding one_run_def by (auto intro!: batch_step.take batch_step.answer)
  then show ?thesis unfolding batch_started_def by (meson converse_rtranclp_into_rtranclp rtranclp.rtrancl_refl)
qed


text \<open>
  C16. Every batch terminates: there is no infinite sequence of steps, and a batch that can make no
  further step has finished, so that if each request is eventually answered (every request has a
  timeout) the batch reaches its report.
\<close>

theorem batch_terminates:
  assumes "valid_limits l" and "ts \<noteq> []"
  shows "\<not> (\<exists>f. f 0 = new_batch l ts \<and> (\<forall>n. batch_step (f n) (f (Suc n)))) \<and>
     (\<forall>b. batch_started l ts b \<longrightarrow> (\<forall>b'. \<not> batch_step b b') \<longrightarrow> batch_done b)"
proof -
  have False if "f 0 = new_batch l ts" "\<forall>n. batch_step (f n) (f (Suc n))" for f
  proof -
    have st: "batch_started l ts (f n)" for n
      using that by (induction n) (auto simp: batch_started_def intro: rtranclp.rtrancl_into_rtrancl)
    have "work (f n) + n \<le> work (f 0)" for n
    proof (induction n)
      case (Suc n)
      have "work (f (Suc n)) < work (f n)"
        using that(2) batch_step_work batch_started_inv [OF assms st] by blast
      with Suc show ?case by simp
    qed simp
    from this [of "Suc (work (f 0))"] show False by simp
  qed
  then show ?thesis using batch_not_done by blast
qed

theorem batch_terminates_witness:
  "\<not> (\<exists>f. f 0 = new_batch two_jobs [sample_test ''a''] \<and> (\<forall>n. batch_step (f n) (f (Suc n))))"
  using batch_terminates [OF two_jobs_valid, of "[sample_test ''a'']"] by blast

subsection \<open>Judgements\<close>

text \<open>What a report must say for its test to count as passed.\<close>

definition all_passed :: "response \<Rightarrow> bool" where
  "all_passed r \<longleftrightarrow>
     (\<exists>rs s. r_results r = Some rs \<and> list_all id rs \<and> r_total r = Some (int (length rs)) \<and>
        r_passed r = Some (int (length rs)) \<and> r_completed r = Some True \<and> r_ok r = Some True \<and>
        r_setup r = Some s \<and> s_complete s \<and> s_failures s = Some 0 \<and> s_passed s = s_total s \<and> s_total s \<noteq> None) \<and>
     r_error r = [] \<and> \<not> r_cancelled r \<and> \<not> r_timedOut r"

text \<open>
  C20. A test is recorded as passed (\<open>PASS\<close>, or \<open>XPASS\<close> where a failure is expected) only on a
  report without an error in which every assertion passed, the counts agree with the list of
  results, the run was completed and every setup step succeeded.
\<close>

theorem pass_needs_complete_report:
  assumes "res_status (judge t r) \<in> {PASS, XPASS}"
  shows "all_passed r \<and> (res_status (judge t r) = XPASS \<longleftrightarrow> expectedFailure t)"
proof -
  have c: "\<not> r_cancelled r" "\<not> r_timedOut r" "\<not> inconsistent r" "r_ok r = Some True"
    "res_status (judge t r) = (if expectedFailure t then XPASS else PASS)"
    using assms by (auto simp: judge_def Let_def split: if_splits)
  obtain rs tot comp s st sp sf where r: "r_results r = Some rs" "r_total r = Some tot" "r_completed r = Some comp"
    "r_setup r = Some s" "s_total s = Some st" "s_passed s = Some sp" "s_failures s = Some sf"
    using c(3,4) by (auto simp: inconsistent_def split: option.splits)
  then have "tot = int (length rs)" "r_passed r = Some (int (length (filter id rs)))" "s_complete s"
    "int sf = st - sp" "r_passed r = Some tot" "comp" "sp = st" "r_error r = []"
    using c(3,4) by (auto simp: inconsistent_def)
  moreover from this have "filter id rs = rs" by (metis filter_True length_filter_less nat_neq_iff of_nat_eq_iff option.inject)
  then have "list_all id rs" by (simp add: filter_id_conv list_all_iff)
  ultimately show ?thesis using r c by (auto simp: all_passed_def)
qed

theorem pass_needs_complete_report_witness:
  "res_status (judge (sample_test ''a'') good_report) = PASS \<and> all_passed good_report"
proof -
  have "res_status (judge (sample_test ''a'') good_report) = PASS" by code_simp
  with pass_needs_complete_report [of "sample_test ''a''" good_report] show ?thesis by simp
qed


subsection \<open>Requests\<close>

fun request_run :: "request_event list \<Rightarrow> request \<Rightarrow> request" where
  "request_run [] q = q"
| "request_run (e # es) q = request_run es (request_step e q)"

fun possible_run :: "request_event list \<Rightarrow> request \<Rightarrow> bool" where
  "possible_run [] q = True"
| "possible_run (e # es) q = (possible e q \<and> possible_run es (request_step e q))"

definition request_inv :: "request \<Rightarrow> bool" where
  "request_inv q \<longleftrightarrow>
     (finished q \<longleftrightarrow> outcome q \<noteq> None) \<and> (finished q \<longrightarrow> worker q \<noteq> Alive) \<and>
     posted q \<le> 1 \<and> (worker q = No_worker \<longrightarrow> posted q = 0) \<and>
     (\<not> finished q \<longrightarrow> length (out_text q) \<le> SUITE_OUTPUT_MAX_BYTES)"

lemmas request_defs = request_step_def on_message_def complete_def possible_def

lemma request_step_inv:
  assumes "request_inv q" and "possible e q"
  shows "request_inv (request_step e q)"
proof (cases e)
  case (Message m)
  then show ?thesis using assms by (cases m) (auto simp: request_defs request_inv_def Let_def)
qed (use assms in \<open>auto simp: request_defs request_inv_def Let_def\<close>)

lemma request_step_settled:
  assumes "request_inv q" and "possible e q" and "finished q"
  shows "outcome (request_step e q) = outcome q \<and> finished (request_step e q)"
  using assms by (cases e) (auto simp: request_defs request_inv_def)

lemma request_run_inv: "possible_run es q \<Longrightarrow> request_inv q \<Longrightarrow> request_inv (request_run es q)"
  by (induction es arbitrary: q) (auto simp: request_step_inv)

lemma request_run_settled:
  "possible_run es q \<Longrightarrow> request_inv q \<Longrightarrow> finished q \<Longrightarrow> outcome (request_run es q) = outcome q"
  by (induction es arbitrary: q) (auto simp: request_step_inv request_step_settled)

lemma request_run_append: "request_run (es @ fs) q = request_run fs (request_run es q)"
  by (induction es arbitrary: q) auto

lemma possible_run_append: "possible_run (es @ fs) q \<longleftrightarrow> possible_run es q \<and> possible_run fs (request_run es q)"
  by (induction es arbitrary: q) auto

lemma new_request_inv: "request_inv new_request"
  by (simp add: request_inv_def new_request_def SUITE_OUTPUT_MAX_BYTES_def)

text \<open>
  C17. A request to a worker settles at most once: over every possible sequence of timer, cancel,
  worker and message events, the outcome is never replaced. The start message is posted at most
  once, and only to a worker of an unsettled request; a settled request never has a live worker,
  even when the worker is created after the timeout; and the collected output of an unsettled
  request stays within its limit.
\<close>

theorem request_settles_once:
  assumes "possible_run (es @ fs) new_request"
  defines "q \<equiv> request_run es new_request" and "q' \<equiv> request_run (es @ fs) new_request"
  shows "(outcome q \<noteq> None \<longrightarrow> outcome q' = outcome q) \<and> posted q \<le> 1 \<and>
     (outcome q \<noteq> None \<longrightarrow> worker q \<noteq> Alive) \<and>
     (outcome q = None \<longrightarrow> length (out_text q) \<le> SUITE_OUTPUT_MAX_BYTES)"
proof -
  have p: "possible_run es new_request" "possible_run fs q"
    using assms(1) by (simp_all add: possible_run_append q_def)
  have i: "request_inv q" unfolding q_def by (rule request_run_inv [OF p(1) new_request_inv])
  then show ?thesis
    using request_run_settled [OF p(2) i] by (auto simp: request_inv_def q'_def q_def request_run_append)
qed

theorem request_settles_once_witness:
  "possible_run ([Worker_created, Timer] @ [Cancel]) new_request \<and>
   outcome (request_run ([Worker_created, Timer] @ [Cancel]) new_request)
     = outcome (request_run [Worker_created, Timer] new_request) \<and>
   worker (request_run [Worker_created, Timer] new_request) \<noteq> Alive"
proof -
  have "possible_run ([Worker_created, Timer] @ [Cancel]) new_request"
    "outcome (request_run [Worker_created, Timer] new_request) \<noteq> None" by code_simp+
  with request_settles_once [of "[Worker_created, Timer]" "[Cancel]"] show ?thesis by blast
qed

subsection \<open>The protocol with guest processes\<close>

text \<open>A request as the guest command encodes it: version 1 and NUL-terminated arguments.\<close>

definition encode_request :: "jstr list \<Rightarrow> nat list" where
  "encode_request args = le32 1 @ utf8_encode (concat (map (\<lambda>a. a @ [0]) args))"

lemma concat_join: "ws \<noteq> [] \<Longrightarrow> concat (map (\<lambda>a. a @ [x]) ws) = join_with x ws @ [x]"
  by (induction ws rule: join_with.induct) auto

lemma fatal_decode_encode: "list_all scalar cs \<Longrightarrow> fatal_decode (utf8_encode cs) = Inr cs"
  by (simp add: fatal_decode_def utf8_decode_raw_encode list_all_iff)

text \<open>
  C22. A request for a batch round-trips: non-empty arguments of Unicode scalar values without NUL,
  within the limits on their number and total size, arrive exactly as they were sent.
\<close>

theorem guest_request_roundtrip:
  assumes "list_all (\<lambda>a. a \<noteq> [] \<and> 0 \<notin> set a \<and> list_all scalar a) args"
    and "length args \<le> SUITE_GUEST_MAX_ARGS" and "length (encode_request args) \<le> SUITE_GUEST_REQUEST_MAX_BYTES"
  shows "guest_args (encode_request args) = Inr args"
proof -
  let ?s = "concat (map (\<lambda>a. a @ [0]) args)"
  have "list_all scalar ?s" using assms(1) by (induction args) (auto simp: scalar_def)
  then have d: "fatal_decode (drop 4 (encode_request args)) = Inr ?s"
    by (simp add: encode_request_def fatal_decode_encode)
  have h: "get32 (encode_request args) = 1" "4 \<le> length (encode_request args)"
    using get32_le32 [of 1] by (simp_all add: encode_request_def)
  have e: "\<not> list_ex (\<lambda>a. a = []) args" using assms(1) by (auto simp: list_all_iff list_ex_iff)
  show ?thesis
  proof (cases "args = []")
    case True
    then show ?thesis using d h assms(3) by (simp add: guest_args_def)
  next
    case False
    then have "?s = join_with 0 args @ [0]" by (rule concat_join)
    moreover have "split_on 0 (join_with 0 args) = args"
      using assms(1) False by (intro split_on_join) (auto simp: list_all_iff)
    ultimately show ?thesis using d h e assms(2,3) by (simp add: guest_args_def Let_def)
  qed
qed

theorem guest_request_roundtrip_witness:
  "guest_args (encode_request [js ''--jobs=3'', [233, 8364, 128512]]) = Inr [js ''--jobs=3'', [233, 8364, 128512]]"
  by (rule guest_request_roundtrip) code_simp+

text \<open>How the guest reads a reply.\<close>

definition decode_reply :: "nat list \<Rightarrow> nat \<times> nat \<times> jstr completion \<times> jstr completion" where
  "decode_reply bs =
     (let n = get32 (drop 8 bs); k = get32 (drop 12 bs)
      in (get32 bs, get32 (drop 4 bs), fatal_decode (take n (drop 16 bs)), fatal_decode (take k (drop (16 + n) bs))))"

text \<open>
  A reply to a guest round-trips: version, exit code, output and serialised report are read
  back exactly, and no reply exceeds its size limit.
\<close>

theorem guestReply_roundtrip:
  assumes "guestReply c out json = Inr bs" and "0 \<le> c" "c < 2 ^ 32"
    and "list_all scalar out" and "list_all scalar json"
  shows "decode_reply bs = (1, nat c, Inr out, Inr json) \<and> length bs \<le> SUITE_GUEST_REPLY_MAX_BYTES"
proof -
  let ?o = "utf8_encode out" and ?j = "utf8_encode json"
  have bs: "bs = le32 1 @ le32 c @ le32 (int (length ?o)) @ le32 (int (length ?j)) @ ?o @ ?j"
    and lim: "16 + length ?o + length ?j \<le> SUITE_GUEST_REPLY_MAX_BYTES"
    using assms(1) by (auto simp: guestReply_def Let_def split: if_splits)
  have "length ?o < 2 ^ 32" "length ?j < 2 ^ 32" using lim by (simp_all add: SUITE_GUEST_REPLY_MAX_BYTES_def)
  then have "get32 (drop 8 bs) = length ?o" "get32 (drop 12 bs) = length ?j" "get32 bs = 1" "get32 (drop 4 bs) = nat c"
    using get32_le32 [of "int (length ?o)"] get32_le32 [of "int (length ?j)"] get32_le32 [of 1] get32_le32 [OF assms(2,3)]
    by (simp_all add: bs)
  then show ?thesis using lim assms(4,5)
    by (simp add: decode_reply_def bs fatal_decode_encode)
qed

theorem guestReply_roundtrip_witness:
  "decode_reply (le32 1 @ le32 130 @ le32 3 @ le32 0 @ [104, 105, 10]) = (1, 130, Inr (js ''hi'' @ [10]), Inr [])"
proof -
  have "guestReply 130 (js ''hi'' @ [10]) [] = Inr (le32 1 @ le32 130 @ le32 3 @ le32 0 @ [104, 105, 10])" by code_simp
  moreover have "list_all scalar (js ''hi'' @ [10])" "list_all scalar []" by code_simp+
  ultimately show ?thesis using guestReply_roundtrip by fastforce
qed


subsection \<open>Options of a guest command\<close>

lemma ms_valid:
  assumes "ms t = Inr v"
  shows "validMs v"
proof -
  have d: "list_all is_digit t" and n: "to_number t = Finite False v" and b: "1 \<le> v" "v \<le> of_nat EXECUTION_MAX_TIMEOUT_MS"
    using assms by (auto simp: ms_def split: if_splits number.splits bool.splits)
  have "46 \<notin> set t" "101 \<notin> set t" "69 \<notin> set t" using d by (auto simp: list_all_iff is_digit_def)
  moreover have "js_number t = Some v" using n by (simp add: js_number_def)
  ultimately have "v \<in> \<int>" by (rule js_number_Ints)
  then show ?thesis using b by (auto simp: validMs_def elim: Ints_cases)
qed

definition sane :: "limits \<Rightarrow> bool" where
  "sane l \<longleftrightarrow> validMs (jobs l) \<and> (case timeoutMs l of None \<Rightarrow> True | Some v \<Rightarrow> validMs v) \<and>
     list_all (\<lambda>(_, v). validMs v) (timeoutGroups l)"

lemma sane_set_key: "list_all (\<lambda>(_, v). validMs v) xs \<Longrightarrow> validMs v \<Longrightarrow> list_all (\<lambda>(_, v). validMs v) (set_key k v xs)"
  by (induction xs) auto

lemma parse_arg_sane:
  assumes "parse_arg a opt = Inr opt'" and "sane (g_limits opt)"
  shows "sane (g_limits opt')"
  using assms sane_set_key
  by (auto simp: parse_arg_def sane_def add_group_def add_file_def add_exclude_def add_exclude_group_def Let_def
      split: if_splits option.splits nat.splits dest!: ms_valid elim!: bind_c_InrE)

lemma parse_args_sane: "parse_args as opt = Inr opt' \<Longrightarrow> sane (g_limits opt) \<Longrightarrow> sane (g_limits opt')"
  by (induction as arbitrary: opt) (auto elim!: bind_c_InrE dest: parse_arg_sane)

text \<open>
  The limits of a guest command that is accepted are limits that \<open>run\<close> accepts: between one and
  \<open>SUITE_BROWSER_MAX_JOBS\<close> jobs, and whole positive deadlines within the maximum, so a guest can
  make neither the job count nor a deadline unbounded. A batch that starts with them has at most
  that many consumers and waits for a positive, bounded time for each test.
\<close>

theorem guest_limits_accepted:
  assumes "guest_request bytes = Inr opt"
  shows "valid_limits (g_limits opt) \<and> 0 < budget (g_limits opt) t \<and> budget (g_limits opt) t \<le> of_nat EXECUTION_MAX_TIMEOUT_MS"
proof -
  obtain args where "parse_args args default_options = Inr opt" and j: "jobs (g_limits opt) \<le> of_nat SUITE_BROWSER_MAX_JOBS"
    using assms by (auto simp: guest_request_def elim!: bind_c_InrE split: if_splits)
  moreover have "sane (g_limits default_options)" by code_simp
  ultimately have s: "sane (g_limits opt)" using parse_args_sane by blast
  have key: "validMs v" if "map_of (timeoutGroups (g_limits opt)) g = Some v" for g v
    using s that map_of_SomeD [of "timeoutGroups (g_limits opt)" g v] by (auto simp: sane_def list_all_iff)
  have "validMs (budget (g_limits opt) t) \<or>
      budget (g_limits opt) t \<in> {of_nat SUITE_TIMEOUT_CORE_MS, of_nat SUITE_TIMEOUT_HEAVY_MS, of_nat SUITE_TIMEOUT_DEFAULT_MS}"
  proof (cases "map_of (timeoutGroups (g_limits opt)) (group t)")
    case None
    then show ?thesis using s by (cases "timeoutMs (g_limits opt)") (simp_all add: budget_def sane_def)
  next
    case (Some v)
    then show ?thesis using key [OF Some] by (simp add: budget_def)
  qed
  moreover have "valid_limits (g_limits opt)" using s j by (auto simp: sane_def valid_limits_def validMs_def)
  ultimately show ?thesis
    by (auto simp: validMs_def SUITE_TIMEOUT_CORE_MS_def SUITE_TIMEOUT_HEAVY_MS_def SUITE_TIMEOUT_DEFAULT_MS_def
        EXECUTION_MAX_TIMEOUT_MS_def)
qed

theorem guest_limits_accepted_witness:
  "\<exists>opt. guest_request (encode_request [js ''--jobs=3'', js ''--timeout-group=g:250'', js ''t'']) = Inr opt \<and>
     valid_limits (g_limits opt)"
proof -
  let ?r = "guest_request (encode_request [js ''--jobs=3'', js ''--timeout-group=g:250'', js ''t''])"
  have "\<not> isl ?r" by code_simp
  then obtain opt where "?r = Inr opt" by (cases ?r) auto
  with guest_limits_accepted show ?thesis by blast
qed


subsection \<open>Every command is answered\<close>

definition short :: "js_error \<Rightarrow> bool" where
  "short e \<longleftrightarrow> length (error_message e) < 2 ^ 20"

lemma utf8_encode1_length: "length (utf8_encode1 c) \<le> 4"
  by (simp add: utf8_encode1_def)

lemma utf8_encode_length: "length (utf8_encode cs) \<le> 4 * length cs"
proof (induction cs)
  case (Cons c cs)
  then show ?case using utf8_encode1_length [of c] by (simp add: utf8_encode_def)
qed (simp add: utf8_encode_def)

text \<open>
  The reader of a reply, the command \<open>waste-test\<close> of the guest (\<open>commands/waste-test.c\<close>): status, output and report, or a
  refusal of the reply as malformed.
\<close>

definition waste_test_read :: "nat list \<Rightarrow> (nat \<times> nat list \<times> nat list) option" where
  "waste_test_read reply =
     (if length reply < 16 \<or> get32 reply \<noteq> 1 then None
      else let status = get32 (drop 4 reply); out = get32 (drop 8 reply); json = get32 (drop 12 reply); got = length reply
           in if out > got - 16 \<or> json \<noteq> got - 16 - out \<or> status \<notin> {0, 1, 2, 130} then None
              else if status \<noteq> 2 \<and> json = 0 then None
              else Some (status, take out (drop 16 reply), take json (drop (16 + out) reply)))"

lemma guestReply_read:
  assumes "guestReply c out json = Inr bs" and "c \<in> {0, 1, 2, 130}" and "c = 2 \<or> utf8_encode json \<noteq> []"
  shows "waste_test_read bs = Some (nat c, utf8_encode out, utf8_encode json) \<and> length bs \<le> SUITE_GUEST_REPLY_MAX_BYTES"
proof -
  let ?o = "utf8_encode out" and ?j = "utf8_encode json"
  have bs: "bs = le32 1 @ le32 c @ le32 (int (length ?o)) @ le32 (int (length ?j)) @ ?o @ ?j"
    and lim: "16 + length ?o + length ?j \<le> SUITE_GUEST_REPLY_MAX_BYTES"
    using assms(1) by (auto simp: guestReply_def Let_def split: if_splits)
  have "length ?o < 2 ^ 32" "length ?j < 2 ^ 32" using lim by (simp_all add: SUITE_GUEST_REPLY_MAX_BYTES_def)
  then have words: "get32 (drop 8 bs) = length ?o" "get32 (drop 12 bs) = length ?j" "get32 bs = 1" "get32 (drop 4 bs) = nat c"
    using get32_le32 [of "int (length ?o)"] get32_le32 [of "int (length ?j)"] get32_le32 [of 1] get32_le32 [of c] assms(2)
    by (auto simp: bs)
  have len: "length bs = 16 + length ?o + length ?j" by (simp add: bs)
  have parts: "take (length ?o) (drop 16 bs) = ?o" "take (length ?j) (drop (16 + length ?o) bs) = ?j" by (simp_all add: bs)
  have ok: "nat c \<in> {0, 1, 2, 130}" "nat c = 2 \<or> length ?j \<noteq> 0" using assms(2,3) by auto
  show ?thesis
    using lim ok by (auto simp: waste_test_read_def words len parts Let_def)
qed

lemma guestReply_fits:
  assumes "length out < 2 ^ 21" and "length json < 2 ^ 20"
  shows "\<exists>bs. guestReply c out json = Inr bs"
  using utf8_encode_length [of out] utf8_encode_length [of json] assms
  by (auto simp: guestReply_def SUITE_GUEST_REPLY_MAX_BYTES_def Let_def)

lemma encoded_line: "utf8_encode (t @ [10]) \<noteq> []"
  by (simp add: utf8_encode_def utf8_encode1_def scalar_def)

lemma ms_short: "ms t = Inl e \<Longrightarrow> short e"
  by (auto simp: ms_def short_def error_message_def js_def split: if_splits number.splits bool.splits)

lemma guest_args_short: "guest_args bs = Inl e \<Longrightarrow> short e"
  by (auto simp: guest_args_def fatal_decode_def Let_def short_def error_message_def js_def bind_c_def
      split: if_splits sum.splits)

lemma parse_arg_short: "parse_arg a opt = Inl e \<Longrightarrow> short e"
  unfolding parse_arg_def Let_def
  by (auto dest!: ms_short simp: short_def error_message_def js_def bind_c_def
      split: if_splits option.splits nat.splits sum.splits)

lemma parse_args_short: "parse_args as opt = Inl e \<Longrightarrow> short e"
  by (induction as arbitrary: opt) (auto simp: bind_c_def split: sum.splits intro: parse_arg_short)

lemma guest_request_short: "guest_request bs = Inl e \<Longrightarrow> short e"
  by (auto simp: guest_request_def bind_c_def short_def error_message_def js_def split: sum.splits if_splits
      dest!: guest_args_short parse_args_short)

lemma select_short: "select ts opt = Inl e \<Longrightarrow> short e"
  by (auto simp: select_def Let_def short_def error_message_def js_def split: if_splits)

lemma guestReply_short: "guestReply c out json = Inl e \<Longrightarrow> short e"
  by (auto simp: guestReply_def Let_def short_def error_message_def js_def split: if_splits)

lemma guest_result_short:
  assumes "guest_result str bytes catalogue c1 run = Inl e"
    and "\<And>x. catalogue = Inl x \<Longrightarrow> short x" and "\<And>opt x. run opt = Inl x \<Longrightarrow> short x"
  shows "short e"
proof -
  have msg: "short (Error ''Batch cancelled before enumeration'')" "short (Error ''Unknown timeout group'')"
    by code_simp+
  show ?thesis
    using assms(1) unfolding guest_result_def Let_def
    by (auto simp: bind_c_def msg split: sum.splits if_splits
        dest: guest_request_short select_short guestReply_short assms(2,3))
qed

text \<open>What a batch or a listing that succeeds replies.\<close>

lemma guest_result_read:
  assumes "guest_result str bytes catalogue c1 run = Inr bs" and "\<And>opt rep. run opt = Inr rep \<Longrightarrow> exitCode rep \<in> {0, 1, 130}"
  shows "length bs \<le> SUITE_GUEST_REPLY_MAX_BYTES \<and> (\<exists>opt. guest_request bytes = Inr opt \<and>
    (if g_list opt
     then \<exists>tests sel. catalogue = Inr tests \<and> select tests (g_select opt) = Inr sel \<and>
       waste_test_read bs = Some (0, utf8_encode (if g_json opt then str (Listing sel) @ [10] else concat (map listing_line sel)),
         utf8_encode (str (Listing sel) @ [10]))
     else \<exists>rep. run opt = Inr rep \<and>
       waste_test_read bs = Some (exitCode rep, utf8_encode (if g_json opt then str (Batch_report rep) @ [10] else batch_output rep),
         utf8_encode (str (Batch_report rep) @ [10]))))"
proof -
  from assms(1) obtain opt tests sel where opt: "guest_request bytes = Inr opt" "catalogue = Inr tests"
    "select tests (g_select opt) = Inr sel"
    and rest: "(if g_list opt then
         guestReply 0 (if g_json opt then str (Listing sel) @ [10] else concat (map listing_line sel)) (str (Listing sel) @ [10])
       else bind_c (run opt) (\<lambda>rep.
         guestReply (int (exitCode rep)) (if g_json opt then str (Batch_report rep) @ [10] else batch_output rep) (str (Batch_report rep) @ [10]))) = Inr bs"
    unfolding guest_result_def Let_def by (auto elim!: bind_c_InrE split: if_splits)
  show ?thesis
  proof (cases "g_list opt")
    case True
    with rest guestReply_read [of 0 _ _ bs, OF _ _ disjI2 [OF encoded_line]] opt show ?thesis by fastforce
  next
    case False
    with rest obtain rep where rep: "run opt = Inr rep"
      "guestReply (int (exitCode rep)) (if g_json opt then str (Batch_report rep) @ [10] else batch_output rep) (str (Batch_report rep) @ [10]) = Inr bs"
      by (auto elim!: bind_c_InrE)
    from assms(2) [OF rep(1)] have "int (exitCode rep) \<in> {0, 1, 2, 130}" by auto
    from guestReply_read [OF rep(2) this disjI2 [OF encoded_line]] rep(1) opt(1) False show ?thesis by auto
  qed
qed

text \<open>
  C21. A guest that asks for a batch gets a reply within the size limit which the guest's reader accepts, whatever the request
  bytes are and whether or not another batch is running: the status, the listing or batch output and the
  report of a request that succeeds; status 130 and the cancellation report when the batch was cancelled; and
  otherwise status 2 and the error message, also when the report is too large to send. This assumes that the errors of enumeration
  and of the batch have messages of less than a megabyte, that the cancellation report is that short as well, and that
  the exit code of a batch is 0, 1 or 130.
\<close>

theorem guestCommand_always_replies:
  assumes "\<And>x. catalogue = Inl x \<Longrightarrow> short x" and "\<And>opt x. run opt = Inl x \<Longrightarrow> short x"
    and "length (str Cancelled_report) < 2 ^ 20 - 1" and "\<And>opt rep. run opt = Inr rep \<Longrightarrow> exitCode rep \<in> {0, 1, 130}"
  shows "\<exists>bs. guestCommand str busy bytes catalogue c1 run c2 = Inr bs \<and> length bs \<le> SUITE_GUEST_REPLY_MAX_BYTES \<and>
    (case (if busy then Inl (Error ''A batch is already running'') else guest_result str bytes catalogue c1 run) of
       Inl e \<Rightarrow> waste_test_read bs =
         Some (if \<not> busy \<and> c2
               then (130, utf8_encode (js ''waste-test: cancelled before enumeration'' @ [10]), utf8_encode (str Cancelled_report @ [10]))
               else (2, utf8_encode (js ''waste-test: '' @ error_message e @ [10]), []))
     | Inr _ \<Rightarrow> \<exists>opt. guest_request bytes = Inr opt \<and>
         (if g_list opt
          then \<exists>tests sel. catalogue = Inr tests \<and> select tests (g_select opt) = Inr sel \<and>
            waste_test_read bs = Some (0, utf8_encode (if g_json opt then str (Listing sel) @ [10] else concat (map listing_line sel)),
              utf8_encode (str (Listing sel) @ [10]))
          else \<exists>rep. run opt = Inr rep \<and>
            waste_test_read bs = Some (exitCode rep, utf8_encode (if g_json opt then str (Batch_report rep) @ [10] else batch_output rep),
              utf8_encode (str (Batch_report rep) @ [10]))))"
proof (cases "if busy then Inl (Error ''A batch is already running'') else guest_result str bytes catalogue c1 run")
  case (Inl e)
  have "short (Error ''A batch is already running'')" by code_simp
  with Inl have e: "short e" using guest_result_short [OF _ assms(1,2)] by (auto split: if_splits)
  show ?thesis
  proof (cases "\<not> busy \<and> c2")
    case True
    let ?j = "str Cancelled_report @ [10]"
    obtain bs where "guestReply 130 (js ''waste-test: cancelled before enumeration'' @ [10]) ?j = Inr bs"
      using guestReply_fits [of "js ''waste-test: cancelled before enumeration'' @ [10]" ?j 130] assms(3) by (auto simp: js_def)
    with guestReply_read [OF this _ disjI2 [OF encoded_line]] Inl True show ?thesis by (simp add: guestCommand_def)
  next
    case False
    let ?o = "js ''waste-test: '' @ error_message e @ [10]"
    obtain bs where "guestReply 2 ?o [] = Inr bs"
      using guestReply_fits [of ?o "[]" 2] e by (auto simp: js_def short_def)
    with guestReply_read [OF this] Inl False show ?thesis by (auto simp: guestCommand_def utf8_encode_def)
  qed
next
  case (Inr bs)
  then have "guest_result str bytes catalogue c1 run = Inr bs" by (simp split: if_splits)
  from guest_result_read [OF this assms(4)] Inr show ?thesis by (simp add: guestCommand_def)
qed

theorem guestCommand_always_replies_witness:
  "\<exists>bs. guestCommand (\<lambda>_. []) False [7] (Inl (Error ''no worker'')) True (\<lambda>_. Inl (Error ''x'')) True = Inr bs \<and>
     waste_test_read bs = Some (130, utf8_encode (js ''waste-test: cancelled before enumeration'' @ [10]), [10])"
proof -
  have "short (Error ''no worker'')" "short (Error ''x'')" by code_simp+
  moreover have "isl (guest_result (\<lambda>_. []) [7] (Inl (Error ''no worker'')) True (\<lambda>_. Inl (Error ''x'')))" by code_simp
  then obtain e where "guest_result (\<lambda>_. []) [7] (Inl (Error ''no worker'')) True (\<lambda>_. Inl (Error ''x'')) = Inl e" by (auto simp: isl_def)
  ultimately show ?thesis
    using guestCommand_always_replies [of "Inl (Error ''no worker'')" "\<lambda>_. Inl (Error ''x'')" "\<lambda>_. []" False "[7]" True True]
    by (auto simp: utf8_encode_def utf8_encode1_def scalar_def)
qed

end
