(* ===== verification/Worker_Model.thy ===== *)
theory Worker_Model
  imports Suite_Model
begin

text \<open>
  The worker of \<open>worker.js\<close> around the WebAssembly engine: its module state as the record \<open>worker\<close>,
  the wake-up handshake \<open>wakeIO\<close> and \<open>waitForIO\<close>, terminal output, the queues that hold events until
  the engine runs, and the handler \<open>onmessage\<close> for every type of message.

  The engine is a parameter, the record \<open>engine\<close>: \<open>invoke_export\<close> gives the result, the next state and the
  host functions called by the engine (\<open>callback\<close>) of one call of an export, \<open>exports\<close> tells which optional
  exports exist, and the three memory functions access its linear memory. Exports are assumed not
  to trap. A JavaScript function that may throw maps a state to a completion and a state; \<open>calls\<close>
  and \<open>posts\<close> record the calls of exports, with the writes to the memory, and the messages posted, oldest
  first. Diagnostic logging and the \<open>verbose\<close> flag of a message are left out.
\<close>

subsection \<open>The engine interface\<close>

text \<open>One call \<open>exp.name(arguments)\<close> of an export, with its result.\<close>

type_synonym call = "string \<times> int list \<times> int"

text \<open>Calls of imported host functions that involve the shared decoder.\<close>

datatype callback = Posix_write int "nat list" | Host_float "nat list" bool

record 'e engine =
  invoke_export :: "string \<Rightarrow> int list \<Rightarrow> 'e \<Rightarrow> int \<times> 'e \<times> callback list"
  exports :: "string \<Rightarrow> bool"
  memory_size :: "'e \<Rightarrow> nat"
  memory_read :: "nat \<Rightarrow> nat \<Rightarrow> 'e \<Rightarrow> nat list"
  memory_write :: "nat \<Rightarrow> nat list \<Rightarrow> 'e \<Rightarrow> 'e"

subsection \<open>State\<close>

record signal_entry =
  sig_number :: int
  sig_pid :: int
  sig_pgid :: int

record clocks =
  realtimeLow :: int
  realtimeHigh :: int
  monotonicLow :: int
  monotonicHigh :: int

text \<open>The message \<open>done\<close> of a run; an absent \<open>error\<close> is empty and an undefined phase \<open>None\<close>.\<close>

record asserted =
  a_pass :: bool
  a_func :: jstr
  a_error :: jstr

record setup_failure =
  f_line :: nat
  f_status :: int
  f_phase :: "jstr option"
  f_error :: jstr

record setup_state =
  su_total :: int
  su_passed :: int
  su_complete :: bool
  su_failures :: "setup_failure list"

record done_report =
  d_ok :: bool
  d_total :: int
  d_passed :: int
  d_results :: "asserted list"
  d_setup :: setup_state
  d_completed :: bool
  d_error :: jstr
  d_timedOut :: bool
  d_cancelled :: bool
  d_exited :: bool
  d_exitStatus :: int

datatype post =
    Post_output jstr
  | Post_control_error string
  | Post_guest_suite_cancel nat
  | Post_guest_suite_request nat "nat list"
  | Post_render_test_request nat
  | Post_clipboard_request nat "nat list"
  | Post_download jstr "nat list"
  | Post_upload_request jstr
  | Post_vfs "jstr list"
  | Post_started "int option" int
  | Post_io_ready "int option" int
  | Post_suite_list "test list"
  | Post_done done_report
  | Post_failed js_error

text \<open>
  The promise of \<open>waitForIO\<close>: nobody waits, \<open>ioResolve\<close> is registered, or the promise has been resolved
  and the continuation of \<open>run\<close> is about to be executed.
\<close>

datatype io_wait = No_wait | Registered | Resolved

datatype phase = Not_started | Instantiating | Pump_wait | Io_phase | Ended

record 'e worker =
  eng :: 'e
  instantiated :: bool
  phase :: phase
  guestSuitePending :: nat
  guestSuiteSequence :: nat
  renderTestPending :: nat
  clipboardPending :: nat
  io :: io_wait
  ioPending :: bool
  terminated :: bool
  engineReady :: bool
  pendingResize :: "(int \<times> int) option"
  pendingInput :: "nat list list"
  pendingInputBytes :: nat
  pendingSignals :: "signal_entry list"
  pendingClocks :: "clocks option"
  text_state :: decoder
  pendingOutput :: jstr
  pollMs :: int
  limitTimer :: bool
  scriptPtr :: int
  inSuite :: bool
  calls :: "call list"
  posts :: "post list"

definition pendingSignalLimit :: nat where "pendingSignalLimit = 16"

definition new_worker :: "'e \<Rightarrow> 'e worker" where
  "new_worker e = \<lparr>eng = e, instantiated = False, phase = Not_started, guestSuitePending = 0,
     guestSuiteSequence = 0, renderTestPending = 0, clipboardPending = 0, io = No_wait, ioPending = False,
     terminated = False, engineReady = False, pendingResize = None, pendingInput = [], pendingInputBytes = 0,
     pendingSignals = [], pendingClocks = None, text_state = new_decoder, pendingOutput = [],
     pollMs = 0, limitTimer = False, scriptPtr = 0, inSuite = False, calls = [], posts = []\<rparr>"

subsection \<open>Statements\<close>

type_synonym ('e, 'a) stmt = "'e worker \<Rightarrow> 'a completion \<times> 'e worker"

definition ret :: "'a \<Rightarrow> ('e, 'a) stmt" where
  "ret v w = (Inr v, w)"

definition throw :: "js_error \<Rightarrow> ('e, 'a) stmt" where
  "throw e w = (Inl e, w)"

definition bnd :: "('e, 'a) stmt \<Rightarrow> ('a \<Rightarrow> ('e, 'b) stmt) \<Rightarrow> ('e, 'b) stmt" where
  "bnd m f w = (case m w of (Inl e, w1) \<Rightarrow> (Inl e, w1) | (Inr v, w1) \<Rightarrow> f v w1)"

definition thn :: "('e, 'a) stmt \<Rightarrow> ('e, 'b) stmt \<Rightarrow> ('e, 'b) stmt" where
  "thn m n = bnd m (\<lambda>_. n)"

definition modify :: "('e worker \<Rightarrow> 'e worker) \<Rightarrow> ('e, unit) stmt" where
  "modify f w = (Inr (), f w)"

definition gets :: "('e worker \<Rightarrow> 'a) \<Rightarrow> ('e, 'a) stmt" where
  "gets f w = (Inr (f w), w)"

definition whenw :: "bool \<Rightarrow> ('e, unit) stmt \<Rightarrow> ('e, unit) stmt" where
  "whenw b m = (if b then m else ret ())"

text \<open>\<open>try { m } finally { f }\<close> and \<open>try { m } catch (error) { h }\<close>.\<close>

definition finallyw :: "('e, 'a) stmt \<Rightarrow> ('e, unit) stmt \<Rightarrow> ('e, 'a) stmt" where
  "finallyw m f w = (case m w of (r, w1) \<Rightarrow> (case f w1 of (Inl e, w2) \<Rightarrow> (Inl e, w2) | (Inr _, w2) \<Rightarrow> (r, w2)))"

definition catchw :: "('e, unit) stmt \<Rightarrow> ('e, unit) stmt \<Rightarrow> ('e, unit) stmt" where
  "catchw m h w = (case m w of (Inl e, w1) \<Rightarrow> h w1 | (Inr v, w1) \<Rightarrow> (Inr v, w1))"

fun each :: "('a \<Rightarrow> ('e, unit) stmt) \<Rightarrow> 'a list \<Rightarrow> ('e, unit) stmt" where
  "each f [] = ret ()"
| "each f (x # xs) = thn (f x) (each f xs)"

definition postMessage :: "post \<Rightarrow> ('e, unit) stmt" where
  "postMessage p = modify (\<lambda>w. w\<lparr>posts := posts w @ [p]\<rparr>)"

subsection \<open>Output and calls of the engine\<close>

text \<open>
  A decode without the \<open>stream\<close> option continues an unfinished streamed decode, flushes it and
  resets the decoder.
\<close>

definition decode_flush :: "decoder \<Rightarrow> nat list \<Rightarrow> decoder \<times> jstr" where
  "decode_flush d bs =
     (let (u, cs) = utf8_feed (d_utf8 d) bs;
          (p, out) = strip_bom (d_bom d) (cs @ (if u_need u = 0 then [] else [0xFFFD]))
      in (new_decoder, out))"

definition decode_text :: "nat list \<Rightarrow> ('e, jstr) stmt" where
  "decode_text bs w = (let (d, cs) = decode_flush (text_state w) bs in (Inr cs, w\<lparr>text_state := d\<rparr>))"

definition posixWrite :: "int \<Rightarrow> nat list \<Rightarrow> 'e worker \<Rightarrow> 'e worker" where
  "posixWrite fd bytes w =
     (if fd = 1 \<or> fd = 2
      then let (d, cs) = decode_stream (text_state w) bytes
           in w\<lparr>text_state := d, pendingOutput := pendingOutput w @ cs\<rparr>
      else w)"

definition run_callback :: "callback \<Rightarrow> 'e worker \<Rightarrow> 'e worker" where
  "run_callback c w =
     (case c of
        Posix_write fd bytes \<Rightarrow> posixWrite fd bytes w
      | Host_float bytes asF32 \<Rightarrow> w\<lparr>text_state := fst (decode_flush (text_state w) bytes)\<rparr>)"

definition flushOutput :: "('e, unit) stmt" where
  "flushOutput w =
     (if pendingOutput w = [] then (Inr (), w)
      else (Inr (), w\<lparr>posts := posts w @ [Post_output (pendingOutput w)], pendingOutput := []\<rparr>))"

text \<open>\<open>exp.name(...)\<close>; before the engine is instantiated \<open>exp\<close> is \<open>null\<close>.\<close>

definition invoke :: "'e engine \<Rightarrow> string \<Rightarrow> int list \<Rightarrow> ('e, int) stmt" where
  "invoke E name args w =
     (if \<not> instantiated w then (Inl (TypeError ''Cannot read properties of null''), w)
      else let (v, e, cbs) = invoke_export E name args (eng w)
           in (Inr v, fold run_callback cbs (w\<lparr>eng := e, calls := calls w @ [(name, args, v)]\<rparr>)))"

text \<open>\<open>exp.name?.(...)\<close>, with 0 for \<open>undefined\<close>, where the result is not used or is defaulted.\<close>

definition invoke_opt :: "'e engine \<Rightarrow> string \<Rightarrow> int list \<Rightarrow> ('e, int) stmt" where
  "invoke_opt E name args w =
     (if instantiated w \<and> \<not> exports E name then (Inr 0, w) else invoke E name args w)"

text \<open>
  \<open>new Uint8Array(memory.buffer, ptr, n).set(bytes)\<close> and \<open>.slice()\<close>. A write is recorded in the log under
  the name \<open>memory.set\<close>, with the pointer and the bytes.
\<close>

definition store :: "'e engine \<Rightarrow> int \<Rightarrow> nat list \<Rightarrow> ('e, unit) stmt" where
  "store E ptr bytes w =
     (if ptr < 0 \<or> nat ptr + length bytes > memory_size E (eng w)
      then (Inl (RangeError ''Invalid typed array length''), w)
      else (Inr (), w\<lparr>eng := memory_write E (nat ptr) bytes (eng w),
                      calls := calls w @ [(''memory.set'', ptr # map int bytes, 0)]\<rparr>))"

definition fetch :: "'e engine \<Rightarrow> int \<Rightarrow> int \<Rightarrow> ('e, nat list) stmt" where
  "fetch E ptr n w =
     (if ptr < 0 \<or> n < 0 \<or> nat ptr + nat n > memory_size E (eng w)
      then (Inl (RangeError ''Invalid typed array length''), w)
      else (Inr (memory_read E (nat ptr) (nat n) (eng w)), w))"

definition free :: "'e engine \<Rightarrow> int \<Rightarrow> ('e, unit) stmt" where
  "free E ptr = thn (invoke E ''waste_wast_free'' [ptr]) (ret ())"

definition host_io_cancel :: "'e engine \<Rightarrow> ('e, unit) stmt" where
  "host_io_cancel E = thn (invoke E ''waste_wast_host_io_cancel'' []) (ret ())"

subsection \<open>Waking up\<close>

definition wakeIO :: "('e, unit) stmt" where
  "wakeIO = modify (\<lambda>w. if io w = Registered then w\<lparr>io := Resolved\<rparr> else w\<lparr>ioPending := True\<rparr>)"

text \<open>The wake-up in the handlers of \<open>cancel\<close> and \<open>stop\<close> has no \<open>else\<close> branch.\<close>

definition wake_waiter :: "('e, unit) stmt" where
  "wake_waiter = modify (\<lambda>w. if io w = Registered then w\<lparr>io := Resolved\<rparr> else w)"

text \<open>\<open>pollMs\<close> is the timeout of the latest promise, 0 when it has no timer.\<close>

definition waitForIO :: "int \<Rightarrow> ('e, unit) stmt" where
  "waitForIO poll =
     modify (\<lambda>w. if ioPending w then w\<lparr>ioPending := False, io := Resolved, pollMs := poll\<rparr>
                  else w\<lparr>io := Registered, pollMs := poll\<rparr>)"

definition controlError :: "string \<Rightarrow> ('e, unit) stmt" where
  "controlError operation = postMessage (Post_control_error operation)"

definition enqueueInput :: "'e engine \<Rightarrow> nat list \<Rightarrow> ('e, unit) stmt" where
  "enqueueInput E bytes =
     bnd (gets guestSuitePending) (\<lambda>g.
     let hit = (g \<noteq> 0 \<and> 3 \<in> set bytes); rest = (if hit then filter (\<lambda>b. b \<noteq> 3) bytes else bytes)
     in thn (whenw hit (postMessage (Post_guest_suite_cancel g)))
        (if rest = [] then ret ()
         else bnd (invoke E ''waste_wast_alloc'' [int (length rest)]) (\<lambda>ptr.
           if ptr = 0 then throw (Error ''C engine input allocation failed'')
           else thn (store E ptr rest) (bnd (invoke E ''waste_wast_enqueue_input'' [ptr, int (length rest)]) (\<lambda>_. wakeIO)))))"

definition raise_pending :: "'e engine \<Rightarrow> signal_entry \<Rightarrow> ('e, unit) stmt" where
  "raise_pending E s =
     bnd (if sig_pgid s \<noteq> 0 then invoke E ''waste_wast_raise_signal_pgid'' [sig_number s, sig_pgid s]
          else invoke E ''waste_wast_raise_signal_pid'' [sig_number s, sig_pid s]) (\<lambda>r.
       if r = 0 \<or> (sig_pgid s \<noteq> 0 \<and> r > 0) then wakeIO else controlError ''signal'')"

definition flush_resize :: "'e engine \<Rightarrow> ('e, unit) stmt" where
  "flush_resize E =
     bnd (gets pendingResize) (\<lambda>p.
       case p of
         None \<Rightarrow> ret ()
       | Some (c, r) \<Rightarrow>
           thn (bnd (invoke E ''waste_wast_resize_terminal'' [c, r]) (\<lambda>v. if v = 0 then wakeIO else controlError ''resize''))
               (modify (\<lambda>w. w\<lparr>pendingResize := None\<rparr>)))"

definition flushPendingEvents :: "'e engine \<Rightarrow> ('e, unit) stmt" where
  "flushPendingEvents E =
     bnd (gets engineReady) (\<lambda>ready.
       if \<not> ready then ret ()
       else thn (flush_resize E)
            (thn (bnd (gets pendingInput) (each (enqueueInput E)))
            (thn (modify (\<lambda>w. w\<lparr>pendingInput := [], pendingInputBytes := 0\<rparr>))
            (thn (bnd (gets pendingSignals) (each (raise_pending E)))
                 (modify (\<lambda>w. w\<lparr>pendingSignals := []\<rparr>))))))"

subsection \<open>Messages\<close>

text \<open>
  The messages to the worker. A field that the handler checks with \<open>Number.isInteger\<close> is \<open>None\<close> when
  it is no integer; \<open>id\<close> of a response is the number it carries.
\<close>

datatype message =
    Msg_input "nat list"
  | Msg_signal "int option" "int option" "int option"
  | Msg_resize "int option" "int option"
  | Msg_advance_clock "int option" "int option"
  | Msg_set_clock "int option" "int option" "int option" "int option"
  | Msg_guest_suite_response nat "nat list"
  | Msg_render_test_response nat "nat list"
  | Msg_clipboard_response nat bool
  | Msg_upload_response bool "nat list"
  | Msg_cancel
  | Msg_stop

definition on_input :: "'e engine \<Rightarrow> nat list \<Rightarrow> ('e, unit) stmt" where
  "on_input E bytes =
     bnd (gets engineReady) (\<lambda>ready.
       if \<not> ready then
         modify (\<lambda>w. if pendingInputBytes w + length bytes \<le> TERMINAL_INPUT_CAPACITY
                      then w\<lparr>pendingInput := pendingInput w @ [bytes],
                             pendingInputBytes := pendingInputBytes w + length bytes\<rparr>
                      else w)
       else enqueueInput E bytes)"

definition int_in :: "int option \<Rightarrow> int \<Rightarrow> int \<Rightarrow> bool" where
  "int_in v lo hi \<longleftrightarrow> (case v of Some k \<Rightarrow> lo \<le> k \<and> k \<le> hi | None \<Rightarrow> False)"

definition on_signal :: "'e engine \<Rightarrow> int option \<Rightarrow> int option \<Rightarrow> int option \<Rightarrow> ('e, unit) stmt" where
  "on_signal E sig p g =
     (if \<not> int_in sig 1 128 \<or> \<not> int_in p 0 0x7fffffff \<or> \<not> int_in g 0 0x7fffffff \<or> (the p \<noteq> 0 \<and> the g \<noteq> 0)
      then controlError ''signal''
      else bnd (gets engineReady) (\<lambda>ready.
        if \<not> ready then
          bnd (gets pendingSignals) (\<lambda>queue.
            if length queue < pendingSignalLimit
            then modify (\<lambda>w. w\<lparr>pendingSignals := pendingSignals w @
                               [\<lparr>sig_number = the sig, sig_pid = the p, sig_pgid = the g\<rparr>]\<rparr>)
            else controlError ''signal'')
        else if the g \<noteq> 0 then
          bnd (invoke E ''waste_wast_raise_signal_pgid'' [the sig, the g]) (\<lambda>r. if r > 0 then wakeIO else controlError ''signal'')
        else
          bnd (invoke E ''waste_wast_raise_signal_pid'' [the sig, the p]) (\<lambda>r. if r = 0 then wakeIO else controlError ''signal'')))"

definition on_resize :: "'e engine \<Rightarrow> int option \<Rightarrow> int option \<Rightarrow> ('e, unit) stmt" where
  "on_resize E c r =
     (if \<not> int_in c 1 65535 \<or> \<not> int_in r 1 65535 then controlError ''resize''
      else bnd (gets engineReady) (\<lambda>ready.
        if \<not> ready then modify (\<lambda>w. w\<lparr>pendingResize := Some (the c, the r)\<rparr>)
        else bnd (invoke E ''waste_wast_resize_terminal'' [the c, the r]) (\<lambda>v. if v = 0 then wakeIO else controlError ''resize'')))"

definition on_advance_clock :: "'e engine \<Rightarrow> int option \<Rightarrow> int option \<Rightarrow> ('e, unit) stmt" where
  "on_advance_clock E low high =
     bnd (gets engineReady) (\<lambda>ready.
       if \<not> ready \<or> \<not> int_in low 0 0xffffffff \<or> \<not> int_in high 0 0xffffffff then controlError ''advance-clock''
       else bnd (invoke E ''waste_wast_advance_clock_monotonic_ns'' [the low, the high]) (\<lambda>v.
         if v \<noteq> 0 then controlError ''advance-clock'' else wakeIO))"

text \<open>\<open>value >>> 0\<close> of an integer.\<close>

definition uint32 :: "int \<Rightarrow> int" where "uint32 v = v mod 2 ^ 32"

definition on_set_clock :: "int option \<Rightarrow> int option \<Rightarrow> int option \<Rightarrow> int option \<Rightarrow> ('e, unit) stmt" where
  "on_set_clock rl rh ml mh =
     (if rl = None \<or> rh = None \<or> ml = None \<or> mh = None then controlError ''set-clock''
      else modify (\<lambda>w. w\<lparr>pendingClocks := Some \<lparr>realtimeLow = uint32 (the rl), realtimeHigh = uint32 (the rh),
                                                 monotonicLow = uint32 (the ml), monotonicHigh = uint32 (the mh)\<rparr>\<rparr>))"

text \<open>\<open>exp.waste_wast_host_io_kind() !== kind\<close> is evaluated only when the earlier guards let it.\<close>

definition host_io_guard :: "'e engine \<Rightarrow> bool \<Rightarrow> int \<Rightarrow> ('e, unit) stmt \<Rightarrow> ('e, unit) stmt" where
  "host_io_guard E ok kind body =
     (if \<not> ok then ret () else bnd (invoke E ''waste_wast_host_io_kind'' []) (\<lambda>k. if k \<noteq> kind then ret () else body))"

definition send_reply :: "'e engine \<Rightarrow> string \<Rightarrow> nat list \<Rightarrow> ('e, unit) stmt" where
  "send_reply E reply bytes =
     bnd (invoke E ''waste_wast_alloc'' [int (length bytes)]) (\<lambda>ptr.
       if ptr = 0 then host_io_cancel E
       else thn (store E ptr bytes)
            (bnd (invoke E reply [ptr, int (length bytes)]) (\<lambda>result.
            thn (free E ptr) (whenw (result \<noteq> 0) (host_io_cancel E)))))"

definition on_guest_suite_response :: "'e engine \<Rightarrow> nat \<Rightarrow> nat list \<Rightarrow> ('e, unit) stmt" where
  "on_guest_suite_response E i bytes =
     bnd (gets (\<lambda>w. engineReady w \<and> i = guestSuitePending w)) (\<lambda>ok.
     host_io_guard E ok 3
       (thn (modify (\<lambda>w. w\<lparr>guestSuitePending := 0\<rparr>)) (thn (send_reply E ''waste_wast_test_suite_reply'' bytes) wakeIO)))"

definition on_render_test_response :: "'e engine \<Rightarrow> nat \<Rightarrow> nat list \<Rightarrow> ('e, unit) stmt" where
  "on_render_test_response E i bytes =
     bnd (gets (\<lambda>w. engineReady w \<and> renderTestPending w \<noteq> 0 \<and> i = renderTestPending w)) (\<lambda>ok.
     host_io_guard E ok 4
       (thn (modify (\<lambda>w. w\<lparr>renderTestPending := 0\<rparr>))
       (thn (if length bytes < 4 \<or> length bytes > RENDER_TEST_REPLY_MAX_BYTES
             then host_io_cancel E
             else send_reply E ''waste_wast_render_test_reply'' bytes) wakeIO)))"

definition on_clipboard_response :: "'e engine \<Rightarrow> nat \<Rightarrow> bool \<Rightarrow> ('e, unit) stmt" where
  "on_clipboard_response E i success =
     bnd (gets (\<lambda>w. engineReady w \<and> \<not> terminated w \<and> clipboardPending w \<noteq> 0 \<and> i = clipboardPending w)) (\<lambda>ok.
     host_io_guard E ok 5
       (thn (modify (\<lambda>w. w\<lparr>clipboardPending := 0\<rparr>))
       (thn (if success then thn (invoke E ''waste_wast_host_io_complete'' []) (ret ()) else host_io_cancel E) wakeIO)))"

text \<open>The upload: the buffer is released on every path, and an exception cancels the transfer.\<close>

definition provide_upload :: "'e engine \<Rightarrow> nat list \<Rightarrow> ('e, unit) stmt" where
  "provide_upload E bytes =
     bnd (invoke E ''waste_wast_alloc'' [int (max 1 (length bytes))]) (\<lambda>ptr.
       finallyw
         (catchw (if ptr = 0 then host_io_cancel E
                  else thn (store E ptr bytes)
                       (bnd (invoke E ''waste_wast_host_io_provide_upload'' [ptr, int (length bytes)]) (\<lambda>v.
                         if v \<noteq> 0 then host_io_cancel E else ret ())))
            (host_io_cancel E))
         (if ptr \<noteq> 0 then free E ptr else ret ()))"

definition on_upload_response :: "'e engine \<Rightarrow> bool \<Rightarrow> nat list \<Rightarrow> ('e, unit) stmt" where
  "on_upload_response E abandoned bytes =
     bnd (gets (\<lambda>w. engineReady w \<and> \<not> terminated w)) (\<lambda>ok.
     host_io_guard E ok 1
       (thn (if abandoned then host_io_cancel E else provide_upload E bytes) wakeIO))"

definition drop_guest_suite :: "('e, unit) stmt" where
  "drop_guest_suite =
     bnd (gets guestSuitePending) (\<lambda>g.
       thn (whenw (g \<noteq> 0) (postMessage (Post_guest_suite_cancel g))) (modify (\<lambda>w. w\<lparr>guestSuitePending := 0\<rparr>)))"

definition on_cancel :: "'e engine \<Rightarrow> ('e, unit) stmt" where
  "on_cancel E =
     thn (modify (\<lambda>w. w\<lparr>renderTestPending := 0\<rparr>))
     (thn drop_guest_suite
     (thn (invoke_opt E ''waste_wast_request_cancel'' []) wake_waiter))"

definition on_stop :: "('e, unit) stmt" where
  "on_stop =
     thn (modify (\<lambda>w. w\<lparr>renderTestPending := 0\<rparr>))
     (thn drop_guest_suite (thn (modify (\<lambda>w. w\<lparr>terminated := True\<rparr>)) wake_waiter))"

definition onmessage :: "'e engine \<Rightarrow> message \<Rightarrow> ('e, unit) stmt" where
  "onmessage E m =
     (case m of
        Msg_input bytes \<Rightarrow> on_input E bytes
      | Msg_signal sig p g \<Rightarrow> on_signal E sig p g
      | Msg_resize c r \<Rightarrow> on_resize E c r
      | Msg_advance_clock l h \<Rightarrow> on_advance_clock E l h
      | Msg_set_clock rl rh ml mh \<Rightarrow> on_set_clock rl rh ml mh
      | Msg_guest_suite_response i bytes \<Rightarrow> on_guest_suite_response E i bytes
      | Msg_render_test_response i bytes \<Rightarrow> on_render_test_response E i bytes
      | Msg_clipboard_response i ok \<Rightarrow> on_clipboard_response E i ok
      | Msg_upload_response abandoned bytes \<Rightarrow> on_upload_response E abandoned bytes
      | Msg_cancel \<Rightarrow> on_cancel E
      | Msg_stop \<Rightarrow> on_stop)"

end
