(* ===== verification/Worker_Run.thy ===== *)
theory Worker_Run
  imports Worker_Model
begin

text \<open>
  The function \<open>run\<close> of \<open>worker.js\<close>: staging of the installed file system and of the packaged files,
  the execution limits, the choice of the script, and the loop that resumes the engine, cut at its
  \<open>await\<close> expressions into \<open>loop_head\<close>, \<open>pump_fired\<close> and \<open>io_resumed\<close>; and the report of the results. The
  relation \<open>worker_step\<close> interleaves it with messages and timers. \<open>Date.now()\<close> is the parameter
  \<open>clock\<close>, indexed by the number of calls of exports made before the reading. Error texts carry the
  path or text they quote, and leave out an appended status number.
\<close>

subsection \<open>The start message\<close>

record packaged_file =
  pk_kind :: int
  pk_path :: jstr
  pk_target :: jstr
  pk_bytes :: "nat list"
  pk_mode :: int
  pk_mtimeSec :: "int option"
  pk_mtimeNsec :: int

record vfs_image =
  inventory :: "nat list"
  vfs_files :: "(int \<times> nat list) list"

datatype limit_field = Absent | Not_integer | Integer int

record execution_limits =
  l_timeoutMs :: limit_field
  l_cancelAfterMs :: limit_field
  l_pumpQuantumMs :: limit_field

record suite_request =
  sr_mode :: jstr
  sr_identity :: jstr

record start_message =
  m_source :: jstr
  m_probe :: "nat list option"
  m_packaged :: "packaged_file list"
  m_buildMtime :: "(int \<times> int) option"
  m_vfs :: "vfs_image option"
  m_vfsPaths :: "jstr list"
  m_limits :: "execution_limits option"
  m_suite :: "suite_request option"
  m_shell :: bool

subsection \<open>Staging\<close>

text \<open>Allocate, copy, call and release, as each staging step of \<open>run\<close> does.\<close>

definition staged1 ::
    "'e engine \<Rightarrow> nat list \<Rightarrow> js_error \<Rightarrow> (int \<Rightarrow> ('e, int) stmt) \<Rightarrow> js_error \<Rightarrow> ('e, unit) stmt" where
  "staged1 E bytes no_memory call refused =
     bnd (invoke E ''waste_wast_alloc'' [int (length bytes)]) (\<lambda>p.
       if p = 0 then throw no_memory
       else thn (store E p bytes) (bnd (call p) (\<lambda>r.
            thn (invoke_opt E ''waste_wast_free'' [p]) (if r \<noteq> 0 then throw refused else ret ()))))"

definition staged2 ::
    "'e engine \<Rightarrow> nat list \<Rightarrow> nat list \<Rightarrow> js_error \<Rightarrow> (int \<Rightarrow> int \<Rightarrow> ('e, int) stmt) \<Rightarrow> js_error \<Rightarrow> ('e, unit) stmt" where
  "staged2 E bytes1 bytes2 no_memory call refused =
     bnd (invoke E ''waste_wast_alloc'' [int (length bytes1)]) (\<lambda>p.
     bnd (invoke E ''waste_wast_alloc'' [int (length bytes2)]) (\<lambda>q.
       if p = 0 \<or> q = 0 then throw no_memory
       else thn (store E p bytes1) (thn (store E q bytes2) (bnd (call p q) (\<lambda>r.
            thn (invoke_opt E ''waste_wast_free'' [p]) (thn (invoke_opt E ''waste_wast_free'' [q])
              (if r \<noteq> 0 then throw refused else ret ())))))))"

definition submit :: "'e engine \<Rightarrow> nat list \<Rightarrow> (int \<Rightarrow> int \<Rightarrow> ('e, int) stmt) \<Rightarrow> ('e, unit) stmt" where
  "submit E bytes call =
     bnd (invoke E ''waste_wast_alloc'' [int (max 1 (length bytes))]) (\<lambda>p.
       if p = 0 then throw (Error ''Installed VFS allocation failed'')
       else finallyw
         (thn (store E p bytes) (bnd (call p (int (length bytes))) (\<lambda>r.
            if r \<noteq> 0 then throw (Error ''Invalid installed VFS files or metadata'') else ret ())))
         (free E p))"

definition stageInstalledVfs :: "'e engine \<Rightarrow> vfs_image \<Rightarrow> ('e, unit) stmt" where
  "stageInstalledVfs E vfs =
     thn (submit E (inventory vfs) (\<lambda>p n. invoke E ''waste_wast_stage_vfs_inventory'' [p, n]))
     (thn (each (\<lambda>(i, bytes). submit E bytes (\<lambda>p n. invoke E ''waste_wast_stage_vfs_file'' [i, p, n])) (vfs_files vfs))
     (bnd (invoke E ''waste_wast_vfs_ready'' []) (\<lambda>r.
        if r \<noteq> 0 then throw (Error ''Incomplete installed VFS'') else ret ())))"

definition stageVfsMtime :: "'e engine \<Rightarrow> (nat \<Rightarrow> int) \<Rightarrow> int option \<Rightarrow> int \<Rightarrow> ('e, unit) stmt" where
  "stageVfsMtime E clock seconds nanoseconds =
     (if \<not> exports E ''waste_wast_stage_mtime'' then ret ()
      else bnd (gets (\<lambda>w. clock (length (calls w)))) (\<lambda>milliseconds.
        let (s, n) = (case seconds of Some s \<Rightarrow> (s, nanoseconds)
                      | None \<Rightarrow> (milliseconds div 1000, milliseconds mod 1000 * 1000000))
        in bnd (invoke E ''waste_wast_stage_mtime'' [uint32 s, uint32 (s div 0x100000000), uint32 n]) (\<lambda>r.
             if r \<noteq> 0 then throw (Error ''C engine VFS mtime failed'') else ret ())))"

definition stageVfsPath ::
    "'e engine \<Rightarrow> (nat \<Rightarrow> int) \<Rightarrow> jstr \<Rightarrow> int \<Rightarrow> int \<Rightarrow> int \<Rightarrow> int option \<Rightarrow> int \<Rightarrow> ('e, unit) stmt" where
  "stageVfsPath E clock p kind md bytes mtimeSec mtimeNsec =
     (if \<not> exports E ''waste_wast_stage_path'' then ret ()
      else let pathBytes = utf8_encode p
           in thn (staged1 E pathBytes (Error ''C engine VFS path allocation failed'')
                    (\<lambda>ptr. invoke E ''waste_wast_stage_path'' [ptr, int (length pathBytes), kind, md, uint32 bytes])
                    (Error (''C engine VFS metadata failed for '' @ map char_of p)))
              (stageVfsMtime E clock mtimeSec mtimeNsec))"

definition stageVfsSymlink ::
    "'e engine \<Rightarrow> (nat \<Rightarrow> int) \<Rightarrow> jstr \<Rightarrow> jstr \<Rightarrow> int \<Rightarrow> int option \<Rightarrow> int \<Rightarrow> ('e, unit) stmt" where
  "stageVfsSymlink E clock p target md mtimeSec mtimeNsec =
     (if \<not> exports E ''waste_wast_stage_symlink'' then throw (Error ''C engine VFS symlink staging is unavailable'')
      else let pathBytes = utf8_encode p; targetBytes = utf8_encode target
           in thn (staged2 E pathBytes targetBytes (Error ''C engine VFS symlink allocation failed'')
                    (\<lambda>pp tp. invoke E ''waste_wast_stage_symlink''
                       [pp, int (length pathBytes), tp, int (length targetBytes), md])
                    (Error (''C engine VFS symlink failed for '' @ map char_of p)))
              (stageVfsMtime E clock mtimeSec mtimeNsec))"

text \<open>A directory of the default namespace, which an installed image replaces.\<close>

definition stage_directory :: "'e engine \<Rightarrow> (nat \<Rightarrow> int) \<Rightarrow> start_message \<Rightarrow> string \<times> int \<Rightarrow> ('e, unit) stmt" where
  "stage_directory E clock m d =
     whenw (m_vfs m = None) (stageVfsPath E clock (js (fst d)) 2 (snd d) 0 None 0)"

definition stage_cwd :: "'e engine \<Rightarrow> ('e, unit) stmt" where
  "stage_cwd E =
     (if \<not> exports E ''waste_wast_stage_cwd'' then ret ()
      else staged1 E (js ''/root'') (Error ''C engine initial cwd allocation failed'')
             (\<lambda>p. invoke E ''waste_wast_stage_cwd'' [p, int (length (js ''/root''))])
             (Error ''C engine initial cwd staging failed''))"

definition stage_file ::
    "'e engine \<Rightarrow> jstr \<Rightarrow> nat list \<Rightarrow> int \<Rightarrow> js_error \<Rightarrow> js_error \<Rightarrow> ('e, unit) stmt" where
  "stage_file E p bytes md no_memory refused =
     (let pathBytes = utf8_encode p
      in staged2 E pathBytes bytes no_memory
           (\<lambda>pp dp. invoke E ''waste_wast_stage_file'' [pp, int (length pathBytes), dp, int (length bytes), md])
           refused)"

definition stage_packaged :: "'e engine \<Rightarrow> (nat \<Rightarrow> int) \<Rightarrow> packaged_file \<Rightarrow> ('e, unit) stmt" where
  "stage_packaged E clock f =
     (if pk_kind f = 2 then stageVfsPath E clock (pk_path f) 2 (pk_mode f) 0 (pk_mtimeSec f) (pk_mtimeNsec f)
      else if pk_kind f = 3 then stageVfsSymlink E clock (pk_path f) (pk_target f) (pk_mode f) (pk_mtimeSec f) (pk_mtimeNsec f)
      else thn (stage_file E (pk_path f) (pk_bytes f) (pk_mode f)
                 (Error ''C engine packaged-file allocation failed'') (Error (''C engine packaged file staging failed for '' @ map char_of (pk_path f))))
               (stageVfsMtime E clock (pk_mtimeSec f) (pk_mtimeNsec f)))"

definition stage_probe :: "'e engine \<Rightarrow> (nat \<Rightarrow> int) \<Rightarrow> start_message \<Rightarrow> ('e, unit) stmt" where
  "stage_probe E clock m =
     (case m_probe m of
        None \<Rightarrow> ret ()
      | Some bytes \<Rightarrow>
          if \<not> list_ex (\<lambda>f. pk_path f = js ''/bin/waste-probe'') (m_packaged m) \<and> exports E ''waste_wast_stage_file''
          then thn (stage_file E (js ''/bin/waste-probe'') bytes 493
                     (Error ''C engine VFS file allocation failed'') (Error ''C engine VFS file staging failed''))
                   (stageVfsMtime E clock None 0)
          else stageVfsPath E clock (js ''/bin/waste-probe'') 1 493 (int (length bytes)) None 0)"

definition apply_clocks :: "'e engine \<Rightarrow> ('e, unit) stmt" where
  "apply_clocks E =
     bnd (gets pendingClocks) (\<lambda>pc.
       case pc of
         None \<Rightarrow> ret ()
       | Some c \<Rightarrow>
           if \<not> (exports E ''waste_wast_set_clock_realtime_ns'' \<and> exports E ''waste_wast_set_clock_monotonic_ns'') then ret ()
           else bnd (invoke E ''waste_wast_set_clock_realtime_ns'' [realtimeLow c, realtimeHigh c]) (\<lambda>r.
                bnd (if r = 0 then invoke E ''waste_wast_set_clock_monotonic_ns'' [monotonicLow c, monotonicHigh c] else ret 1) (\<lambda>r2.
                thn (modify (\<lambda>w. w\<lparr>pendingClocks := None\<rparr>))
                (if r \<noteq> 0 \<or> r2 \<noteq> 0 then throw (Error ''Deterministic clock override rejected'') else ret ()))))"

definition enable_terminal :: "'e engine \<Rightarrow> start_message \<Rightarrow> ('e, unit) stmt" where
  "enable_terminal E m =
     whenw (m_suite m = None)
       (thn (invoke E ''waste_wast_enable_terminal'' [])
       (thn (invoke_opt E ''waste_wast_enable_test_suite'' [])
       (thn (invoke_opt E ''waste_wast_enable_render_test'' []) (ret ()))))"

definition stage_build_mtime :: "'e engine \<Rightarrow> start_message \<Rightarrow> ('e, unit) stmt" where
  "stage_build_mtime E m =
     (case m_buildMtime m of
        None \<Rightarrow> ret ()
      | Some (sec, nsec) \<Rightarrow>
          if \<not> exports E ''waste_wast_stage_build_mtime'' then ret ()
          else bnd (invoke E ''waste_wast_stage_build_mtime'' [uint32 sec, uint32 (sec div 0x100000000), uint32 nsec])
               (\<lambda>r. if r \<noteq> 0 then throw (Error ''C engine build mtime failed'') else ret ()))"

definition stage_executable :: "'e engine \<Rightarrow> start_message \<Rightarrow> ('e, unit) stmt" where
  "stage_executable E m =
     (case m_probe m of
        None \<Rightarrow> ret ()
      | Some bytes \<Rightarrow>
          if \<not> exports E ''waste_wast_stage_executable'' then ret ()
          else staged1 E bytes (Error ''C engine executable staging allocation failed'')
                 (\<lambda>p. invoke E ''waste_wast_stage_executable'' [p, int (length bytes)])
                 (Error ''C engine executable staging failed''))"

definition stage_all :: "'e engine \<Rightarrow> (nat \<Rightarrow> int) \<Rightarrow> start_message \<Rightarrow> ('e, unit) stmt" where
  "stage_all E clock m =
     thn (case m_vfs m of None \<Rightarrow> ret () | Some vfs \<Rightarrow> stageInstalledVfs E vfs)
     (thn (stage_build_mtime E m)
     (thn (stage_executable E m)
     (thn (each (stage_directory E clock m) [(''/tmp'', 511), (''/root'', 493)])
     (thn (stage_cwd E)
     (thn (each (stage_directory E clock m)
             [(''/usr'', 493), (''/usr/bin'', 493), (''/usr/lib'', 493), (''/lib'', 493)])
     (thn (whenw (m_packaged m \<noteq> [])
             (thn (each (stage_directory E clock m)
                     [(''/usr/share'', 493), (''/usr/share/waste'', 493), (''/usr/share/licenses'', 493),
                      (''/usr/share/licenses/coreutils'', 493)])
                  (each (stage_packaged E clock) (m_packaged m))))
          (stage_probe E clock m)))))))"

subsection \<open>Limits and the script\<close>

definition limit_value :: "nat \<Rightarrow> limit_field \<Rightarrow> int option" where
  "limit_value fallback f = (case f of Absent \<Rightarrow> Some (int fallback) | Not_integer \<Rightarrow> None | Integer v \<Rightarrow> Some v)"

definition set_limits :: "'e engine \<Rightarrow> execution_limits option \<Rightarrow> ('e, unit) stmt" where
  "set_limits E l =
     (case l of
        None \<Rightarrow> ret ()
      | Some k \<Rightarrow>
          let timeout = limit_value 0 (l_timeoutMs k); cancel = limit_value 0 (l_cancelAfterMs k);
              most = int EXECUTION_MAX_TIMEOUT_MS
          in if int_in timeout 0 most \<and> int_in cancel 0 most \<and> exports E ''waste_wast_set_execution_limits''
             then bnd (invoke E ''waste_wast_set_execution_limits'' [the timeout, the cancel]) (\<lambda>r.
                    if r \<noteq> 0 then throw (Error ''Invalid execution limits'') else ret ())
             else throw (Error ''Invalid execution limits''))"

definition set_pump :: "'e engine \<Rightarrow> execution_limits option \<Rightarrow> ('e, unit) stmt" where
  "set_pump E l =
     (let pump = limit_value EXECUTION_DEFAULT_PUMP_QUANTUM_MS (case l of None \<Rightarrow> Absent | Some k \<Rightarrow> l_pumpQuantumMs k)
      in if int_in pump 0 (int EXECUTION_MAX_PUMP_QUANTUM_MS) \<and> exports E ''waste_wast_set_pump_quantum_ms''
         then bnd (invoke E ''waste_wast_set_pump_quantum_ms'' [the pump]) (\<lambda>r.
                if r \<noteq> 0 then throw (Error ''Invalid pump quantum'') else ret ())
         else throw (Error ''Invalid pump quantum''))"

text \<open>The whole memory as \<open>new Uint8Array(engineMemory.buffer)\<close>, and \<open>subarray\<close>.\<close>

definition memory :: "'e engine \<Rightarrow> ('e, nat list) stmt" where
  "memory E = gets (\<lambda>w. memory_read E 0 (memory_size E (eng w)) (eng w))"

definition clamp_index :: "nat \<Rightarrow> int \<Rightarrow> nat" where
  "clamp_index n k = nat (if k < 0 then max 0 (int n + k) else min k (int n))"

definition subarray :: "nat list \<Rightarrow> int \<Rightarrow> int \<Rightarrow> nat list" where
  "subarray bs b e = (let n = length bs in take (clamp_index n e - clamp_index n b) (drop (clamp_index n b) bs))"

text \<open>\<open>while (end < limit && bytes[base + end]) end++\<close>; an element out of range is undefined.\<close>

definition at_index :: "nat list \<Rightarrow> int \<Rightarrow> nat option" where
  "at_index bs k = (if 0 \<le> k \<and> nat k < length bs then Some (bs ! nat k) else None)"

definition truthy :: "nat option \<Rightarrow> bool" where
  "truthy v \<longleftrightarrow> v \<noteq> None \<and> v \<noteq> Some 0"

function scan_zero :: "nat list \<Rightarrow> int \<Rightarrow> int \<Rightarrow> int \<Rightarrow> int" where
  "scan_zero bs base k limit =
     (if k < limit \<and> truthy (at_index bs (base + k)) then scan_zero bs base (k + 1) limit else k)"
  by pat_completeness auto

termination by (relation "measure (\<lambda>(bs, base, k, limit). nat (limit - k))") auto

declare scan_zero.simps [simp del]

definition readString :: "'e engine \<Rightarrow> int \<Rightarrow> ('e, jstr) stmt" where
  "readString E ptr =
     bnd (memory E) (\<lambda>bs. decode_text (subarray bs ptr (scan_zero bs 0 ptr (int (length bs)))))"

fun collect :: "('a \<Rightarrow> ('e, 'b) stmt) \<Rightarrow> 'a list \<Rightarrow> ('e, 'b list) stmt" where
  "collect f [] = ret []"
| "collect f (x # xs) = bnd (f x) (\<lambda>y. bnd (collect f xs) (\<lambda>ys. ret (y # ys)))"

definition suiteError :: "'e engine \<Rightarrow> ('e, 'a) stmt" where
  "suiteError E =
     bnd (invoke E ''waste_wast_suite_error_ptr'' []) (\<lambda>p. bnd (readString E p) (\<lambda>s. throw (Error (map char_of s))))"

definition read_test :: "'e engine \<Rightarrow> nat \<Rightarrow> ('e, test) stmt" where
  "read_test E i =
     bnd (collect (\<lambda>k. bnd (invoke E ''waste_wast_suite_field'' [int i, k]) (readString E)) [0, 1, 2, 3, 4, 5]) (\<lambda>fs.
     bnd (invoke E ''waste_wast_suite_expected_failure'' [int i]) (\<lambda>x.
       ret \<lparr>identity = fs ! 0, path = fs ! 2, test_file = fs ! 3, group = fs ! 1, mode = fs ! 4,
            unsupported = False, skipReason = fs ! 5, expectedFailure = x \<noteq> 0\<rparr>))"

definition find_index :: "('a \<Rightarrow> bool) \<Rightarrow> 'a list \<Rightarrow> nat option" where
  "find_index P xs = (let k = length (takeWhile (\<lambda>x. \<not> P x) xs) in if k < length xs then Some k else None)"

text \<open>The pointer and the length of the script, or \<open>None\<close> after the listing has been posted.\<close>

definition suite_script :: "'e engine \<Rightarrow> suite_request \<Rightarrow> ('e, (int \<times> int) option) stmt" where
  "suite_script E q =
     bnd (invoke E ''waste_wast_suite_load'' []) (\<lambda>count.
       if count < 0 then suiteError E
       else bnd (collect (read_test E) [0..<nat count]) (\<lambda>tests.
         if sr_mode q = js ''list'' then thn (postMessage (Post_suite_list tests)) (ret None)
         else case find_index (\<lambda>t. identity t = sr_identity q) tests of
             None \<Rightarrow> throw (Error ''Unknown mounted test identity'')
           | Some i \<Rightarrow>
               if sr_mode q \<noteq> js ''run'' then throw (Error ''Unknown mounted test identity'')
               else bnd (invoke E ''waste_wast_suite_prepare'' [int i]) (\<lambda>p.
                 if p = 0 then suiteError E
                 else bnd (invoke E ''waste_wast_suite_source_length'' []) (\<lambda>n. ret (Some (p, n))))))"

definition prepare_script :: "'e engine \<Rightarrow> start_message \<Rightarrow> ('e, (int \<times> int) option) stmt" where
  "prepare_script E m =
     (case m_suite m of
        Some q \<Rightarrow> suite_script E q
      | None \<Rightarrow>
          if m_shell m then ret (Some (0, 0))
          else let sourceBytes = utf8_encode (m_source m)
               in bnd (invoke E ''waste_wast_alloc'' [int (length sourceBytes)]) (\<lambda>p.
                    if p = 0 then throw (Error ''C engine script allocation failed'')
                    else thn (store E p sourceBytes) (ret (Some (p, int (length sourceBytes))))))"

definition positive_field :: "limit_field \<Rightarrow> bool" where
  "positive_field f \<longleftrightarrow> (case f of Integer v \<Rightarrow> v > 0 | _ \<Rightarrow> False)"

definition limited :: "execution_limits option \<Rightarrow> bool" where
  "limited l \<longleftrightarrow> (case l of None \<Rightarrow> False | Some k \<Rightarrow> positive_field (l_timeoutMs k) \<or> positive_field (l_cancelAfterMs k))"

subsection \<open>The report\<close>

definition nameDecoder :: "nat list \<Rightarrow> jstr" where
  "nameDecoder bs = utf8_decode_raw bs"

definition read_result :: "'e engine \<Rightarrow> int \<Rightarrow> nat \<Rightarrow> ('e, asserted) stmt" where
  "read_result E resultsPtr i =
     bnd (memory E) (\<lambda>bs.
     let base = resultsPtr + int i * int BROWSER_RESULT_BYTES; err = int BROWSER_RESULT_ERROR_OFFSET;
         funcEnd = scan_zero bs base 1 err; errorEnd = scan_zero bs base err (int BROWSER_RESULT_BYTES)
     in bnd (if exports E ''waste_wast_result_name_ptr'' then invoke E ''waste_wast_result_name_ptr'' [int i]
             else ret (base + 1)) (\<lambda>nameStart.
        bnd (if exports E ''waste_wast_result_name_len''
             then bnd (invoke E ''waste_wast_result_name_len'' [int i]) (\<lambda>n. ret (nameStart + n))
             else ret (base + funcEnd)) (\<lambda>nameEnd.
        bnd (decode_text (subarray bs (base + err) (base + errorEnd))) (\<lambda>msg.
        ret \<lparr>a_pass = (at_index bs base \<noteq> Some 0), a_func = nameDecoder (subarray bs nameStart nameEnd),
             a_error = msg\<rparr>))))"

definition phases :: "jstr list" where
  "phases = [[], js ''encode'', js ''load'', js ''definition'', js ''retain'']"

text \<open>The little-endian words of the failure record are read as \<open>DataView\<close> reads them.\<close>

definition read_failure :: "'e engine \<Rightarrow> int \<Rightarrow> ('e, setup_failure) stmt" where
  "read_failure E ptr =
     bnd (fetch E ptr (12 + int WAST_SETUP_ERROR_BYTES)) (\<lambda>view.
     let word = (\<lambda>k. get32 (take 4 (drop k view))); msg = takeWhile (\<lambda>b. b \<noteq> 0) (drop 12 view)
     in bnd (decode_text msg) (\<lambda>t.
          ret \<lparr>f_line = word 0, f_status = (if word 4 < 2 ^ 31 then int (word 4) else int (word 4) - 2 ^ 32),
               f_phase = (if word 8 < length phases then Some (phases ! word 8) else None), f_error = t\<rparr>))"

text \<open>
  The loop asks for the count before every turn. The count is an \<open>i32\<close>, so that it ends before \<open>i\<close>
  reaches \<open>2 ^ 31\<close>.
\<close>

function read_failures :: "'e engine \<Rightarrow> nat \<Rightarrow> ('e, setup_failure list) stmt" where
  "read_failures E i =
     (if 2 ^ 31 \<le> i then ret []
      else bnd (invoke E ''waste_wast_setup_failure_count'' []) (\<lambda>n.
        if int i < n then
          bnd (invoke E ''waste_wast_setup_failure_ptr'' [int i]) (\<lambda>p.
          bnd (read_failure E p) (\<lambda>f. bnd (read_failures E (Suc i)) (\<lambda>fs. ret (f # fs))))
        else ret []))"
  by pat_completeness auto

termination by (relation "measure (\<lambda>(E, i). 2 ^ 31 - i)") auto

declare read_failures.simps [simp del]

text \<open>\<open>JSON.stringify\<close> of the results.\<close>

definition hex_digit :: "nat \<Rightarrow> nat" where
  "hex_digit d = (if d < 10 then 48 + d else 87 + d)"

definition json_char :: "nat \<Rightarrow> jstr" where
  "json_char c =
     (if c = 34 \<or> c = 92 then [92, c]
      else if c = 8 then [92, 98] else if c = 9 then [92, 116] else if c = 10 then [92, 110]
      else if c = 12 then [92, 102] else if c = 13 then [92, 114]
      else if c < 32 then [92, 117, 48, 48, hex_digit (c div 16), hex_digit (c mod 16)]
      else [c])"

definition json_string :: "jstr \<Rightarrow> jstr" where
  "json_string s = 34 # concat (map json_char s) @ [34]"

definition json_result :: "asserted \<Rightarrow> jstr" where
  "json_result a =
     [123] @ json_string (js ''pass'') @ [58] @ js (if a_pass a then ''true'' else ''false'') @ [44] @
     json_string (js ''func'') @ [58] @ json_string (a_func a) @ [44] @
     json_string (js ''error'') @ [58] @ json_string (a_error a) @ [125]"

definition json_results :: "asserted list \<Rightarrow> jstr" where
  "json_results rs = [91] @ join_with 44 (map json_result rs) @ [93]"

definition post_evidence :: "'e engine \<Rightarrow> ('e, unit) stmt" where
  "post_evidence E =
     bnd (gets inSuite) (\<lambda>suite.
       if \<not> suite \<and> exports E ''waste_wast_transition_evidence_ptr'' \<and> exports E ''waste_wast_transition_evidence_len''
       then bnd (invoke E ''waste_wast_transition_evidence_ptr'' []) (\<lambda>p.
            bnd (invoke E ''waste_wast_transition_evidence_len'' []) (\<lambda>n.
            bnd (fetch E p n) (\<lambda>bs. bnd (decode_text bs) (\<lambda>t.
              postMessage (Post_output (js ''WASTE_TRANSITION_EVIDENCE='' @ t @ [10]))))))
       else ret ())"

definition read_setup :: "'e engine \<Rightarrow> ('e, setup_state) stmt" where
  "read_setup E =
     bnd (invoke E ''waste_wast_setup_total'' []) (\<lambda>tot.
     bnd (invoke E ''waste_wast_setup_passed'' []) (\<lambda>p.
     bnd (invoke E ''waste_wast_setup_complete'' []) (\<lambda>c.
     bnd (read_failures E 0) (\<lambda>fs.
       ret \<lparr>su_total = tot, su_passed = p, su_complete = (c \<noteq> 0), su_failures = fs\<rparr>))))"

definition vfs_failure :: "asserted \<Rightarrow> bool" where
  "vfs_failure a \<longleftrightarrow> \<not> a_pass a \<and> a_func a = js ''(vfs)''"

definition report_of :: "'e engine \<Rightarrow> int \<Rightarrow> int \<Rightarrow> asserted list \<Rightarrow> setup_state \<Rightarrow> bool \<Rightarrow> bool \<Rightarrow> ('e, done_report) stmt" where
  "report_of E tot p rs su completed ok =
     bnd (gets inSuite) (\<lambda>suite.
     bnd (invoke_opt E ''waste_wast_execution_stop_reason'' []) (\<lambda>r1.
     bnd (invoke_opt E ''waste_wast_execution_stop_reason'' []) (\<lambda>r2.
     bnd (invoke_opt E ''waste_wast_guest_exited'' []) (\<lambda>x.
     bnd (invoke_opt E ''waste_wast_guest_exit_status'' []) (\<lambda>status.
       ret \<lparr>d_ok = ok, d_total = tot, d_passed = p, d_results = rs, d_setup = su, d_completed = completed,
            d_error = (if suite \<and> list_ex vfs_failure rs then js ''Cannot mount or stage batch execution image'' else []),
            d_timedOut = (r1 = 1), d_cancelled = (r2 = 2), d_exited = (x \<noteq> 0), d_exitStatus = status\<rparr>)))))"

definition post_report :: "'e engine \<Rightarrow> ('e, unit) stmt" where
  "post_report E =
     thn flushOutput
     (thn (post_evidence E)
     (bnd (invoke E ''waste_wast_results_total'' []) (\<lambda>tot.
     bnd (invoke E ''waste_wast_results_passed'' []) (\<lambda>p.
     bnd (invoke E ''waste_wast_results_ptr'' []) (\<lambda>ptr.
     bnd (collect (read_result E ptr) [0..<nat tot]) (\<lambda>rs.
     bnd (read_setup E) (\<lambda>su.
     bnd (invoke E ''waste_wast_script_completed'' []) (\<lambda>c.
     let ok = (p = tot \<and> su_complete su \<and> su_passed su = su_total su \<and> c \<noteq> 0)
     in thn (whenw (\<not> ok) (postMessage (Post_output (js ''WASTE_DONE_RESULTS='' @ json_results rs @ [10]))))
        (bnd (report_of E tot p rs su (c \<noteq> 0) ok) (\<lambda>d. postMessage (Post_done d)))))))))))"

subsection \<open>The loop\<close>

text \<open>The \<open>finally\<close> of \<open>run\<close> and the handler that reports a rejected promise.\<close>

definition cleanup :: "'e engine \<Rightarrow> ('e, unit) stmt" where
  "cleanup E =
     thn (modify (\<lambda>w. w\<lparr>limitTimer := False\<rparr>))
     (bnd (gets scriptPtr) (\<lambda>p. thn (invoke_opt E ''waste_wast_free'' [p]) (ret ())))"

definition settle :: "('e, unit) stmt \<Rightarrow> ('e, unit) stmt" where
  "settle m w =
     (case m w of
        (Inl e, w1) \<Rightarrow> (Inr (), w1\<lparr>phase := Ended, posts := posts w1 @ [Post_failed e]\<rparr>)
      | (Inr _, w1) \<Rightarrow> (Inr (), w1))"

text \<open>A statement of the \<open>try\<close> block: an exception runs the \<open>finally\<close> block and rejects.\<close>

definition guarded :: "'e engine \<Rightarrow> ('e, unit) stmt \<Rightarrow> ('e, unit) stmt" where
  "guarded E m w =
     (case m w of
        (Inl e, w1) \<Rightarrow> bnd (cleanup E) (\<lambda>_. throw e) w1
      | (Inr _, w1) \<Rightarrow> (Inr (), w1))"

definition end_run :: "'e engine \<Rightarrow> ('e, unit) stmt" where
  "end_run E = thn (post_report E) (thn (cleanup E) (modify (\<lambda>w. w\<lparr>phase := Ended\<rparr>)))"

definition process_id :: "'e engine \<Rightarrow> ('e, int option) stmt" where
  "process_id E =
     (if exports E ''waste_wast_process_id'' then bnd (invoke E ''waste_wast_process_id'' []) (\<lambda>v. ret (Some v)) else ret None)"

definition post_wait :: "'e engine \<Rightarrow> (int option \<Rightarrow> int \<Rightarrow> post) \<Rightarrow> ('e, unit) stmt" where
  "post_wait E p = bnd (process_id E) (\<lambda>pid. bnd (invoke E ''waste_wast_wait_kind'' []) (\<lambda>k. postMessage (p pid k)))"

definition host_io_data :: "'e engine \<Rightarrow> ('e, nat list) stmt" where
  "host_io_data E =
     bnd (invoke E ''waste_wast_host_io_data_ptr'' []) (\<lambda>p.
     bnd (invoke E ''waste_wast_host_io_data_len'' []) (\<lambda>n. fetch E p n))"

definition next_sequence :: "('e, nat) stmt" where
  "next_sequence w = (Inr (Suc (guestSuiteSequence w)), w\<lparr>guestSuiteSequence := Suc (guestSuiteSequence w)\<rparr>)"

definition dispatch_io :: "'e engine \<Rightarrow> int \<Rightarrow> jstr \<Rightarrow> ('e, unit) stmt" where
  "dispatch_io E ioKind p =
     (if ioKind = 3 then
        bnd (host_io_data E) (\<lambda>request. bnd next_sequence (\<lambda>i.
          thn (modify (\<lambda>w. w\<lparr>guestSuitePending := i\<rparr>)) (postMessage (Post_guest_suite_request i request))))
      else if ioKind = 4 then
        bnd next_sequence (\<lambda>i.
          thn (modify (\<lambda>w. w\<lparr>renderTestPending := i\<rparr>)) (postMessage (Post_render_test_request i)))
      else if ioKind = 5 then
        bnd (host_io_data E) (\<lambda>bytes. bnd next_sequence (\<lambda>i.
          thn (modify (\<lambda>w. w\<lparr>clipboardPending := i\<rparr>)) (postMessage (Post_clipboard_request i bytes))))
      else if ioKind = 2 then
        bnd (host_io_data E) (\<lambda>bytes.
          thn (postMessage (Post_download p bytes))
          (thn (invoke E ''waste_wast_host_io_complete'' []) (modify (\<lambda>w. w\<lparr>ioPending := True\<rparr>))))
      else if ioKind = 1 then postMessage (Post_upload_request p)
      else ret ())"

definition host_io :: "'e engine \<Rightarrow> ('e, unit) stmt" where
  "host_io E =
     bnd (invoke E ''waste_wast_host_io_kind'' []) (\<lambda>ioKind.
     bnd (invoke_opt E ''waste_wast_host_io_verbose'' []) (\<lambda>vb.
     bnd (invoke E ''waste_wast_host_io_path_ptr'' []) (\<lambda>pathPtr.
     bnd (invoke E ''waste_wast_host_io_path_len'' []) (\<lambda>pathLen.
     bnd (fetch E pathPtr pathLen) (\<lambda>pathBytes.
     bnd (decode_text pathBytes) (\<lambda>p. dispatch_io E ioKind p))))))"

definition wait_timeout :: "'e engine \<Rightarrow> int \<Rightarrow> ('e, int) stmt" where
  "wait_timeout E waitKind =
     (if (waitKind = 1 \<or> waitKind = 2) \<and> exports E ''waste_wast_wait_timeout_ms''
      then invoke E ''waste_wast_wait_timeout_ms'' [] else ret (if waitKind = 2 then 10 else 0))"

text \<open>The head of the loop up to its next \<open>await\<close>.\<close>

definition loop_head :: "'e engine \<Rightarrow> int \<Rightarrow> ('e, unit) stmt" where
  "loop_head E yielded =
     (if yielded = 0 then end_run E
      else bnd (invoke E ''waste_wast_wait_kind'' []) (\<lambda>waitKind.
        if waitKind = 6 then modify (\<lambda>w. w\<lparr>phase := Pump_wait\<rparr>)
        else thn (whenw (waitKind = 5) (host_io E))
             (bnd (wait_timeout E waitKind) (\<lambda>ms.
              thn (modify (\<lambda>w. w\<lparr>phase := Io_phase\<rparr>)) (waitForIO ms)))))"

definition pump_fired :: "'e engine \<Rightarrow> ('e, unit) stmt" where
  "pump_fired E =
     bnd (gets terminated) (\<lambda>stop.
       if stop then end_run E
       else bnd (invoke E ''waste_wast_resume'' []) (\<lambda>yielded.
         thn flushOutput
         (thn (if yielded = 0 then ret ()
               else bnd (invoke E ''waste_wast_wait_kind'' []) (\<lambda>k. whenw (k \<noteq> 6) (post_wait E Post_io_ready)))
              (loop_head E yielded))))"

definition requests_pending :: "'e worker \<Rightarrow> bool" where
  "requests_pending w \<longleftrightarrow> guestSuitePending w \<noteq> 0 \<or> renderTestPending w \<noteq> 0 \<or> clipboardPending w \<noteq> 0"

definition io_resumed :: "'e engine \<Rightarrow> ('e, unit) stmt" where
  "io_resumed E =
     thn (modify (\<lambda>w. w\<lparr>io := No_wait\<rparr>))
     (bnd (gets (\<lambda>w. (requests_pending w, terminated w, pollMs w))) (\<lambda>(pending, stop, ms).
       if pending \<and> \<not> stop then waitForIO ms
       else if stop then end_run E
       else bnd (invoke E ''waste_wast_resume'' []) (\<lambda>yielded.
         thn flushOutput
         (thn (whenw (yielded \<noteq> 0) (post_wait E Post_io_ready)) (loop_head E yielded)))))"

subsection \<open>The run and its interleavings\<close>

definition vfs_paths :: "start_message \<Rightarrow> jstr list" where
  "vfs_paths m =
     map js [''/tmp'', ''/root'', ''/usr/bin'', ''/bin/wat'', ''/bin/wast''] @
     (if m_probe m \<noteq> None then [js ''/bin/waste-probe''] else []) @ m_vfsPaths m @ map pk_path (m_packaged m)"

definition start_engine :: "'e engine \<Rightarrow> start_message \<Rightarrow> int \<times> int \<Rightarrow> ('e, unit) stmt" where
  "start_engine E m script =
     bnd (if m_shell m then invoke E ''waste_wast_start_shell'' []
          else invoke E ''waste_wast_run_script'' [fst script, snd script]) (\<lambda>yielded.
     thn flushOutput
     (thn (whenw (m_suite m = None) (postMessage (Post_vfs (vfs_paths m))))
     (thn (modify (\<lambda>w. w\<lparr>engineReady := True\<rparr>))
     (thn (flushPendingEvents E)
     (thn (post_wait E Post_started) (loop_head E yielded))))))"

text \<open>\<open>run\<close> after its first \<open>await\<close>, the instantiation of the engine.\<close>

definition run :: "'e engine \<Rightarrow> (nat \<Rightarrow> int) \<Rightarrow> start_message \<Rightarrow> ('e, unit) stmt" where
  "run E clock m =
     settle
      (thn (modify (\<lambda>w. w\<lparr>instantiated := True, inSuite := (m_suite m \<noteq> None)\<rparr>))
      (thn (apply_clocks E)
      (thn (enable_terminal E m)
      (thn (stage_all E clock m)
      (thn (set_limits E (m_limits m))
      (thn (set_pump E (m_limits m))
      (bnd (prepare_script E m) (\<lambda>script.
        case script of
          None \<Rightarrow> modify (\<lambda>w. w\<lparr>phase := Ended\<rparr>)
        | Some s \<Rightarrow>
            thn (modify (\<lambda>w. w\<lparr>scriptPtr := fst s, limitTimer := limited (m_limits m)\<rparr>))
                (guarded E (start_engine E m s))))))))))"

text \<open>
  The event loop: a message is handled whole; then a resolved promise continues \<open>run\<close> before the
  next event.
\<close>

definition resume_run :: "'e engine \<Rightarrow> ('e, unit) stmt \<Rightarrow> ('e, unit) stmt" where
  "resume_run E m = settle (guarded E m)"

inductive worker_step :: "'e engine \<Rightarrow> (nat \<Rightarrow> int) \<Rightarrow> start_message \<Rightarrow> 'e worker \<Rightarrow> 'e worker \<Rightarrow> bool"
  for E :: "'e engine" and clock :: "nat \<Rightarrow> int" and m :: start_message where
  start: "phase w = Not_started \<Longrightarrow> worker_step E clock m w (w\<lparr>phase := Instantiating\<rparr>)"
| instantiate: "phase w = Instantiating \<Longrightarrow> worker_step E clock m w (snd (run E clock m w))"
| message: "io w \<noteq> Resolved \<Longrightarrow> worker_step E clock m w (snd (onmessage E msg w))"
| pump: "phase w = Pump_wait \<Longrightarrow> worker_step E clock m w (snd (resume_run E (pump_fired E) w))"
| resume: "phase w = Io_phase \<Longrightarrow> io w = Resolved \<Longrightarrow> worker_step E clock m w (snd (resume_run E (io_resumed E) w))"
| poll: "io w = Registered \<Longrightarrow> pollMs w \<noteq> 0 \<Longrightarrow> worker_step E clock m w (snd (wake_waiter w))"
| limit: "io w \<noteq> Resolved \<Longrightarrow> limitTimer w \<Longrightarrow> worker_step E clock m w (snd (wakeIO w))"

end
