(* ===== verification/Worker_Frame.thy ===== *)
theory Worker_Frame
  imports Worker_Run
begin

text \<open>
  Rules for statements of the worker. \<open>triple P m Q R\<close> says that \<open>m\<close>, started in a state with \<open>P\<close>, ends
  normally with a value and a state in \<open>Q\<close> or throws in a state with \<open>R\<close>; \<open>keeps P m\<close> is the special case
  of an invariant. The locale \<open>worker_frame\<close> describes a predicate that does not observe the engine,
  the decoder and the posts without a request id; every staging, reading and reporting step keeps
  such a predicate. \<open>control_frame\<close> and \<open>message_frame\<close> extend it to the delivery of queued events and to
  the whole handler \<open>onmessage\<close>, and \<open>loop_frame\<close> to the loop of \<open>run\<close>.
\<close>

named_theorems stm

definition triple ::
    "('e worker \<Rightarrow> bool) \<Rightarrow> ('e, 'a) stmt \<Rightarrow> ('a \<Rightarrow> 'e worker \<Rightarrow> bool) \<Rightarrow> ('e worker \<Rightarrow> bool) \<Rightarrow> bool" where
  "triple P m Q R \<longleftrightarrow> (\<forall>w. P w \<longrightarrow> (case m w of (Inl e, w1) \<Rightarrow> R w1 | (Inr v, w1) \<Rightarrow> Q v w1))"

abbreviation keeps :: "('e worker \<Rightarrow> bool) \<Rightarrow> ('e, 'a) stmt \<Rightarrow> bool" where
  "keeps P m \<equiv> triple P m (\<lambda>_. P) P"

lemma tripleI:
  "(\<And>w. P w \<Longrightarrow> case m w of (Inl e, w1) \<Rightarrow> R w1 | (Inr v, w1) \<Rightarrow> Q v w1) \<Longrightarrow> triple P m Q R"
  by (simp add: triple_def)

lemma tripleD: "triple P m Q R \<Longrightarrow> P w \<Longrightarrow> m w = (Inr v, w1) \<Longrightarrow> Q v w1"
  by (fastforce simp: triple_def)

lemma triple_pre: "triple P m Q R \<Longrightarrow> (\<And>w. P' w \<Longrightarrow> P w) \<Longrightarrow> triple P' m Q R"
  by (simp add: triple_def)

lemma triple_bnd:
  assumes "triple P m Q R" and "\<And>v. triple (Q v) (f v) S R"
  shows "triple P (bnd m f) S R"
proof (rule tripleI)
  fix w assume "P w"
  with assms(1) have m: "case m w of (Inl e, w1) \<Rightarrow> R w1 | (Inr v, w1) \<Rightarrow> Q v w1"
    by (simp add: triple_def)
  obtain r w1 where mw: "m w = (r, w1)" by (cases "m w")
  show "case bnd m f w of (Inl e, w1) \<Rightarrow> R w1 | (Inr v, w1) \<Rightarrow> S v w1"
  proof (cases r)
    case (Inl e)
    with m mw show ?thesis by (simp add: bnd_def)
  next
    case (Inr v)
    with m mw have "Q v w1" by simp
    moreover have "Q v w1 \<longrightarrow> (case f v w1 of (Inl e, w1) \<Rightarrow> R w1 | (Inr v, w1) \<Rightarrow> S v w1)"
      using assms(2) [of v] unfolding triple_def by (rule spec)
    ultimately show ?thesis using mw Inr by (simp add: bnd_def)
  qed
qed

lemma triple_thn: "triple P m (\<lambda>_. Q) R \<Longrightarrow> triple Q n S R \<Longrightarrow> triple P (thn m n) S R"
  unfolding thn_def by (rule triple_bnd)

lemma triple_gets: "(\<And>w. P w \<Longrightarrow> Q (f w) w) \<Longrightarrow> triple P (gets f) Q R"
  by (simp add: triple_def gets_def)

lemma triple_bnd_gets: "(\<And>x. triple (\<lambda>w. P w \<and> f w = x) (g x) Q R) \<Longrightarrow> triple P (bnd (gets f) g) Q R"
  by (simp add: triple_def gets_def bnd_def)

lemma triple_modify: "(\<And>w. P w \<Longrightarrow> Q () (f w)) \<Longrightarrow> triple P (modify f) Q R"
  by (simp add: triple_def modify_def)

lemma triple_ret: "(\<And>w. P w \<Longrightarrow> Q v w) \<Longrightarrow> triple P (ret v) Q R"
  by (simp add: triple_def ret_def)

lemma triple_throw: "(\<And>w. P w \<Longrightarrow> R w) \<Longrightarrow> triple P (throw e) Q R"
  by (simp add: triple_def throw_def)

lemma triple_conseq:
  assumes "triple P m Q R" "\<And>w. P' w \<Longrightarrow> P w" "\<And>v w. Q v w \<Longrightarrow> Q' v w" "\<And>w. R w \<Longrightarrow> R' w"
  shows "triple P' m Q' R'"
  using assms by (fastforce simp: triple_def split: prod.splits sum.splits)

lemma triple_conj:
  assumes "triple P m Q R" "triple P' m Q' R'"
  shows "triple (\<lambda>w. P w \<and> P' w) m (\<lambda>v w. Q v w \<and> Q' v w) (\<lambda>w. R w \<and> R' w)"
  using assms by (fastforce simp: triple_def split: prod.splits sum.splits)

lemma keeps_if [stm]: "(b \<Longrightarrow> triple P m Q R) \<Longrightarrow> (\<not> b \<Longrightarrow> triple P n Q R) \<Longrightarrow> triple P (if b then m else n) Q R"
  by simp

lemma keeps_bnd [stm]: "keeps P m \<Longrightarrow> (\<And>v. keeps P (f v)) \<Longrightarrow> keeps P (bnd m f)"
  by (rule triple_bnd)

lemma keeps_thn [stm]: "keeps P m \<Longrightarrow> keeps P n \<Longrightarrow> keeps P (thn m n)"
  by (rule triple_thn)

lemma keeps_ret [stm]: "keeps P (ret v)"
  by (simp add: triple_ret)

lemma keeps_throw [stm]: "keeps P (throw e)"
  by (simp add: triple_throw)

lemma keeps_gets [stm]: "keeps P (gets f)"
  by (simp add: triple_gets)

lemma keeps_whenw [stm]: "(b \<Longrightarrow> keeps P m) \<Longrightarrow> keeps P (whenw b m)"
  by (simp add: whenw_def triple_ret)

lemma keeps_iff: "keeps P m \<longleftrightarrow> (\<forall>w. P w \<longrightarrow> P (snd (m w)))"
proof -
  have "(case m w of (Inl e, w1) \<Rightarrow> P w1 | (Inr v, w1) \<Rightarrow> P w1) = P (snd (m w))" for w
    by (simp add: case_prod_beta split: sum.split)
  then show ?thesis by (simp add: triple_def)
qed

lemma snd_finallyw: "snd (finallyw m f w) = snd (f (snd (m w)))"
  by (simp add: finallyw_def case_prod_beta split: sum.split)

lemma snd_catchw: "snd (catchw m h w) = (if isl (fst (m w)) then snd (h (snd (m w))) else snd (m w))"
  by (cases "fst (m w)") (simp_all add: catchw_def case_prod_beta)

lemma keeps_finallyw [stm]: "keeps P m \<Longrightarrow> keeps P f \<Longrightarrow> keeps P (finallyw m f)"
  by (simp add: keeps_iff snd_finallyw)

lemma keeps_catchw [stm]: "keeps P m \<Longrightarrow> keeps P h \<Longrightarrow> keeps P (catchw m h)"
  by (simp add: keeps_iff snd_catchw)

lemma keeps_option [stm]: "keeps P m \<Longrightarrow> (\<And>x. keeps P (f x)) \<Longrightarrow> keeps P (case v of None \<Rightarrow> m | Some x \<Rightarrow> f x)"
  by (cases v) simp_all

lemma keeps_prod [stm]: "(\<And>a b. keeps P (f a b)) \<Longrightarrow> keeps P (case p of (a, b) \<Rightarrow> f a b)"
  by (cases p) simp

lemma keeps_each [stm]: "(\<And>x. keeps P (f x)) \<Longrightarrow> keeps P (each f xs)"
  by (induction xs) (simp_all add: keeps_ret keeps_thn)

lemma keeps_collect [stm]: "(\<And>x. keeps P (f x)) \<Longrightarrow> keeps P (collect f xs)"
  by (induction xs) (auto intro!: keeps_ret keeps_bnd)

lemma keepsD: "keeps P m \<Longrightarrow> P w \<Longrightarrow> P (snd (m w))"
  by (simp add: keeps_iff)

subsection \<open>Predicates that do not observe the engine\<close>

text \<open>The id of the request that a post makes.\<close>

fun post_id :: "post \<Rightarrow> nat option" where
  "post_id (Post_guest_suite_request i request) = Some i"
| "post_id (Post_render_test_request i) = Some i"
| "post_id (Post_clipboard_request i bytes) = Some i"
| "post_id p = None"

locale worker_frame =
  fixes P :: "'e worker \<Rightarrow> bool"
  assumes engine_frame: "P w \<Longrightarrow> P (w\<lparr>eng := e, calls := calls w @ cs\<rparr>)"
    and text_frame: "P w \<Longrightarrow> P (w\<lparr>text_state := d, pendingOutput := s\<rparr>)"
    and post_frame: "P w \<Longrightarrow> post_id p = None \<Longrightarrow> P (w\<lparr>posts := posts w @ [p]\<rparr>)"
begin

lemma decoder_frame: "P w \<Longrightarrow> P (w\<lparr>text_state := d\<rparr>)"
  using text_frame [where w = w and d = d and s = "pendingOutput w"] by simp

lemma callbacks_frame: "P w \<Longrightarrow> P (fold run_callback cbs w)"
  by (induction cbs arbitrary: w)
    (simp_all add: run_callback_def posixWrite_def text_frame decoder_frame Let_def split: callback.splits prod.splits)

lemma keeps_invoke [stm]: "keeps P (invoke E name args)"
  by (rule tripleI) (simp add: invoke_def Let_def callbacks_frame engine_frame split: prod.splits)

lemma keeps_invoke_opt [stm]: "keeps P (invoke_opt E name args)"
  using keeps_invoke [of E name args] by (simp add: triple_def invoke_opt_def)

lemma keeps_store [stm]: "keeps P (store E p bs)"
  by (rule tripleI) (simp add: store_def engine_frame)

lemma keeps_fetch [stm]: "keeps P (fetch E p n)"
  by (rule tripleI) (simp add: fetch_def)

lemma keeps_decode_text [stm]: "keeps P (decode_text bs)"
  by (rule tripleI) (simp add: decode_text_def decoder_frame split: prod.splits)

lemma keeps_post [stm]: "post_id p = None \<Longrightarrow> keeps P (postMessage p)"
  by (simp add: postMessage_def triple_modify post_frame)

lemma keeps_flushOutput [stm]: "keeps P flushOutput"
proof (rule tripleI)
  fix w assume w: "P w"
  define w1 where "w1 = w\<lparr>posts := posts w @ [Post_output (pendingOutput w)]\<rparr>"
  have "P w1" using w by (simp add: w1_def post_frame)
  then have "P (w1\<lparr>text_state := text_state w1, pendingOutput := []\<rparr>)" by (rule text_frame)
  then have "P (w\<lparr>posts := posts w @ [Post_output (pendingOutput w)], pendingOutput := []\<rparr>)" by (simp add: w1_def)
  with w show "case flushOutput w of (Inl e, w1) \<Rightarrow> P w1 | (Inr v, w1) \<Rightarrow> P w1"
    by (simp add: flushOutput_def)
qed

lemma keeps_controlError [stm]: "keeps P (controlError s)"
  unfolding controlError_def by (intro stm) simp

lemma keeps_free [stm]: "keeps P (free E p)"
  unfolding free_def by (intro stm)

lemma keeps_host_io_cancel [stm]: "keeps P (host_io_cancel E)"
  unfolding host_io_cancel_def by (intro stm)

lemma keeps_host_io_guard [stm]: "keeps P body \<Longrightarrow> keeps P (host_io_guard E ok k body)"
  unfolding host_io_guard_def by (intro stm)

lemma keeps_send_reply [stm]: "keeps P (send_reply E r bs)"
  unfolding send_reply_def by (intro stm)

lemma keeps_provide_upload [stm]: "keeps P (provide_upload E bs)"
  unfolding provide_upload_def by (intro stm)

lemma keeps_memory [stm]: "keeps P (memory E)"
  unfolding memory_def by (intro stm)

lemma keeps_readString [stm]: "keeps P (readString E p)"
  unfolding readString_def by (intro stm)

lemma keeps_staged1 [stm]: "(\<And>p. keeps P (f p)) \<Longrightarrow> keeps P (staged1 E bs e f e')"
  unfolding staged1_def by (intro stm)

lemma keeps_staged2 [stm]: "(\<And>p q. keeps P (f p q)) \<Longrightarrow> keeps P (staged2 E bs bs' e f e')"
  unfolding staged2_def by (intro stm)

lemma keeps_submit [stm]: "(\<And>p n. keeps P (f p n)) \<Longrightarrow> keeps P (submit E bs f)"
  unfolding submit_def by (intro stm)

lemma keeps_stageInstalledVfs [stm]: "keeps P (stageInstalledVfs E v)"
  unfolding stageInstalledVfs_def by (intro stm)

lemma keeps_stageVfsMtime [stm]: "keeps P (stageVfsMtime E clock s n)"
  unfolding stageVfsMtime_def Let_def split_beta by (intro stm)

lemma keeps_stageVfsPath [stm]: "keeps P (stageVfsPath E clock p k md n s ns)"
  unfolding stageVfsPath_def Let_def by (intro stm)

lemma keeps_stageVfsSymlink [stm]: "keeps P (stageVfsSymlink E clock p t md s ns)"
  unfolding stageVfsSymlink_def Let_def by (intro stm)

lemma keeps_stage_file [stm]: "keeps P (stage_file E p bs md e e')"
  unfolding stage_file_def Let_def by (intro stm)

lemma keeps_stage_directory [stm]: "keeps P (stage_directory E clock m d)"
  unfolding stage_directory_def by (intro stm)

lemma keeps_stage_cwd [stm]: "keeps P (stage_cwd E)"
  unfolding stage_cwd_def by (intro stm)

lemma keeps_stage_packaged [stm]: "keeps P (stage_packaged E clock f)"
  unfolding stage_packaged_def by (intro stm)

lemma keeps_stage_probe [stm]: "keeps P (stage_probe E clock m)"
  unfolding stage_probe_def by (intro stm)

lemma keeps_stage_build_mtime [stm]: "keeps P (stage_build_mtime E m)"
  unfolding stage_build_mtime_def by (intro stm)

lemma keeps_stage_executable [stm]: "keeps P (stage_executable E m)"
  unfolding stage_executable_def by (intro stm)

lemma keeps_enable_terminal [stm]: "keeps P (enable_terminal E m)"
  unfolding enable_terminal_def by (intro stm)

lemma keeps_stage_all [stm]: "keeps P (stage_all E clock m)"
  unfolding stage_all_def by (intro stm)

lemma keeps_set_limits [stm]: "keeps P (set_limits E l)"
  unfolding set_limits_def Let_def by (intro stm)

lemma keeps_set_pump [stm]: "keeps P (set_pump E l)"
  unfolding set_pump_def Let_def by (intro stm)

lemma keeps_suiteError [stm]: "keeps P (suiteError E)"
  unfolding suiteError_def by (intro stm)

lemma keeps_read_test [stm]: "keeps P (read_test E i)"
  unfolding read_test_def by (intro stm)

lemma keeps_suite_script [stm]: "keeps P (suite_script E q)"
  unfolding suite_script_def
  by (intro stm) simp

lemma keeps_prepare_script [stm]: "keeps P (prepare_script E m)"
  unfolding prepare_script_def Let_def by (intro stm)

lemma keeps_read_result [stm]: "keeps P (read_result E p i)"
  unfolding read_result_def Let_def by (intro stm)

lemma keeps_read_failure [stm]: "keeps P (read_failure E p)"
  unfolding read_failure_def Let_def by (intro stm)

lemma keeps_read_failures [stm]: "keeps P (read_failures E i)"
proof (induction E i rule: read_failures.induct)
  case (1 E i)
  then show ?case by (subst read_failures.simps) (intro stm)
qed

lemma keeps_read_setup [stm]: "keeps P (read_setup E)"
  unfolding read_setup_def by (intro stm)

lemma keeps_report_of [stm]: "keeps P (report_of E n p rs su c ok)"
  unfolding report_of_def by (intro stm)

lemma keeps_post_evidence [stm]: "keeps P (post_evidence E)"
  unfolding post_evidence_def by (intro stm) simp

lemma keeps_post_report [stm]: "keeps P (post_report E)"
  unfolding post_report_def Let_def by (intro stm) simp_all

lemma keeps_post_wait [stm]: "(\<And>pid k. post_id (p pid k) = None) \<Longrightarrow> keeps P (post_wait E p)"
  unfolding post_wait_def process_id_def by (intro stm)

lemma keeps_host_io_data [stm]: "keeps P (host_io_data E)"
  unfolding host_io_data_def by (intro stm)

lemma keeps_wait_timeout [stm]: "keeps P (wait_timeout E k)"
  unfolding wait_timeout_def by (intro stm)

end

text \<open>
  \<open>control_frame\<close>: the predicate survives a wake-up and the emptying of the queues. \<open>message_frame\<close>: it
  survives every update that a message makes, so that \<open>onmessage\<close> keeps it.
\<close>

definition signal_ok :: "signal_entry \<Rightarrow> bool" where
  "signal_ok s \<longleftrightarrow> 1 \<le> sig_number s \<and> sig_number s \<le> 128 \<and> 0 \<le> sig_pid s \<and> 0 \<le> sig_pgid s \<and>
     (sig_pid s = 0 \<or> sig_pgid s = 0)"

definition size_ok :: "int \<times> int \<Rightarrow> bool" where
  "size_ok p \<longleftrightarrow> 1 \<le> fst p \<and> fst p \<le> 65535 \<and> 1 \<le> snd p \<and> snd p \<le> 65535"

lemma int_in_iff: "int_in v lo hi \<longleftrightarrow> (\<exists>k. v = Some k \<and> lo \<le> k \<and> k \<le> hi)"
  by (simp add: int_in_def split: option.split)

locale control_frame = worker_frame P for P :: "'e worker \<Rightarrow> bool" +
  assumes pending_frame: "P w \<Longrightarrow> P (w\<lparr>ioPending := True\<rparr>)"
    and resolve_frame: "P w \<Longrightarrow> io w = Registered \<Longrightarrow> P (w\<lparr>io := Resolved\<rparr>)"
    and clear_input: "P w \<Longrightarrow> P (w\<lparr>pendingInput := [], pendingInputBytes := 0\<rparr>)"
    and clear_signals: "P w \<Longrightarrow> P (w\<lparr>pendingSignals := []\<rparr>)"
    and clear_resize: "P w \<Longrightarrow> P (w\<lparr>pendingResize := None\<rparr>)"
    and clocks_frame: "P w \<Longrightarrow> P (w\<lparr>pendingClocks := c\<rparr>)"
begin

lemma keeps_wakeIO [stm]: "keeps P wakeIO"
  unfolding wakeIO_def by (rule triple_modify) (simp add: pending_frame resolve_frame)

lemma keeps_wake_waiter [stm]: "keeps P wake_waiter"
  unfolding wake_waiter_def by (rule triple_modify) (simp add: resolve_frame)

lemma keeps_enqueueInput [stm]: "keeps P (enqueueInput E bytes)"
  unfolding enqueueInput_def Let_def by (intro stm) simp

lemma keeps_raise_pending [stm]: "keeps P (raise_pending E s)"
  unfolding raise_pending_def by (intro stm)

lemma keeps_flush_resize [stm]: "keeps P (flush_resize E)"
  unfolding flush_resize_def by (intro stm triple_modify) (rule clear_resize)

lemma keeps_flushPendingEvents [stm]: "keeps P (flushPendingEvents E)"
  unfolding flushPendingEvents_def
  by (intro stm triple_modify) (simp_all add: clear_input clear_signals)

lemma keeps_apply_clocks [stm]: "keeps P (apply_clocks E)"
  unfolding apply_clocks_def by (intro stm triple_modify) (rule clocks_frame)

lemma keeps_on_advance_clock [stm]: "keeps P (on_advance_clock E l h)"
  unfolding on_advance_clock_def by (intro stm)

lemma keeps_on_set_clock [stm]: "keeps P (on_set_clock rl rh ml mh)"
  unfolding on_set_clock_def by (intro stm triple_modify) (rule clocks_frame)

end

locale message_frame = control_frame P for P :: "'e worker \<Rightarrow> bool" +
  assumes push_input: "P w \<Longrightarrow> pendingInputBytes w + length bs \<le> TERMINAL_INPUT_CAPACITY \<Longrightarrow>
      P (w\<lparr>pendingInput := pendingInput w @ [bs], pendingInputBytes := pendingInputBytes w + length bs\<rparr>)"
    and push_signal: "P w \<Longrightarrow> length (pendingSignals w) < pendingSignalLimit \<Longrightarrow> signal_ok s \<Longrightarrow>
      P (w\<lparr>pendingSignals := pendingSignals w @ [s]\<rparr>)"
    and set_resize: "P w \<Longrightarrow> size_ok p \<Longrightarrow> P (w\<lparr>pendingResize := Some p\<rparr>)"
    and clear_guest: "P w \<Longrightarrow> P (w\<lparr>guestSuitePending := 0\<rparr>)"
    and clear_render: "P w \<Longrightarrow> P (w\<lparr>renderTestPending := 0\<rparr>)"
    and clear_clipboard: "P w \<Longrightarrow> P (w\<lparr>clipboardPending := 0\<rparr>)"
    and set_terminated: "P w \<Longrightarrow> P (w\<lparr>terminated := True\<rparr>)"
begin

lemma keeps_on_input [stm]: "keeps P (on_input E bytes)"
  unfolding on_input_def by (intro stm triple_modify) (simp add: push_input)

lemma keeps_push_signal:
  assumes "signal_ok s"
  shows "keeps P (bnd (gets pendingSignals) (\<lambda>queue. if length queue < pendingSignalLimit
     then modify (\<lambda>w. w\<lparr>pendingSignals := pendingSignals w @ [s]\<rparr>) else controlError ''signal''))"
proof (rule triple_bnd_gets)
  fix queue :: "signal_entry list"
  have "triple (\<lambda>w. P w \<and> pendingSignals w = queue)
     (modify (\<lambda>w. w\<lparr>pendingSignals := pendingSignals w @ [s]\<rparr>)) (\<lambda>_. P) P"
    if "length queue < pendingSignalLimit"
    by (rule triple_modify) (use that assms in \<open>auto intro: push_signal\<close>)
  moreover have "triple (\<lambda>w. P w \<and> pendingSignals w = queue) (controlError ''signal'') (\<lambda>_. P) P"
    by (rule triple_conseq [OF keeps_controlError]) auto
  ultimately show "triple (\<lambda>w. P w \<and> pendingSignals w = queue)
     (if length queue < pendingSignalLimit then modify (\<lambda>w. w\<lparr>pendingSignals := pendingSignals w @ [s]\<rparr>)
      else controlError ''signal'') (\<lambda>_. P) P"
    by (cases "length queue < pendingSignalLimit") simp_all
qed

lemma keeps_on_signal [stm]: "keeps P (on_signal E sig p g)"
proof (cases "\<not> int_in sig 1 128 \<or> \<not> int_in p 0 0x7fffffff \<or> \<not> int_in g 0 0x7fffffff \<or> (the p \<noteq> 0 \<and> the g \<noteq> 0)")
  case True
  then show ?thesis unfolding on_signal_def if_P [OF True] by (intro stm)
next
  case False
  then have "signal_ok \<lparr>sig_number = the sig, sig_pid = the p, sig_pgid = the g\<rparr>"
    by (auto simp: signal_ok_def int_in_iff)
  note push = keeps_push_signal [OF this]
  show ?thesis unfolding on_signal_def if_not_P [OF False] by (intro push stm)
qed

lemma keeps_on_resize [stm]: "keeps P (on_resize E c r)"
proof (cases "\<not> int_in c 1 65535 \<or> \<not> int_in r 1 65535")
  case True
  then show ?thesis unfolding on_resize_def if_P [OF True] by (intro stm)
next
  case False
  then have "size_ok (the c, the r)" by (auto simp: size_ok_def int_in_iff)
  then show ?thesis
    unfolding on_resize_def if_not_P [OF False] by (intro stm triple_modify) (rule set_resize)
qed

lemma keeps_drop_guest_suite [stm]: "keeps P drop_guest_suite"
  unfolding drop_guest_suite_def by (intro stm triple_modify) (simp_all add: clear_guest)

lemma keeps_on_guest_suite_response [stm]: "keeps P (on_guest_suite_response E i bs)"
  unfolding on_guest_suite_response_def by (intro stm triple_modify) (rule clear_guest)

lemma keeps_on_render_test_response [stm]: "keeps P (on_render_test_response E i bs)"
  unfolding on_render_test_response_def by (intro stm triple_modify) (rule clear_render)

lemma keeps_on_clipboard_response [stm]: "keeps P (on_clipboard_response E i b)"
  unfolding on_clipboard_response_def by (intro stm triple_modify) (rule clear_clipboard)

lemma keeps_on_upload_response [stm]: "keeps P (on_upload_response E b bs)"
  unfolding on_upload_response_def by (intro stm)

lemma keeps_on_cancel [stm]: "keeps P (on_cancel E)"
  unfolding on_cancel_def by (intro stm triple_modify) (rule clear_render)

lemma keeps_on_stop [stm]: "keeps P on_stop"
  unfolding on_stop_def by (intro stm triple_modify) (simp_all add: clear_render set_terminated)

lemma keeps_onmessage: "keeps P (onmessage E m)"
  unfolding onmessage_def by (cases m; simp only: message.case; intro stm)

end

text \<open>
  \<open>loop_frame\<close>: the predicate also survives the updates of the loop of \<open>run\<close> and a posted request, so
  that every step of the worker keeps it.
\<close>

locale loop_frame = message_frame P for P :: "'e worker \<Rightarrow> bool" +
  assumes request_frame: "P w \<Longrightarrow> post_id p = Some (Suc (guestSuiteSequence w)) \<Longrightarrow>
      P (w\<lparr>guestSuiteSequence := Suc (guestSuiteSequence w), guestSuitePending := g, renderTestPending := r,
           clipboardPending := c, posts := posts w @ [p]\<rparr>)"
    and wait_frame: "P w \<Longrightarrow> P (w\<lparr>ioPending := b, io := i, pollMs := t\<rparr>)"
    and phase_frame: "P w \<Longrightarrow> P (w\<lparr>phase := ph\<rparr>)"
    and run_frame: "P w \<Longrightarrow> P (w\<lparr>instantiated := b1, inSuite := b2, engineReady := b3, scriptPtr := q, limitTimer := b4\<rparr>)"
begin

lemma keeps_guest_request [stm]:
  "keeps P (bnd next_sequence (\<lambda>i. thn (modify (\<lambda>w. w\<lparr>guestSuitePending := i\<rparr>)) (postMessage (Post_guest_suite_request i bs))))"
proof (rule tripleI)
  fix w assume "P w"
  then show "case bnd next_sequence (\<lambda>i. thn (modify (\<lambda>w. w\<lparr>guestSuitePending := i\<rparr>)) (postMessage (Post_guest_suite_request i bs))) w
     of (Inl e, w1) \<Rightarrow> P w1 | (Inr v, w1) \<Rightarrow> P w1"
    using request_frame [where w = w and p = "Post_guest_suite_request (Suc (guestSuiteSequence w)) bs" and g = "Suc (guestSuiteSequence w)" and r = "renderTestPending w" and c = "clipboardPending w"]
    by (simp add: next_sequence_def bnd_def thn_def modify_def postMessage_def)
qed

lemma keeps_render_request [stm]:
  "keeps P (bnd next_sequence (\<lambda>i. thn (modify (\<lambda>w. w\<lparr>renderTestPending := i\<rparr>)) (postMessage (Post_render_test_request i))))"
proof (rule tripleI)
  fix w assume "P w"
  then show "case bnd next_sequence (\<lambda>i. thn (modify (\<lambda>w. w\<lparr>renderTestPending := i\<rparr>)) (postMessage (Post_render_test_request i))) w
     of (Inl e, w1) \<Rightarrow> P w1 | (Inr v, w1) \<Rightarrow> P w1"
    using request_frame [where w = w and p = "Post_render_test_request (Suc (guestSuiteSequence w))" and g = "guestSuitePending w" and r = "Suc (guestSuiteSequence w)" and c = "clipboardPending w"]
    by (simp add: next_sequence_def bnd_def thn_def modify_def postMessage_def)
qed

lemma keeps_clipboard_request [stm]:
  "keeps P (bnd next_sequence (\<lambda>i. thn (modify (\<lambda>w. w\<lparr>clipboardPending := i\<rparr>)) (postMessage (Post_clipboard_request i bs))))"
proof (rule tripleI)
  fix w assume "P w"
  then show "case bnd next_sequence (\<lambda>i. thn (modify (\<lambda>w. w\<lparr>clipboardPending := i\<rparr>)) (postMessage (Post_clipboard_request i bs))) w
     of (Inl e, w1) \<Rightarrow> P w1 | (Inr v, w1) \<Rightarrow> P w1"
    using request_frame [where w = w and p = "Post_clipboard_request (Suc (guestSuiteSequence w)) bs" and g = "guestSuitePending w" and r = "renderTestPending w" and c = "Suc (guestSuiteSequence w)"]
    by (simp add: next_sequence_def bnd_def thn_def modify_def postMessage_def)
qed

lemma keeps_host_io [stm]: "keeps P (host_io E)"
  unfolding host_io_def dispatch_io_def
  by (intro keeps_guest_request keeps_render_request keeps_clipboard_request stm triple_modify)
    (simp_all add: pending_frame)

lemma keeps_waitForIO [stm]: "keeps P (waitForIO t)"
  unfolding waitForIO_def
proof (rule triple_modify)
  fix w assume "P w"
  then show "P (if ioPending w then w\<lparr>ioPending := False, io := Resolved, pollMs := t\<rparr>
                else w\<lparr>io := Registered, pollMs := t\<rparr>)"
    using wait_frame [where w = w and b = "ioPending w" and i = Registered and t = t]
      wait_frame [where w = w and b = False and i = Resolved and t = t] by simp
qed

lemma keeps_set_phase [stm]: "keeps P (modify (\<lambda>w. w\<lparr>phase := ph\<rparr>))"
  by (rule triple_modify) (rule phase_frame)

lemma keeps_cleanup [stm]: "keeps P (cleanup E)"
  unfolding cleanup_def
proof (intro stm triple_modify)
  fix w assume "P w"
  then show "P (w\<lparr>limitTimer := False\<rparr>)"
    using run_frame [where w = w and ?b1.0 = "instantiated w" and ?b2.0 = "inSuite w" and ?b3.0 = "engineReady w"
        and ?b4.0 = False and q = "scriptPtr w"] by simp
qed

lemma keeps_end_run [stm]: "keeps P (end_run E)"
  unfolding end_run_def by (intro stm)

lemma keeps_loop_head [stm]: "keeps P (loop_head E y)"
  unfolding loop_head_def by (intro stm)

lemma keeps_pump_fired [stm]: "keeps P (pump_fired E)"
  unfolding pump_fired_def by (intro stm) simp

lemma keeps_io_resumed [stm]: "keeps P (io_resumed E)"
  unfolding io_resumed_def
proof (intro stm triple_modify)
  fix w assume "P w"
  then show "P (w\<lparr>io := No_wait\<rparr>)"
    using wait_frame [where w = w and b = "ioPending w" and i = No_wait and t = "pollMs w"] by simp
qed simp

lemma keeps_guarded [stm]: "keeps P m \<Longrightarrow> keeps P (guarded E m)"
proof -
  assume m: "keeps P m"
  have "keeps P (bnd (cleanup E) (\<lambda>_. throw e))" for e :: js_error by (intro stm)
  then have "P w \<Longrightarrow> P (snd (bnd (cleanup E) (\<lambda>_. throw e) w))" for w and e :: js_error
    using keepsD by blast
  with m show ?thesis
    by (auto simp: keeps_iff guarded_def case_prod_beta split: sum.split)
qed

lemma keeps_settle [stm]: "keeps P m \<Longrightarrow> keeps P (settle m)"
proof -
  assume m: "keeps P m"
  have "P w \<Longrightarrow> P (w\<lparr>phase := Ended, posts := posts w @ [Post_failed e]\<rparr>)" for w e
    using post_frame [where w = "w\<lparr>phase := Ended\<rparr>" and p = "Post_failed e"] phase_frame [of w Ended] by simp
  with m show ?thesis by (auto simp: keeps_iff settle_def case_prod_beta split: sum.split)
qed

lemma keeps_start_engine [stm]: "keeps P (start_engine E m s)"
  unfolding start_engine_def
proof (intro stm triple_modify)
  fix w assume "P w"
  then show "P (w\<lparr>engineReady := True\<rparr>)"
    using run_frame [where w = w and ?b1.0 = "instantiated w" and ?b2.0 = "inSuite w" and ?b3.0 = True
        and ?b4.0 = "limitTimer w" and q = "scriptPtr w"] by simp
qed simp_all

lemma keeps_run [stm]: "keeps P (run E clock m)"
  unfolding run_def
proof (intro stm triple_modify)
  fix w assume "P w"
  then show "P (w\<lparr>instantiated := True, inSuite := b\<rparr>)" for b
    using run_frame [where w = w and ?b1.0 = True and ?b2.0 = b and ?b3.0 = "engineReady w"
        and ?b4.0 = "limitTimer w" and q = "scriptPtr w"] by simp
next
  fix s :: "int \<times> int" and w assume "P w"
  then show "P (w\<lparr>scriptPtr := fst s, limitTimer := limited (m_limits m)\<rparr>)"
    using run_frame [where w = w and ?b1.0 = "instantiated w" and ?b2.0 = "inSuite w" and ?b3.0 = "engineReady w"
        and ?b4.0 = "limited (m_limits m)" and q = "fst s"] by simp
qed

lemma step_keeps: "worker_step E clock m w w' \<Longrightarrow> P w \<Longrightarrow> P w'"
  by (induction rule: worker_step.induct)
    (auto intro: phase_frame keepsD [OF keeps_run] keepsD [OF keeps_onmessage]
      keepsD [OF keeps_wake_waiter] keepsD [OF keeps_wakeIO]
      keepsD [OF keeps_settle, OF keeps_guarded, OF keeps_pump_fired]
      keepsD [OF keeps_settle, OF keeps_guarded, OF keeps_io_resumed] simp: resume_run_def)

lemma reachable_keeps: "(worker_step E clock m)\<^sup>*\<^sup>* w w' \<Longrightarrow> P w \<Longrightarrow> P w'"
  by (induction rule: rtranclp_induct) (auto intro: step_keeps)

end

end
