(* ===== verification/Worker_Props.thy ===== *)
theory Worker_Props
  imports Worker_Frame
begin

text \<open>
  Properties of the worker under every interleaving of messages, timers and resumptions of \<open>run\<close>:
  the queues of early events stay within their limits, at most one request to the page is
  outstanding and its id is fresh, and an answered request resumes the engine. The first two use
  the locale \<open>loop_frame\<close>, interpreted on the invariants \<open>queue_inv\<close> and \<open>ids_inv\<close>.
\<close>

subsection \<open>The queues of early events and the request ids\<close>

definition queue_inv :: "'e worker \<Rightarrow> bool" where
  "queue_inv w \<longleftrightarrow>
     pendingInputBytes w = sum_list (map length (pendingInput w)) \<and>
     pendingInputBytes w \<le> TERMINAL_INPUT_CAPACITY \<and>
     length (pendingSignals w) \<le> pendingSignalLimit \<and> list_all signal_ok (pendingSignals w) \<and>
     (case pendingResize w of None \<Rightarrow> True | Some p \<Rightarrow> size_ok p)"

interpretation queue: loop_frame queue_inv
  by unfold_locales (auto simp: queue_inv_def)

definition request_ids :: "post list \<Rightarrow> nat list" where
  "request_ids ps = List.map_filter post_id ps"

lemma request_ids_append: "request_ids (ps @ [p]) = request_ids ps @ (case post_id p of None \<Rightarrow> [] | Some i \<Rightarrow> [i])"
  by (simp add: request_ids_def List.map_filter_def split: option.split)

definition ids_inv :: "'e worker \<Rightarrow> bool" where
  "ids_inv w \<longleftrightarrow> request_ids (posts w) = [1..<Suc (guestSuiteSequence w)]"

interpretation ids: loop_frame ids_inv
  by unfold_locales (simp_all add: ids_inv_def request_ids_append)

subsection \<open>The protocol of requests\<close>

definition one_request :: "'e worker \<Rightarrow> bool" where
  "one_request w \<longleftrightarrow>
     guestSuitePending w \<le> guestSuiteSequence w \<and> renderTestPending w \<le> guestSuiteSequence w \<and>
     clipboardPending w \<le> guestSuiteSequence w \<and>
     (guestSuitePending w = 0 \<and> renderTestPending w = 0 \<or> guestSuitePending w = 0 \<and> clipboardPending w = 0 \<or>
      renderTestPending w = 0 \<and> clipboardPending w = 0)"

definition proto_inv :: "'e worker \<Rightarrow> bool" where
  "proto_inv w \<longleftrightarrow>
     one_request w \<and> (requests_pending w \<longrightarrow> phase w = Io_phase \<or> phase w = Ended) \<and>
     (io w \<noteq> No_wait \<longleftrightarrow> phase w = Io_phase) \<and>
     (phase w = Pump_wait \<or> phase w = Io_phase \<longrightarrow> engineReady w) \<and> (engineReady w \<longrightarrow> instantiated w)"

lemmas proto_defs = proto_inv_def one_request_def requests_pending_def

interpretation proto: message_frame proto_inv
  by unfold_locales (auto simp: proto_defs)

text \<open>The state between a resumption and the next \<open>await\<close>, without and with a request just made.\<close>

definition at_rest :: "'e worker \<Rightarrow> bool" where
  "at_rest w \<longleftrightarrow> \<not> requests_pending w \<and> io w = No_wait \<and> instantiated w"

definition asked :: "'e worker \<Rightarrow> bool" where
  "asked w \<longleftrightarrow> one_request w \<and> io w = No_wait \<and> instantiated w"

definition ready_rest :: "'e worker \<Rightarrow> bool" where
  "ready_rest w \<longleftrightarrow> at_rest w \<and> engineReady w"

definition ready_asked :: "'e worker \<Rightarrow> bool" where
  "ready_asked w \<longleftrightarrow> asked w \<and> engineReady w"

lemmas rest_defs = at_rest_def asked_def ready_rest_def ready_asked_def requests_pending_def one_request_def

interpretation rest: control_frame at_rest
  by unfold_locales (auto simp: rest_defs)

interpretation ready: control_frame ready_rest
  by unfold_locales (auto simp: rest_defs)

interpretation asked: worker_frame asked
  by unfold_locales (auto simp: rest_defs)

interpretation ready_asked: worker_frame ready_asked
  by unfold_locales (auto simp: rest_defs)

lemma ready_rest_asked: "ready_rest w \<Longrightarrow> ready_asked w"
  by (simp add: rest_defs)

lemma prefix_bnd:
  "keeps P m \<Longrightarrow> (\<And>w. P w \<Longrightarrow> R w) \<Longrightarrow> (\<And>v. triple P (f v) Q R) \<Longrightarrow> triple P (bnd m f) Q R"
  by (rule triple_bnd [where Q = "\<lambda>_. P"]) (rule triple_conseq)

lemma prefix_thn: "keeps P m \<Longrightarrow> (\<And>w. P w \<Longrightarrow> R w) \<Longrightarrow> triple P n Q R \<Longrightarrow> triple P (thn m n) Q R"
  unfolding thn_def by (rule prefix_bnd)

lemma ask_request:
  "triple ready_rest (bnd next_sequence (\<lambda>i. thn (modify (\<lambda>w. w\<lparr>guestSuitePending := i\<rparr>)) (postMessage (p i))))
     (\<lambda>_. ready_asked) ready_asked"
  "triple ready_rest (bnd next_sequence (\<lambda>i. thn (modify (\<lambda>w. w\<lparr>renderTestPending := i\<rparr>)) (postMessage (p i))))
     (\<lambda>_. ready_asked) ready_asked"
  "triple ready_rest (bnd next_sequence (\<lambda>i. thn (modify (\<lambda>w. w\<lparr>clipboardPending := i\<rparr>)) (postMessage (p i))))
     (\<lambda>_. ready_asked) ready_asked"
  by (simp_all add: triple_def next_sequence_def bnd_def thn_def modify_def postMessage_def rest_defs)

lemma rest_keeps_asked: "keeps ready_rest m \<Longrightarrow> triple ready_rest m (\<lambda>_. ready_asked) ready_asked"
  by (erule triple_conseq) (simp_all add: ready_rest_asked)

lemma dispatch_io_asks: "triple ready_rest (dispatch_io E k p) (\<lambda>_. ready_asked) ready_asked"
proof -
  have "keeps ready_rest (bnd (host_io_data E) (\<lambda>bytes. thn (postMessage (Post_download p bytes))
      (thn (invoke E ''waste_wast_host_io_complete'' []) (modify (\<lambda>w. w\<lparr>ioPending := True\<rparr>)))))"
    by (intro stm triple_modify) (simp_all add: ready.pending_frame)
  moreover have "keeps ready_rest (postMessage (Post_upload_request p))" by (intro stm) simp
  moreover have "keeps ready_rest (ret ())" by (intro stm)
  moreover note download = calculation
  have data: "triple ready_rest (bnd (host_io_data E) f) (\<lambda>_. ready_asked) ready_asked"
    if "\<And>bs. triple ready_rest (f bs) (\<lambda>_. ready_asked) ready_asked" for f :: "nat list \<Rightarrow> ('a, unit) stmt"
    by (rule prefix_bnd [OF ready.keeps_host_io_data ready_rest_asked that])
  show ?thesis
    unfolding dispatch_io_def
    by (intro keeps_if data ask_request rest_keeps_asked download)
qed

lemma host_io_asks: "triple ready_rest (host_io E) (\<lambda>_. ready_asked) ready_asked"
  unfolding host_io_def by (intro prefix_bnd dispatch_io_asks ready.keeps_invoke ready.keeps_invoke_opt
      ready.keeps_fetch ready.keeps_decode_text ready_rest_asked)

lemma waitForIO_proto:
  "triple ready_asked (thn (modify (\<lambda>w. w\<lparr>phase := Io_phase\<rparr>)) (waitForIO t)) (\<lambda>_. proto_inv) R"
  by (auto simp: triple_def thn_def bnd_def modify_def waitForIO_def rest_defs proto_defs)

lemma end_run_proto: "triple asked (end_run E) (\<lambda>_. proto_inv) asked"
  unfolding end_run_def
proof (intro prefix_thn stm)
  show "keeps asked (cleanup E)"
    unfolding cleanup_def by (intro stm triple_modify) (simp add: rest_defs)
  show "triple asked (modify (\<lambda>w. w\<lparr>phase := Ended\<rparr>)) (\<lambda>_. proto_inv) asked"
    by (rule triple_modify) (simp add: rest_defs proto_defs)
qed

lemma loop_head_proto: "triple ready_rest (loop_head E y) (\<lambda>_. proto_inv) asked"
proof (cases "y = 0")
  case True
  then show ?thesis
    by (auto simp: loop_head_def rest_defs intro: triple_conseq [OF end_run_proto])
next
  case False
  have pump: "triple ready_rest (modify (\<lambda>w. w\<lparr>phase := Pump_wait\<rparr>)) (\<lambda>_. proto_inv) asked"
    by (rule triple_modify) (simp add: rest_defs proto_defs)
  have "triple ready_rest (host_io E) (\<lambda>_. ready_asked) asked"
    by (rule triple_conseq [OF host_io_asks]) (simp_all add: ready_asked_def)
  then have host: "triple ready_rest (whenw b (host_io E)) (\<lambda>_. ready_asked) asked" for b
    by (cases b) (simp_all add: whenw_def triple_ret ready_rest_asked)
  have wait: "triple ready_asked (bnd (wait_timeout E k) (\<lambda>t.
      thn (modify (\<lambda>w. w\<lparr>phase := Io_phase\<rparr>)) (waitForIO t))) (\<lambda>_. proto_inv) asked" for k
    by (intro prefix_bnd waitForIO_proto ready_asked.keeps_wait_timeout) (simp add: ready_asked_def)
  have asked: "ready_rest w \<Longrightarrow> asked w" for w by (simp add: rest_defs)
  show ?thesis
    unfolding loop_head_def if_not_P [OF False]
    by (intro prefix_bnd keeps_if pump asked triple_thn [OF host wait] stm)
qed

lemma settle_proto:
  assumes "triple P m (\<lambda>_. proto_inv) asked" and "P w"
  shows "proto_inv (snd (settle m w))"
proof -
  have ended: "asked v \<Longrightarrow> proto_inv (v\<lparr>phase := Ended, posts := posts v @ [Post_failed e]\<rparr>)" for v :: "'a worker" and e
    by (simp add: rest_defs proto_defs)
  from assms have "case m w of (Inl e, w1) \<Rightarrow> asked w1 | (Inr v, w1) \<Rightarrow> proto_inv w1"
    by (simp add: triple_def)
  with ended show ?thesis by (auto simp: settle_def split: prod.splits sum.splits)
qed

lemma guarded_proto:
  assumes "triple P m (\<lambda>_. proto_inv) asked"
  shows "triple P (guarded E m) (\<lambda>_. proto_inv) asked"
proof (rule tripleI)
  fix w assume "P w"
  with assms have m: "case m w of (Inl e, w1) \<Rightarrow> asked w1 | (Inr v, w1) \<Rightarrow> proto_inv w1" by (simp add: triple_def)
  have "keeps asked (cleanup E)"
    unfolding cleanup_def by (intro stm triple_modify) (simp add: rest_defs)
  then have fin: "triple asked (bnd (cleanup E) (\<lambda>_. throw e :: (_, unit) stmt)) (\<lambda>_. proto_inv) asked" for e :: js_error
    by (intro prefix_bnd) (simp_all add: triple_throw)
  have "asked v \<Longrightarrow> case bnd (cleanup E) (\<lambda>_. throw e) v of (Inl e, w1) \<Rightarrow> asked w1 | (Inr (v :: unit), w1) \<Rightarrow> proto_inv w1"
    for v and e :: js_error
    using fin [of e] by (simp add: triple_def)
  with m show "case guarded E m w of (Inl e, w1) \<Rightarrow> asked w1 | (Inr v, w1) \<Rightarrow> proto_inv w1"
    by (cases "m w"; cases "fst (m w)") (simp_all add: guarded_def)
qed

lemma rest_asked: "ready_rest w \<Longrightarrow> asked w" "at_rest w \<Longrightarrow> asked w"
  by (simp_all add: rest_defs)

lemma end_run_ready: "triple ready_rest (end_run E) (\<lambda>_. proto_inv) asked"
  by (rule triple_conseq [OF end_run_proto]) (simp_all add: rest_asked)

lemma pump_fired_proto: "triple ready_rest (pump_fired E) (\<lambda>_. proto_inv) asked"
proof -
  have ready: "keeps ready_rest (post_wait E Post_io_ready)" by (intro stm) simp
  show ?thesis
    unfolding pump_fired_def
    by (intro prefix_bnd prefix_thn keeps_if end_run_ready loop_head_proto keeps_gets keeps_ret keeps_whenw keeps_bnd
        ready ready.keeps_invoke ready.keeps_flushOutput rest_asked)
qed

lemma io_resumed_proto:
  "triple (\<lambda>w. proto_inv w \<and> phase w = Io_phase) (io_resumed E) (\<lambda>_. proto_inv) asked"
proof -
  let ?woken = "\<lambda>w. ready_asked w \<and> phase w = Io_phase"
  have go: "triple ready_rest (bnd (invoke E ''waste_wast_resume'' []) (\<lambda>y. thn flushOutput
      (thn (whenw (y \<noteq> 0) (post_wait E Post_io_ready)) (loop_head E y)))) (\<lambda>_. proto_inv) asked"
  proof -
    have "keeps ready_rest (whenw (y \<noteq> 0) (post_wait E Post_io_ready))" for y :: int by (intro stm) simp
    then show ?thesis
      by (intro prefix_bnd prefix_thn loop_head_proto ready.keeps_invoke ready.keeps_flushOutput rest_asked)
  qed
  have rewait: "triple ?woken (waitForIO t) (\<lambda>_. proto_inv) asked" for t
    by (auto simp: triple_def modify_def waitForIO_def rest_defs proto_defs)
  have body: "triple (\<lambda>w. ?woken w \<and> (requests_pending w, terminated w, pollMs w) = (b, stop, t))
      (if b \<and> \<not> stop then waitForIO t else if stop then end_run E
       else bnd (invoke E ''waste_wast_resume'' []) (\<lambda>y. thn flushOutput
         (thn (whenw (y \<noteq> 0) (post_wait E Post_io_ready)) (loop_head E y)))) (\<lambda>_. proto_inv) asked" for b stop t
  proof (cases stop)
    case True
    show ?thesis
      using True by (auto intro!: triple_pre [OF end_run_proto] simp: ready_asked_def)
  next
    case False
    then show ?thesis
      by (cases b) (auto intro!: triple_pre [OF rewait] triple_pre [OF go] simp: rest_defs)
  qed
  show ?thesis
    unfolding io_resumed_def
  proof (rule triple_thn [where Q = ?woken])
    show "triple (\<lambda>w. proto_inv w \<and> phase w = Io_phase) (modify (\<lambda>w. w\<lparr>io := No_wait\<rparr>)) (\<lambda>_. ?woken) asked"
      by (rule triple_modify) (simp add: rest_defs proto_defs)
    show "triple ?woken (bnd (gets (\<lambda>w. (requests_pending w, terminated w, pollMs w))) (\<lambda>(b, stop, t).
      if b \<and> \<not> stop then waitForIO t else if stop then end_run E
       else bnd (invoke E ''waste_wast_resume'' []) (\<lambda>y. thn flushOutput
         (thn (whenw (y \<noteq> 0) (post_wait E Post_io_ready)) (loop_head E y))))) (\<lambda>_. proto_inv) asked"
      by (rule triple_bnd_gets) (use body in \<open>auto simp only: split: prod.splits\<close>)
  qed
qed

lemma start_engine_proto: "triple at_rest (start_engine E m script) (\<lambda>_. proto_inv) asked"
proof -
  have vfs: "keeps at_rest (whenw b (postMessage (Post_vfs ps)))" for b ps by (intro stm) simp
  have call: "keeps at_rest (if m_shell m then invoke E ''waste_wast_start_shell'' []
      else invoke E ''waste_wast_run_script'' [fst script, snd script])" by (intro stm)
  have set_ready: "triple at_rest (modify (\<lambda>w. w\<lparr>engineReady := True\<rparr>)) (\<lambda>_. ready_rest) asked"
    by (rule triple_modify) (simp add: rest_defs)
  have started: "keeps ready_rest (post_wait E Post_started)" by (intro stm) simp
  show ?thesis
    unfolding start_engine_def
    by (intro prefix_bnd [OF call] prefix_thn [OF vfs] prefix_thn [OF rest.keeps_flushOutput] triple_thn [OF set_ready]
        prefix_thn [OF ready.keeps_flushPendingEvents] prefix_thn [OF started] loop_head_proto rest_asked)
qed

lemma run_proto:
  assumes "proto_inv w" and "phase w = Instantiating"
  shows "proto_inv (snd (run E clock m w))"
proof -
  let ?P = "\<lambda>w. proto_inv w \<and> phase w = Instantiating"
  let ?set = "\<lambda>s :: int \<times> int. modify (\<lambda>w. w\<lparr>scriptPtr := fst s, limitTimer := limited (m_limits m)\<rparr>)"
  have inst: "triple ?P (modify (\<lambda>w. w\<lparr>instantiated := True, inSuite := (m_suite m \<noteq> None)\<rparr>)) (\<lambda>_. at_rest) asked"
    by (rule triple_modify) (auto simp: rest_defs proto_defs)
  have listing: "triple at_rest (modify (\<lambda>w. w\<lparr>phase := Ended\<rparr>)) (\<lambda>_. proto_inv) asked"
    by (rule triple_modify) (simp add: rest_defs proto_defs)
  have set_script: "keeps at_rest (?set s)" for s
    by (rule triple_modify) (simp add: rest_defs)
  have go: "triple at_rest (thn (?set s) (guarded E (start_engine E m s))) (\<lambda>_. proto_inv) asked" for s
    by (intro prefix_thn [OF set_script] guarded_proto start_engine_proto rest_asked)
  have choose: "triple at_rest (case script of None \<Rightarrow> modify (\<lambda>w. w\<lparr>phase := Ended\<rparr>)
      | Some s \<Rightarrow> thn (?set s) (guarded E (start_engine E m s))) (\<lambda>_. proto_inv) asked" for script
    using listing go by (cases script) simp_all
  show ?thesis
    unfolding run_def
    by (rule settle_proto [where P = ?P, OF _ conjI [OF assms]])
      (intro triple_thn [OF inst] prefix_thn [OF rest.keeps_apply_clocks] prefix_thn [OF rest.keeps_enable_terminal]
        prefix_thn [OF rest.keeps_stage_all] prefix_thn [OF rest.keeps_set_limits] prefix_thn [OF rest.keeps_set_pump]
        prefix_bnd [OF rest.keeps_prepare_script] choose rest_asked(2))
qed

lemma step_proto: "worker_step E clock m w w' \<Longrightarrow> proto_inv w \<Longrightarrow> proto_inv w'"
proof (induction rule: worker_step.induct)
  case (pump w)
  then have "ready_rest w" by (auto simp: rest_defs proto_defs)
  then show ?case
    unfolding resume_run_def by (rule settle_proto [OF guarded_proto [OF pump_fired_proto]])
next
  case (resume w)
  then have "proto_inv w \<and> phase w = Io_phase" by simp
  then show ?case
    unfolding resume_run_def by (rule settle_proto [OF guarded_proto [OF io_resumed_proto]])
next
  case (start w)
  then show ?case by (auto simp: proto_defs)
qed (auto intro: run_proto keepsD [OF proto.keeps_onmessage] keepsD [OF proto.keeps_wakeIO] keepsD [OF proto.keeps_wake_waiter])

lemma reachable_proto: "(worker_step E clock m)\<^sup>*\<^sup>* (new_worker e) w \<Longrightarrow> proto_inv w"
proof (induction rule: rtranclp_induct)
  case base
  show ?case by (simp add: new_worker_def proto_defs)
qed (rule step_proto)

subsection \<open>A small engine\<close>

text \<open>
  An engine that waits for the host: after every resumption it asks for host I/O of kind \<open>k\<close>, with an
  empty path and no data. It serves to run the definitions on a concrete input.
\<close>

definition sample_engine :: "int \<Rightarrow> unit engine" where
  "sample_engine k =
     \<lparr>invoke_export = (\<lambda>name args e.
        (if name = ''waste_wast_alloc'' then (if hd args \<le> 56 then 8 else 0)
         else if name = ''waste_wast_start_shell'' \<or> name = ''waste_wast_resume'' then 1
         else if name = ''waste_wast_wait_kind'' then 5
         else if name = ''waste_wast_host_io_kind'' then k else 0, (), [])),
      exports = (\<lambda>name. name = ''waste_wast_set_pump_quantum_ms''),
      memory_size = (\<lambda>e. 64), memory_read = (\<lambda>p n e. replicate n 0), memory_write = (\<lambda>p bs e. e)\<rparr>"

definition sample_start :: start_message where
  "sample_start = \<lparr>m_source = [], m_probe = None, m_packaged = [], m_buildMtime = None, m_vfs = None, m_vfsPaths = [],
     m_limits = None, m_suite = None, m_shell = True\<rparr>"

definition sample_booted :: "int \<Rightarrow> unit worker" where
  "sample_booted k = snd (run (sample_engine k) (\<lambda>_. 0) sample_start
     (snd (onmessage (sample_engine k) (Msg_input [104, 105]) (new_worker ()\<lparr>phase := Instantiating\<rparr>))))"

lemma sample_reachable:
  "(worker_step (sample_engine k) (\<lambda>_. 0) sample_start)\<^sup>*\<^sup>* (new_worker ()) (sample_booted k)"
proof -
  let ?S = "worker_step (sample_engine k) (\<lambda>_. 0) sample_start"
  let ?a = "new_worker ()\<lparr>phase := Instantiating\<rparr>" and ?m = "onmessage (sample_engine k) (Msg_input [104, 105])"
  have "?S (new_worker ()) ?a"
    using worker_step.start [of "new_worker ()"] by (simp add: new_worker_def)
  moreover have "?S ?a (snd (?m ?a))"
    by (rule worker_step.message) (simp add: new_worker_def)
  moreover have "?S (snd (?m ?a)) (sample_booted k)"
    unfolding sample_booted_def
    by (rule worker_step.instantiate)
      (simp add: new_worker_def onmessage_def on_input_def bnd_def gets_def modify_def)
  ultimately show ?thesis by (meson rtranclp.rtrancl_into_rtrancl rtranclp.rtrancl_refl)
qed

definition sample_waiting :: "int \<Rightarrow> unit worker" where
  "sample_waiting k = snd (resume_run (sample_engine k) (io_resumed (sample_engine k)) (sample_booted k))"

lemma sample_waiting_reachable:
  assumes "phase (sample_booted k) = Io_phase" and "io (sample_booted k) = Resolved"
  shows "(worker_step (sample_engine k) (\<lambda>_. 0) sample_start)\<^sup>*\<^sup>* (new_worker ()) (sample_waiting k)"
  using sample_reachable [of k] worker_step.resume [OF assms] unfolding sample_waiting_def
  by (rule rtranclp.rtrancl_into_rtrancl)

lemma sample_states:
  "phase (sample_booted 3) = Io_phase" "io (sample_booted 3) = Resolved"
  "io (sample_waiting 3) = Registered" "guestSuitePending (sample_waiting 3) = 1"
  "terminated (sample_waiting 3) = False"
  by code_simp+

subsection \<open>Theorems\<close>



text \<open>
  C1. The requests of the worker to the page carry the ids 1, 2, 3, ... in the order they are posted, at
  most one of the guest-suite, render-test and clipboard requests is outstanding, it is one that
  was posted, and unless the run has ended it is outstanding only while the run waits.
\<close>

theorem worker_requests_fresh:
  assumes "(worker_step E clock m)\<^sup>*\<^sup>* (new_worker e) w"
  shows "request_ids (posts w) = [1..<Suc (guestSuiteSequence w)] \<and>
         length (filter (\<lambda>i. i \<noteq> 0) [guestSuitePending w, renderTestPending w, clipboardPending w]) \<le> 1 \<and>
         {guestSuitePending w, renderTestPending w, clipboardPending w} \<subseteq> {0} \<union> set (request_ids (posts w)) \<and>
         (requests_pending w \<and> phase w \<noteq> Ended \<longrightarrow> io w \<noteq> No_wait)"
proof -
  have "ids_inv (new_worker e)" by (simp add: ids_inv_def new_worker_def request_ids_def List.map_filter_def)
  from ids.reachable_keeps [OF assms this] have "request_ids (posts w) = [1..<Suc (guestSuiteSequence w)]"
    by (simp add: ids_inv_def)
  moreover have inv: "proto_inv w" by (rule reachable_proto [OF assms])
  then have "one_request w" and "requests_pending w \<and> phase w \<noteq> Ended \<longrightarrow> io w \<noteq> No_wait"
    by (auto simp: proto_inv_def)
  moreover from \<open>one_request w\<close>
  have "length (filter (\<lambda>i. i \<noteq> 0) [guestSuitePending w, renderTestPending w, clipboardPending w]) \<le> 1"
    by (auto simp: one_request_def)
  moreover from \<open>one_request w\<close>
  have "{guestSuitePending w, renderTestPending w, clipboardPending w} \<subseteq> {0} \<union> {1..guestSuiteSequence w}"
    by (auto simp: one_request_def)
  moreover have "set [1..<Suc (guestSuiteSequence w)] = {1..guestSuiteSequence w}" by auto
  ultimately show ?thesis by simp
qed

theorem worker_requests_fresh_witness:
  "(worker_step (sample_engine 3) (\<lambda>_. 0) sample_start)\<^sup>*\<^sup>* (new_worker ()) (sample_waiting 3) \<and>
   requests_pending (sample_waiting 3) \<and> io (sample_waiting 3) \<noteq> No_wait \<and>
   request_ids (posts (sample_waiting 3)) = [1..<Suc (guestSuiteSequence (sample_waiting 3))]"
  using worker_requests_fresh [OF sample_waiting_reachable [OF sample_states(1,2)]]
    sample_waiting_reachable [OF sample_states(1,2)] sample_states(3,4)
  by (simp add: requests_pending_def)

end
