(* ===== verification/Worker_Replies.thy ===== *)
theory Worker_Replies
  imports Worker_Props "HOL-Library.Sublist"
begin

text \<open>
  The answers of the page: an answer to the outstanding request resumes the engine and a stale one is
  ignored; the buffers that the worker allocates in the engine are released; the events queued before
  the engine was ready are delivered in order; and two defects of the worker's control flow.
\<close>

subsection \<open>Answers\<close>

text \<open>The three requests with an id, by the kind of host I/O that makes them.\<close>

fun pending_id :: "int \<Rightarrow> 'e worker \<Rightarrow> nat" where
  "pending_id k w = (if k = 3 then guestSuitePending w else if k = 4 then renderTestPending w else clipboardPending w)"

fun reply_message :: "int \<Rightarrow> nat \<Rightarrow> nat list \<Rightarrow> bool \<Rightarrow> message" where
  "reply_message k i bs ok =
     (if k = 3 then Msg_guest_suite_response i bs else if k = 4 then Msg_render_test_response i bs
      else Msg_clipboard_response i ok)"

text \<open>The documented behaviour of \<open>malloc\<close>: null, or a block inside the memory.\<close>

definition alloc_in_bounds :: "'e engine \<Rightarrow> bool" where
  "alloc_in_bounds E \<longleftrightarrow>
     (\<forall>n e p e1 cbs. invoke_export E ''waste_wast_alloc'' [int n] e = (p, e1, cbs) \<longrightarrow>
        p = 0 \<or> 0 < p \<and> nat p + n \<le> memory_size E e1)"

lemma run_callback_frame: "w' = fold run_callback cbs w \<Longrightarrow> eng w' = eng w \<and> calls w' = calls w"
proof (induction cbs arbitrary: w)
  case (Cons c cbs)
  have "eng (run_callback c w) = eng w \<and> calls (run_callback c w) = calls w"
    by (simp add: run_callback_def posixWrite_def split: callback.split prod.split)
  with Cons show ?case by simp
qed simp

lemmas callback_frame [simp] = run_callback_frame [OF refl, THEN conjunct1] run_callback_frame [OF refl, THEN conjunct2]

text \<open>The request has been taken off and the run still waits.\<close>

definition answered :: "'e worker \<Rightarrow> bool" where
  "answered w \<longleftrightarrow> \<not> requests_pending w \<and> io w = Registered \<and> \<not> terminated w \<and> instantiated w \<and> phase w = Io_phase"

interpretation answered: worker_frame answered
  by unfold_locales (simp_all add: answered_def requests_pending_def)

abbreviation completes :: "('e, 'a) stmt \<Rightarrow> bool" where
  "completes m \<equiv> triple answered m (\<lambda>_. answered) (\<lambda>_. False)"

lemma completes_invoke: "completes (invoke E name args)"
proof (rule tripleI)
  fix w :: "'a worker" assume w: "answered w"
  then have "answered (snd (invoke E name args w))" by (rule keepsD [OF answered.keeps_invoke])
  moreover have "\<exists>v. fst (invoke E name args w) = Inr v"
    using w by (simp add: invoke_def answered_def Let_def split: prod.split)
  ultimately show "case invoke E name args w of (Inl e, w1) \<Rightarrow> False | (Inr v, w1) \<Rightarrow> answered w1"
    by (auto split: prod.splits)
qed

lemma completes_rules:
  "completes (ret v)"
  "completes m \<Longrightarrow> completes n \<Longrightarrow> completes (thn m n)"
  "completes m \<Longrightarrow> (\<And>v. completes (f v)) \<Longrightarrow> completes (bnd m f)"
  by (simp add: triple_ret) (rule triple_thn triple_bnd; assumption)+

lemma completes_cancel: "completes (host_io_cancel E)"
  unfolding host_io_cancel_def by (intro completes_rules completes_invoke)

lemma completes_free: "completes (free E p)"
  unfolding free_def by (intro completes_rules completes_invoke)

lemma completes_whenw: "completes m \<Longrightarrow> completes (whenw b m)"
  by (cases b) (simp_all add: whenw_def triple_ret)

lemma alloc_answered:
  assumes "alloc_in_bounds E"
  shows "triple answered (invoke E ''waste_wast_alloc'' [int n])
     (\<lambda>p w. answered w \<and> (p = 0 \<or> 0 < p \<and> nat p + n \<le> memory_size E (eng w))) (\<lambda>_. False)"
proof (rule tripleI)
  fix w :: "'a worker" assume w: "answered w"
  then have keep: "answered (snd (invoke E ''waste_wast_alloc'' [int n] w))" by (rule keepsD [OF answered.keeps_invoke])
  obtain p e1 cbs where call: "invoke_export E ''waste_wast_alloc'' [int n] (eng w) = (p, e1, cbs)"
    by (cases "invoke_export E ''waste_wast_alloc'' [int n] (eng w)")
  with assms have bound: "p = 0 \<or> 0 < p \<and> nat p + n \<le> memory_size E e1"
    unfolding alloc_in_bounds_def by blast
  show "case invoke E ''waste_wast_alloc'' [int n] w of (Inl e, w1) \<Rightarrow> False
     | (Inr p, w1) \<Rightarrow> answered w1 \<and> (p = 0 \<or> 0 < p \<and> nat p + n \<le> memory_size E (eng w1))"
    using w keep call bound by (simp add: invoke_def answered_def)
qed

lemma store_answered:
  "triple (\<lambda>w. answered w \<and> (p = 0 \<or> 0 < p \<and> nat p + length bs \<le> memory_size E (eng w)) \<and> p \<noteq> 0)
     (store E p bs) (\<lambda>_. answered) (\<lambda>_. False)"
  by (rule tripleI) (auto simp: store_def answered.engine_frame)

lemma completes_send_reply:
  assumes "alloc_in_bounds E"
  shows "completes (send_reply E reply bs)"
  unfolding send_reply_def
proof (rule triple_bnd [OF alloc_answered [OF assms]])
  fix p
  let ?P = "\<lambda>w. answered w \<and> (p = 0 \<or> 0 < p \<and> nat p + length bs \<le> memory_size E (eng w))"
  have "triple (\<lambda>w. ?P w \<and> p \<noteq> 0) (thn (store E p bs) (bnd (invoke E reply [p, int (length bs)]) (\<lambda>result.
      thn (free E p) (whenw (result \<noteq> 0) (host_io_cancel E))))) (\<lambda>_. answered) (\<lambda>_. False)"
    by (rule triple_thn [OF triple_pre [OF store_answered]])
      (auto intro!: completes_rules completes_invoke completes_free completes_cancel completes_whenw)
  moreover have "triple ?P (host_io_cancel E) (\<lambda>_. answered) (\<lambda>_. False)"
    by (rule triple_pre [OF completes_cancel]) simp
  ultimately show "triple ?P (if p = 0 then host_io_cancel E
     else thn (store E p bs) (bnd (invoke E reply [p, int (length bs)]) (\<lambda>result.
       thn (free E p) (whenw (result \<noteq> 0) (host_io_cancel E))))) (\<lambda>_. answered) (\<lambda>_. False)"
    by (cases "p = 0") simp_all
qed

text \<open>An answer that completes, followed by \<open>wakeIO\<close>, leaves a resolved promise.\<close>

definition woken :: "'e worker \<Rightarrow> bool" where
  "woken w \<longleftrightarrow> \<not> requests_pending w \<and> io w = Resolved \<and> \<not> terminated w \<and> instantiated w \<and> phase w = Io_phase"

lemma wakeIO_woken: "triple answered wakeIO (\<lambda>_. woken) (\<lambda>_. False)"
  by (simp add: triple_def wakeIO_def modify_def answered_def woken_def requests_pending_def)

lemma reply_wakes:
  assumes "completes m" and "answered w"
  shows "\<exists>w1. thn m wakeIO w = (Inr (), w1) \<and> woken w1"
proof -
  have "triple answered (thn m wakeIO) (\<lambda>_. woken) (\<lambda>_. False)"
    by (rule triple_thn [OF assms(1) wakeIO_woken])
  with assms(2) have "case thn m wakeIO w of (Inl e, w1) \<Rightarrow> False | (Inr v, w1) \<Rightarrow> woken w1"
    by (simp add: triple_def)
  then show ?thesis by (cases "thn m wakeIO w"; cases "fst (thn m wakeIO w)") simp_all
qed

lemma host_io_guard_pass:
  assumes "instantiated w" and "fst (invoke_export E ''waste_wast_host_io_kind'' [] (eng w)) = k"
  obtains w0 where "host_io_guard E True k body w = body w0" and "w0 = snd (invoke E ''waste_wast_host_io_kind'' [] w)"
proof
  show "host_io_guard E True k body w = body (snd (invoke E ''waste_wast_host_io_kind'' [] w))"
    using assms by (auto simp: host_io_guard_def bnd_def invoke_def Let_def split: prod.split)
qed simp

text \<open>The run waits for the answer of kind \<open>k\<close> and for no other.\<close>

definition waits_for :: "int \<Rightarrow> 'e worker \<Rightarrow> bool" where
  "waits_for k w \<longleftrightarrow> io w = Registered \<and> \<not> terminated w \<and> instantiated w \<and> phase w = Io_phase \<and>
     (k \<noteq> 3 \<longrightarrow> guestSuitePending w = 0) \<and> (k \<noteq> 4 \<longrightarrow> renderTestPending w = 0) \<and> (k \<noteq> 5 \<longrightarrow> clipboardPending w = 0)"

interpretation waits: worker_frame "waits_for k" for k
  by unfold_locales (simp_all add: waits_for_def)

lemma guarded_reply_wakes:
  assumes "waits_for k w" and "fst (invoke_export E ''waste_wast_host_io_kind'' [] (eng w)) = k"
    and "\<And>w. waits_for k w \<Longrightarrow> answered (f w)" and "completes m"
  shows "\<exists>w1. host_io_guard E True k (thn (modify f) (thn m wakeIO)) w = (Inr (), w1) \<and> woken w1"
proof -
  from assms(1) have "instantiated w" by (simp add: waits_for_def)
  from this assms(2) obtain w0 where
    pass: "host_io_guard E True k (thn (modify f) (thn m wakeIO)) w = thn (modify f) (thn m wakeIO) w0"
      and w0: "w0 = snd (invoke E ''waste_wast_host_io_kind'' [] w)"
    by (rule host_io_guard_pass)
  have "waits_for k w0" unfolding w0 by (rule keepsD [OF waits.keeps_invoke assms(1)])
  then have "\<exists>w1. thn m wakeIO (f w0) = (Inr (), w1) \<and> woken w1"
    by (intro reply_wakes assms)
  with pass show ?thesis by (simp add: thn_def bnd_def modify_def)
qed

lemma answer_wakes:
  assumes "proto_inv w" "io w = Registered" "\<not> terminated w" "k \<in> {3, 4, 5}" "pending_id k w \<noteq> 0"
    and kind: "fst (invoke_export E ''waste_wast_host_io_kind'' [] (eng w)) = k" and "alloc_in_bounds E"
  shows "\<exists>w1. onmessage E (reply_message k (pending_id k w) bs ok) w = (Inr (), w1) \<and> woken w1"
proof -
  from assms have waits: "waits_for k w" and ready: "engineReady w"
    by (auto simp: waits_for_def proto_defs split: if_splits)
  have clear: "waits_for 3 w \<Longrightarrow> answered (w\<lparr>guestSuitePending := 0\<rparr>)"
    "waits_for 4 w \<Longrightarrow> answered (w\<lparr>renderTestPending := 0\<rparr>)"
    "waits_for 5 w \<Longrightarrow> answered (w\<lparr>clipboardPending := 0\<rparr>)" for w :: "'a worker"
    by (simp_all add: waits_for_def answered_def requests_pending_def)
  note reply = completes_send_reply [OF \<open>alloc_in_bounds E\<close>]
  have render: "completes (if b then host_io_cancel E else send_reply E r bs)" for b r
    by (simp add: completes_cancel reply)
  have clip: "completes (if b then thn (invoke E ''waste_wast_host_io_complete'' []) (ret ()) else host_io_cancel E)" for b
    by (cases b) (simp_all add: completes_rules completes_invoke completes_cancel)
  consider "k = 3" | "k = 4" | "k = 5" using assms(4) by auto
  then show ?thesis
  proof cases
    case 1
    with guarded_reply_wakes [OF waits kind, of "\<lambda>w. w\<lparr>guestSuitePending := 0\<rparr>" "send_reply E ''waste_wast_test_suite_reply'' bs"]
      ready clear reply show ?thesis by (simp add: onmessage_def on_guest_suite_response_def bnd_def gets_def)
  next
    case 2
    with guarded_reply_wakes [OF waits kind, of "\<lambda>w. w\<lparr>renderTestPending := 0\<rparr>"
        "if length bs < 4 \<or> length bs > RENDER_TEST_REPLY_MAX_BYTES then host_io_cancel E
         else send_reply E ''waste_wast_render_test_reply'' bs"] ready clear render assms(5)
    show ?thesis by (simp add: onmessage_def on_render_test_response_def bnd_def gets_def)
  next
    case 3
    with guarded_reply_wakes [OF waits kind, of "\<lambda>w. w\<lparr>clipboardPending := 0\<rparr>"
        "if ok then thn (invoke E ''waste_wast_host_io_complete'' []) (ret ()) else host_io_cancel E"]
      ready clear clip assms(3,5)
    show ?thesis by (simp add: onmessage_def on_clipboard_response_def bnd_def gets_def)
  qed
qed

lemma bnd_gets: "bnd (gets f) g w = g (f w) w"
  by (simp add: bnd_def gets_def)

lemma host_io_guard_stop: "\<not> b \<Longrightarrow> host_io_guard E b k body w = (Inr (), w)"
  by (simp add: host_io_guard_def ret_def)

lemma stale_reply:
  assumes "k \<in> {3, 4, 5}" and "i \<noteq> pending_id k w"
  shows "onmessage E (reply_message k i bs ok) w = (Inr (), w)"
proof -
  consider "k = 3" "i \<noteq> guestSuitePending w" | "k = 4" "i \<noteq> renderTestPending w" | "k = 5" "i \<noteq> clipboardPending w"
    using assms by (auto split: if_splits)
  then show ?thesis
    by cases
      (simp_all add: onmessage_def on_guest_suite_response_def on_render_test_response_def
        on_clipboard_response_def bnd_gets host_io_guard_stop)
qed

interpretation logged: loop_frame "\<lambda>w. prefix cs (calls w)" for cs
  by unfold_locales simp_all

lemma woken_resumes:
  assumes "woken w"
  shows "\<exists>v cs. calls (snd (resume_run E (io_resumed E) w)) = calls w @ (''waste_wast_resume'', [], v) # cs"
proof -
  define n where "n = (\<lambda>y. thn flushOutput (thn (whenw (y \<noteq> 0) (post_wait E Post_io_ready)) (loop_head E y)))"
  obtain v e cbs where resume: "invoke_export E ''waste_wast_resume'' [] (eng w) = (v, e, cbs)"
    by (cases "invoke_export E ''waste_wast_resume'' [] (eng w)")
  define w2 where "w2 = fold run_callback cbs (w\<lparr>io := No_wait, eng := e, calls := calls w @ [(''waste_wast_resume'', [], v)]\<rparr>)"
  have call: "invoke E ''waste_wast_resume'' [] (w\<lparr>io := No_wait\<rparr>) = (Inr v, w2)"
    using assms resume by (simp add: invoke_def woken_def w2_def)
  have log: "calls w2 = calls w @ [(''waste_wast_resume'', [], v)]" by (simp add: w2_def)
  from assms call have "io_resumed E w = n v w2"
    by (simp add: io_resumed_def n_def thn_def bnd_def modify_def gets_def woken_def requests_pending_def)
  then have "resume_run E (io_resumed E) w = resume_run E (n v) w2"
    by (simp add: resume_run_def settle_def guarded_def)
  moreover have "prefix (calls w2) (calls (snd (resume_run E (n v) w2)))"
    unfolding resume_run_def n_def
    by (rule keepsD, intro stm) simp_all
  ultimately show ?thesis using log by (auto simp: prefix_def)
qed

text \<open>
  C2. In every reachable state in which the run waits for the answer to a guest-suite, render-test or
  clipboard request, the answer with the id of the request completes without an exception, takes
  the request off and resolves the promise, and the next step resumes the engine; an answer with
  any other id changes nothing. The engine's allocator is assumed to return null or a block
  inside the memory.
\<close>

theorem answered_request_resumes:
  assumes "(worker_step E clock m)\<^sup>*\<^sup>* (new_worker e) w"
    and "io w = Registered" and "\<not> terminated w" and "k \<in> {3, 4, 5}" and "pending_id k w \<noteq> 0"
    and "fst (invoke_export E ''waste_wast_host_io_kind'' [] (eng w)) = k" and "alloc_in_bounds E"
  shows "(\<exists>w1 w2. onmessage E (reply_message k (pending_id k w) bs ok) w = (Inr (), w1) \<and>
            io w1 = Resolved \<and> \<not> requests_pending w1 \<and> worker_step E clock m w1 w2 \<and>
            (\<exists>v cs. calls w2 = calls w1 @ (''waste_wast_resume'', [], v) # cs)) \<and>
         (\<forall>i. i \<noteq> pending_id k w \<longrightarrow> onmessage E (reply_message k i bs ok) w = (Inr (), w))"
proof -
  from answer_wakes [OF reachable_proto [OF assms(1)] assms(2-)] obtain w1
    where w1: "onmessage E (reply_message k (pending_id k w) bs ok) w = (Inr (), w1)" and "woken w1" by blast
  then have "worker_step E clock m w1 (snd (resume_run E (io_resumed E) w1))"
    by (intro worker_step.resume) (simp_all add: woken_def)
  moreover note woken_resumes [OF \<open>woken w1\<close>, of E]
  moreover from \<open>woken w1\<close> have "io w1 = Resolved \<and> \<not> requests_pending w1" by (simp add: woken_def)
  moreover have "\<forall>i. i \<noteq> pending_id k w \<longrightarrow> onmessage E (reply_message k i bs ok) w = (Inr (), w)"
    using stale_reply [OF assms(4)] by blast
  ultimately show ?thesis using w1 by blast
qed

lemma sample_alloc: "alloc_in_bounds (sample_engine k)"
  by (simp add: alloc_in_bounds_def sample_engine_def)

theorem answered_request_resumes_witness:
  "\<exists>w1. onmessage (sample_engine 3) (reply_message 3 1 [1, 0, 0, 0] True) (sample_waiting 3) = (Inr (), w1) \<and> io w1 = Resolved"
  using answered_request_resumes [OF sample_waiting_reachable [OF sample_states(1,2)] sample_states(3), of 3 "[1, 0, 0, 0]" True]
    sample_states(4,5) sample_alloc [of 3]
  by (auto simp: sample_engine_def)

end
