(* ===== verification/Worker_Buffers.thy ===== *)
theory Worker_Buffers
  imports Worker_Props
begin

text \<open>
  The buffers that the worker allocates in the engine's memory. \<open>outstanding p\<close> counts, in the log of
  calls, how often the block at \<open>p\<close> was handed out minus how often it was released; the engine releases
  the block of \<open>waste_wast_enqueue_input\<close> itself. Staging and every message leave the counts as they were.
\<close>

definition call_effect :: "int \<Rightarrow> call \<Rightarrow> int" where
  "call_effect p c =
     (case c of (name, args, v) \<Rightarrow>
        if name = ''waste_wast_alloc'' then (if v = p then 1 else 0)
        else if name = ''waste_wast_free'' \<or> name = ''waste_wast_enqueue_input''
             then (if args \<noteq> [] \<and> hd args = p then -1 else 0)
        else 0)"

definition outstanding :: "int \<Rightarrow> call list \<Rightarrow> int" where
  "outstanding p cs = sum_list (map (call_effect p) cs)"

definition bal :: "(int \<Rightarrow> int) \<Rightarrow> 'e worker \<Rightarrow> bool" where
  "bal c w \<longleftrightarrow> (\<forall>p. p \<noteq> 0 \<longrightarrow> outstanding p (calls w) = c p)"

abbreviation settles :: "(int \<Rightarrow> int) \<Rightarrow> ('e, 'a) stmt \<Rightarrow> bool" where
  "settles c m \<equiv> triple (bal c) m (\<lambda>_. bal c) (\<lambda>_. True)"

named_theorems stl

lemma run_callbacks_calls: "calls (fold run_callback cbs w) = calls w"
proof (induction cbs arbitrary: w)
  case (Cons c cbs)
  have "calls (run_callback c w) = calls w"
    by (simp add: run_callback_def posixWrite_def split: callback.split prod.split)
  with Cons show ?case by simp
qed simp

lemma bal_cong: "calls w' = calls w \<Longrightarrow> bal c w' = bal c w"
  by (simp add: bal_def)

lemma bal_eq: "bal c w \<Longrightarrow> (\<And>p. p \<noteq> 0 \<Longrightarrow> c p = d p) \<Longrightarrow> bal d w"
  by (simp add: bal_def)

lemma invoke_effect:
  "triple (bal c) (invoke E name args) (\<lambda>v. bal (\<lambda>p. c p + call_effect p (name, args, v))) (bal c)"
  by (rule tripleI) (auto simp: invoke_def bal_def run_callbacks_calls outstanding_def Let_def split: prod.splits)

lemma keeps_neutral:
  assumes "name \<notin> {''waste_wast_alloc'', ''waste_wast_free'', ''waste_wast_enqueue_input''}"
  shows "keeps (bal c) (invoke E name args)" and "keeps (bal c) (invoke_opt E name args)"
proof -
  show "keeps (bal c) (invoke E name args)"
    by (rule triple_conseq [OF invoke_effect]) (use assms in \<open>simp_all add: call_effect_def\<close>)
  then show "keeps (bal c) (invoke_opt E name args)" by (simp add: triple_def invoke_opt_def)
qed

lemma keeps_bal_prims [stl]:
  "keeps (bal c) (store E p bs)" "keeps (bal c) (fetch E p n)" "keeps (bal c) (postMessage q)"
  "keeps (bal c) wakeIO" "keeps (bal c) wake_waiter" "keeps (bal c) (controlError s)"
  by (simp_all add: triple_def store_def fetch_def postMessage_def modify_def wakeIO_def wake_waiter_def
      controlError_def bal_def outstanding_def call_effect_def)

lemma keeps_bal_modify [stl]: "(\<And>w. calls (f w) = calls w) \<Longrightarrow> keeps (bal c) (modify f)"
  by (rule triple_modify) (simp add: bal_def)

lemma keeps_bal_cancel [stl]: "keeps (bal c) (host_io_cancel E)"
  unfolding host_io_cancel_def by (intro stm keeps_neutral(1)) simp

lemma settlesI: "keeps (bal c) m \<Longrightarrow> settles c m"
  by (erule triple_conseq) simp_all

lemma settles_basic [stl]: "settles c (ret v)" "settles c (throw e)" "settles c (gets f)"
  by (simp_all add: triple_ret triple_throw triple_gets)

lemma settles_thn [stl]: "settles c m \<Longrightarrow> settles c n \<Longrightarrow> settles c (thn m n)"
  by (rule triple_thn)

lemma settles_bnd [stl]: "settles c m \<Longrightarrow> (\<And>v. settles c (g v)) \<Longrightarrow> settles c (bnd m g)"
  by (rule triple_bnd)

lemma settles_whenw [stl]: "(b \<Longrightarrow> settles c m) \<Longrightarrow> settles c (whenw b m)"
  by (simp add: whenw_def triple_ret)

lemma settles_each [stl]: "(\<And>x. settles c (f x)) \<Longrightarrow> settles c (each f xs)"
  by (induction xs) (simp_all add: triple_ret settles_thn)

text \<open>A block that is allocated, used and released.\<close>

lemma alloc_effect:
  "triple (bal c) (invoke E ''waste_wast_alloc'' args) (\<lambda>v. bal (\<lambda>p. c p + (if v = p then 1 else 0))) (\<lambda>_. True)"
  by (rule triple_conseq [OF invoke_effect]) (simp_all add: call_effect_def)

lemma release_effect:
  assumes "name = ''waste_wast_free'' \<or> name = ''waste_wast_enqueue_input''"
  shows "triple (bal (\<lambda>q. c q + (if p = q then 1 else 0))) (invoke E name (p # args)) (\<lambda>_. bal c) (\<lambda>_. True)"
  by (rule triple_conseq [OF invoke_effect]) (use assms in \<open>auto elim!: bal_eq simp: call_effect_def\<close>)

lemma settles_free:
  "triple (bal (\<lambda>q. c q + (if p = q then 1 else 0))) (free E p) (\<lambda>_. bal c) (\<lambda>_. True)"
  unfolding free_def by (rule triple_thn [OF release_effect]) (simp_all add: triple_ret)

lemma settles_free_opt:
  assumes "exports E ''waste_wast_free''"
  shows "triple (bal (\<lambda>q. c q + (if p = q then 1 else 0))) (invoke_opt E ''waste_wast_free'' [p]) (\<lambda>_. bal c) (\<lambda>_. True)"
  using release_effect [of "''waste_wast_free''" c p E "[]"] assms by (simp add: triple_def invoke_opt_def)

text \<open>Allocation, a null test, and a body that releases the block.\<close>

lemma settles_alloc:
  assumes "settles c null"
    and "\<And>p. p \<noteq> 0 \<Longrightarrow> triple (bal (\<lambda>q. c q + (if p = q then 1 else 0))) (body p) (\<lambda>_. bal c) (\<lambda>_. True)"
  shows "settles c (bnd (invoke E ''waste_wast_alloc'' args) (\<lambda>p. if p = 0 then null else body p))"
proof (rule triple_bnd [OF alloc_effect])
  fix p
  show "triple (bal (\<lambda>q. c q + (if p = q then 1 else 0))) (if p = 0 then null else body p) (\<lambda>_. bal c) (\<lambda>_. True)"
  proof (cases "p = 0")
    case True
    show ?thesis unfolding if_P [OF True] by (rule triple_pre [OF assms(1)], erule bal_eq) (simp add: True)
  next
    case False
    then show ?thesis using assms(2) by simp
  qed
qed

lemma settles_staged1 [stl]:
  assumes "exports E ''waste_wast_free''" and "\<And>p c. settles c (f p)"
  shows "settles c (staged1 E bs e f e')"
  unfolding staged1_def
  by (rule settles_alloc)
    (auto intro!: triple_thn [OF settlesI [OF keeps_bal_prims(1)]] triple_bnd [OF assms(2)]
      triple_thn [OF settles_free_opt [OF assms(1)]] stl)

lemma settles_staged2 [stl]:
  assumes free: "exports E ''waste_wast_free''" and call: "\<And>p q c. settles c (f p q)"
  shows "settles c (staged2 E bs bs' e f e')"
  unfolding staged2_def
proof (rule triple_bnd [OF alloc_effect], rule triple_bnd [OF alloc_effect])
  fix p q
  let ?d = "\<lambda>r. c r + (if q = r then 1 else 0)" and ?e = "\<lambda>r. c r + (if p = r then 1 else 0) + (if q = r then 1 else 0)"
  have swap: "bal ?e w = bal (\<lambda>r. ?d r + (if p = r then 1 else 0)) w" for w :: "'a worker"
    by (simp add: bal_def add.commute add.left_commute)
  have "triple (bal (\<lambda>r. ?d r + (if p = r then 1 else 0))) (thn (invoke_opt E ''waste_wast_free'' [p])
      (thn (invoke_opt E ''waste_wast_free'' [q]) (if v \<noteq> 0 then throw e' else ret ()))) (\<lambda>_. bal c) (\<lambda>_. True)" for v :: int
    by (intro triple_thn [OF settles_free_opt [OF free]] keeps_if stl)
  then have "triple (bal ?e) (thn (invoke_opt E ''waste_wast_free'' [p])
      (thn (invoke_opt E ''waste_wast_free'' [q]) (if v \<noteq> 0 then throw e' else ret ()))) (\<lambda>_. bal c) (\<lambda>_. True)" for v :: int
    by (simp only: triple_def swap)
  then show "triple (bal ?e) (if p = 0 \<or> q = 0 then throw e else
      thn (store E p bs) (thn (store E q bs') (bnd (f p q) (\<lambda>r. thn (invoke_opt E ''waste_wast_free'' [p])
        (thn (invoke_opt E ''waste_wast_free'' [q]) (if r \<noteq> 0 then throw e' else ret ())))))) (\<lambda>_. bal c) (\<lambda>_. True)"
    by (intro keeps_if triple_throw triple_thn [OF settlesI [OF keeps_bal_prims(1)]] triple_bnd [OF call]) simp_all
qed

lemma finally_release:
  assumes "keeps P m" "triple P k (\<lambda>_. Q) (\<lambda>_. True)"
  shows "triple P (finallyw m k) (\<lambda>_. Q) (\<lambda>_. True)"
proof (rule tripleI)
  fix w assume "P w"
  with assms(1) have "P (snd (m w))" by (rule keepsD)
  with assms(2) have "case k (snd (m w)) of (Inl e, w1) \<Rightarrow> True | (Inr v, w1) \<Rightarrow> Q w1" by (simp add: triple_def)
  then show "case finallyw m k w of (Inl e, w1) \<Rightarrow> True | (Inr v, w1) \<Rightarrow> Q w1"
    by (cases "fst (m w)"; cases "k (snd (m w))"; cases "fst (k (snd (m w)))") (simp_all add: finallyw_def case_prod_beta)
qed

lemma settles_submit [stl]:
  assumes "\<And>p n c. keeps (bal c) (f p n)"
  shows "settles c (submit E bs f)"
  unfolding submit_def
  by (rule settles_alloc) (auto intro!: finally_release settles_free stm stl assms)

lemma settles_provide_upload: "settles c (provide_upload E bs)"
  unfolding provide_upload_def
proof (rule triple_bnd [OF alloc_effect])
  fix p
  let ?d = "\<lambda>q. c q + (if p = q then 1 else 0)"
  have "keeps (bal ?d) (invoke E ''waste_wast_host_io_provide_upload'' args)" for args
    by (rule keeps_neutral(1)) simp
  then have body: "keeps (bal ?d) (catchw (if p = 0 then host_io_cancel E else thn (store E p bs)
      (bnd (invoke E ''waste_wast_host_io_provide_upload'' [p, int (length bs)]) (\<lambda>v.
        if v \<noteq> 0 then host_io_cancel E else ret ()))) (host_io_cancel E))"
    by (intro stm keeps_bal_cancel keeps_bal_prims)
  have "triple (bal ?d) (if p \<noteq> 0 then free E p else ret ()) (\<lambda>_. bal c) (\<lambda>_. True)"
    by (cases "p = 0") (auto simp: settles_free intro!: triple_ret elim: bal_eq)
  then show "triple (bal ?d) (finallyw (catchw (if p = 0 then host_io_cancel E else thn (store E p bs)
      (bnd (invoke E ''waste_wast_host_io_provide_upload'' [p, int (length bs)]) (\<lambda>v.
        if v \<noteq> 0 then host_io_cancel E else ret ()))) (host_io_cancel E))
      (if p \<noteq> 0 then free E p else ret ())) (\<lambda>_. bal c) (\<lambda>_. True)"
    by (rule finally_release [OF body])
qed

lemma settles_send_reply:
  assumes "reply \<notin> {''waste_wast_alloc'', ''waste_wast_free'', ''waste_wast_enqueue_input''}"
  shows "settles c (send_reply E reply bs)"
  unfolding send_reply_def
  by (rule settles_alloc)
    (auto intro!: triple_thn [OF settlesI [OF keeps_bal_prims(1)]] triple_bnd [OF settlesI [OF keeps_neutral(1) [OF assms]]]
      triple_thn [OF settles_free] settlesI [OF keeps_bal_cancel] settles_whenw)

lemma settles_enqueueInput: "settles c (enqueueInput E bs)"
proof -
  have give: "settles c (bnd (invoke E ''waste_wast_alloc'' [int n]) (\<lambda>p.
      if p = 0 then throw e else thn (store E p rest) (bnd (invoke E ''waste_wast_enqueue_input'' [p, int n]) (\<lambda>_. wakeIO))))"
    for n rest e
    by (rule settles_alloc)
      (auto intro!: triple_thn [OF settlesI [OF keeps_bal_prims(1)]] triple_bnd [OF release_effect]
        settlesI [OF keeps_bal_prims(4)] stl)
  show ?thesis
    unfolding enqueueInput_def Let_def
    by (intro settles_bnd settles_thn keeps_if settles_whenw settlesI [OF keeps_bal_prims(3)] give settles_basic)
qed

subsection \<open>Staging\<close>

lemma settles_neutral:
  "name \<notin> {''waste_wast_alloc'', ''waste_wast_free'', ''waste_wast_enqueue_input''} \<Longrightarrow> settles c (invoke E name args)"
  by (intro settlesI keeps_neutral)

lemma settles_option: "settles c m \<Longrightarrow> (\<And>x. settles c (f x)) \<Longrightarrow> settles c (case v of None \<Rightarrow> m | Some x \<Rightarrow> f x)"
  by (cases v) simp_all

lemma settles_prod: "(\<And>a b. settles c (f a b)) \<Longrightarrow> settles c (case p of (a, b) \<Rightarrow> f a b)"
  by (cases p) simp

lemmas stl_rules = settles_basic settles_thn settles_bnd settles_whenw settles_each settles_option settles_prod keeps_if

lemma settles_stageInstalledVfs: "settles c (stageInstalledVfs E v)"
  unfolding stageInstalledVfs_def
  by (intro stl_rules settles_submit keeps_neutral(1) settles_neutral) simp_all

lemma settles_stageVfsMtime: "settles c (stageVfsMtime E clock s n)"
  unfolding stageVfsMtime_def Let_def split_beta by (intro stl_rules settles_neutral) simp

lemma settles_stageVfsPath:
  assumes free: "exports E ''waste_wast_free''"
  shows "settles c (stageVfsPath E clock p k md n s ns)"
  unfolding stageVfsPath_def Let_def
  by (intro stl_rules settles_staged1 [OF free] settles_stageVfsMtime settles_neutral) simp

lemma settles_stageVfsSymlink:
  assumes free: "exports E ''waste_wast_free''"
  shows "settles c (stageVfsSymlink E clock p t md s ns)"
  unfolding stageVfsSymlink_def Let_def
  by (intro stl_rules settles_staged2 [OF free] settles_stageVfsMtime settles_neutral) simp

lemma settles_stage_file:
  assumes free: "exports E ''waste_wast_free''"
  shows "settles c (stage_file E p bs md e e')"
  unfolding stage_file_def Let_def
  by (intro settles_staged2 [OF free] settles_neutral) simp

lemma settles_stage_packaged:
  assumes free: "exports E ''waste_wast_free''"
  shows "settles c (stage_packaged E clock f)"
  unfolding stage_packaged_def
  by (intro stl_rules settles_stageVfsPath [OF free] settles_stageVfsSymlink [OF free] settles_stage_file [OF free] settles_stageVfsMtime)

lemma settles_stage_probe:
  assumes free: "exports E ''waste_wast_free''"
  shows "settles c (stage_probe E clock m)"
  unfolding stage_probe_def
  by (intro stl_rules settles_stage_file [OF free] settles_stageVfsMtime settles_stageVfsPath [OF free])

lemma settles_stage_all:
  assumes free: "exports E ''waste_wast_free''"
  shows "settles c (stage_all E clock m)"
  unfolding stage_all_def stage_build_mtime_def stage_executable_def stage_directory_def stage_cwd_def
  by (intro stl_rules settles_stageInstalledVfs settles_staged1 [OF free] settles_stageVfsPath [OF free] settles_stage_packaged [OF free]
      settles_stage_probe [OF free] settles_neutral) simp_all

subsection \<open>Messages\<close>

lemma settles_guard: "settles c body \<Longrightarrow> settles c (host_io_guard E b k body)"
  unfolding host_io_guard_def by (intro stl_rules settles_neutral) simp_all

lemma settles_clear: "(\<And>w. calls (f w) = calls w) \<Longrightarrow> settles c (modify f)"
  by (intro settlesI keeps_bal_modify)

lemmas settles_prims = settlesI [OF keeps_bal_prims(3)] settlesI [OF keeps_bal_prims(4)] settlesI [OF keeps_bal_prims(5)]
  settlesI [OF keeps_bal_prims(6)] settlesI [OF keeps_bal_cancel]

lemma settles_invoke_opt:
  "name \<notin> {''waste_wast_alloc'', ''waste_wast_free'', ''waste_wast_enqueue_input''} \<Longrightarrow> settles c (invoke_opt E name args)"
  by (intro settlesI keeps_neutral)

lemma settles_onmessage: "settles c (onmessage E m)"
proof -
  have input: "settles c (on_input E bs)" for bs
    unfolding on_input_def by (intro stl_rules settles_enqueueInput settles_clear) simp
  have sig: "settles c (on_signal E s p g)" for s p g
    unfolding on_signal_def by (intro stl_rules settles_clear settles_prims settles_neutral) simp_all
  have size: "settles c (on_resize E a b)" "settles c (on_advance_clock E a b)" for a b
    unfolding on_resize_def on_advance_clock_def
    by (intro stl_rules settles_clear settles_prims settles_neutral; simp)+
  have clk: "settles c (on_set_clock rl rh ml mh)" for rl rh ml mh
    unfolding on_set_clock_def by (intro stl_rules settles_clear settles_prims) simp
  have reply: "settles c (on_guest_suite_response E i bs)" "settles c (on_render_test_response E i bs)" for i bs
    unfolding on_guest_suite_response_def on_render_test_response_def
    by (intro stl_rules settles_guard settles_clear settles_prims settles_send_reply; simp)+
  have clip: "settles c (on_clipboard_response E i b)" "settles c (on_upload_response E b bs)" for i b bs
    unfolding on_clipboard_response_def on_upload_response_def
    by (intro stl_rules settles_guard settles_clear settles_prims settles_neutral settles_provide_upload; simp)+
  have drop: "settles c drop_guest_suite"
    unfolding drop_guest_suite_def by (intro stl_rules settles_clear settles_prims) simp
  have stop: "settles c (on_cancel E)" "settles c on_stop"
    unfolding on_cancel_def on_stop_def
    by (intro stl_rules drop settles_clear settles_prims settles_invoke_opt; simp)+
  show ?thesis
    by (cases m; simp only: onmessage_def message.case input sig size clk reply clip stop)
qed

text \<open>
  C3. Staging that succeeds and every message whose handler returns leave no buffer behind: for every
  address, the blocks handed out and the blocks released during the operation balance, where the
  engine is known to release the block of \<open>waste_wast_enqueue_input\<close> itself.
\<close>

theorem buffers_released:
  assumes "exports E ''waste_wast_free''" and "p \<noteq> 0"
  shows "(stage_all E clock m w = (Inr (), w1) \<longrightarrow> outstanding p (calls w1) = outstanding p (calls w)) \<and>
         (onmessage E msg w = (Inr (), w2) \<longrightarrow> outstanding p (calls w2) = outstanding p (calls w))"
proof -
  define c where "c = (\<lambda>p. outstanding p (calls w))"
  have start: "bal c w" by (simp add: bal_def c_def)
  have "bal c w1" if "stage_all E clock m w = (Inr (), w1)"
    by (rule tripleD [OF settles_stage_all [OF assms(1)] start that])
  moreover have "bal c w2" if "onmessage E msg w = (Inr (), w2)"
    by (rule tripleD [OF settles_onmessage start that])
  ultimately show ?thesis using assms(2) by (auto simp: bal_def c_def)
qed

theorem buffers_released_witness:
  "\<exists>w2. onmessage (sample_engine 1\<lparr>exports := (\<lambda>_. True)\<rparr>) (Msg_upload_response False [1, 2, 3])
          (new_worker ()\<lparr>instantiated := True, engineReady := True\<rparr>) = (Inr (), w2) \<and>
        (''waste_wast_alloc'', [3], 8) \<in> set (calls w2) \<and> outstanding 8 (calls w2) = 0"
proof -
  let ?E = "sample_engine 1\<lparr>exports := (\<lambda>_. True)\<rparr>"
    and ?w = "new_worker ()\<lparr>instantiated := True, engineReady := True\<rparr>"
  define w2 where "w2 = snd (onmessage ?E (Msg_upload_response False [1, 2, 3]) ?w)"
  have "fst (onmessage ?E (Msg_upload_response False [1, 2, 3]) ?w) = Inr ()" by code_simp
  then have run: "onmessage ?E (Msg_upload_response False [1, 2, 3]) ?w = (Inr (), w2)" by (simp add: w2_def prod_eq_iff)
  have "(''waste_wast_alloc'', [3], 8) \<in> set (calls w2)" unfolding w2_def by code_simp
  moreover have "outstanding 8 (calls w2) = outstanding 8 (calls ?w)"
    using buffers_released [of ?E 8] run by simp
  ultimately show ?thesis using run by (simp add: outstanding_def new_worker_def)
qed

end
