(* ===== verification/Worker_Report.thy ===== *)
theory Worker_Report
  imports Worker_Props Suite_Model
begin

text \<open>
  The report at the end of a run and its judgement by the batch controller. \<open>as_response\<close> is the message
  \<open>done\<close> as the controller receives it.
\<close>

definition as_response :: "done_report \<Rightarrow> response" where
  "as_response d =
     \<lparr>r_error = d_error d, r_cancelled = d_cancelled d, r_timedOut = d_timedOut d,
      r_results = Some (map a_pass (d_results d)), r_ok = Some (d_ok d), r_total = Some (d_total d),
      r_passed = Some (d_passed d), r_completed = Some (d_completed d),
      r_setup = Some \<lparr>s_complete = su_complete (d_setup d), s_total = Some (su_total (d_setup d)),
                      s_passed = Some (su_passed (d_setup d)), s_failures = Some (length (su_failures (d_setup d)))\<rparr>\<rparr>"

definition faithful_report :: "done_report \<Rightarrow> bool" where
  "faithful_report d \<longleftrightarrow>
     length (d_results d) = nat (d_total d) \<and>
     (d_ok d \<longleftrightarrow> d_passed d = d_total d \<and> su_complete (d_setup d) \<and>
        su_passed (d_setup d) = su_total (d_setup d) \<and> d_completed d)"

lemma triple_any: "triple P m (\<lambda>_ _. True) (\<lambda>_. True)"
  by (simp add: triple_def split: prod.splits sum.splits)

lemmas after_any = triple_bnd [OF triple_any]

lemma triple_collect_length: "triple P (collect f xs) (\<lambda>ys _. length ys = length xs) (\<lambda>_. True)"
proof (induction xs arbitrary: P)
  case Nil
  show ?case by (simp add: triple_ret)
next
  case (Cons x xs)
  show ?case
    by (simp, intro after_any triple_bnd [OF Cons]) (simp add: triple_ret)
qed

lemma report_of_values:
  "triple P (report_of E tot p rs su c ok) (\<lambda>d _. d_total d = tot \<and> d_passed d = p \<and> d_results d = rs \<and>
     d_setup d = su \<and> d_completed d = c \<and> d_ok d = ok) (\<lambda>_. True)"
  unfolding report_of_def by (intro after_any triple_ret) simp

lemma post_done: "triple P (postMessage q) (\<lambda>_ w. last (posts w) = q) R"
  by (simp add: triple_def postMessage_def modify_def)

lemma post_report_faithful:
  "triple P (post_report E) (\<lambda>_ w. \<exists>d. last (posts w) = Post_done d \<and> faithful_report d) (\<lambda>_. True)"
proof -
  have finish: "triple (\<lambda>w. length rs = length [0..<nat tot])
      (bnd (read_setup E) (\<lambda>su. bnd (invoke E ''waste_wast_script_completed'' []) (\<lambda>c.
        let ok = (p = tot \<and> su_complete su \<and> su_passed su = su_total su \<and> c \<noteq> 0)
        in thn (whenw (\<not> ok) (postMessage (Post_output (js ''WASTE_DONE_RESULTS='' @ json_results rs @ [10]))))
          (bnd (report_of E tot p rs su (c \<noteq> 0) ok) (\<lambda>d. postMessage (Post_done d))))))
      (\<lambda>_ w. \<exists>d. last (posts w) = Post_done d \<and> faithful_report d) (\<lambda>_. True)" for tot p rs
  proof (cases "length rs = length [0..<nat tot]")
    case False
    then show ?thesis by (simp add: triple_def)
  next
    case True
    have last: "triple (\<lambda>_. d_total d = tot \<and> d_passed d = p \<and> d_results d = rs \<and> d_setup d = su \<and> d_completed d = (c \<noteq> 0) \<and>
          d_ok d = (p = tot \<and> su_complete su \<and> su_passed su = su_total su \<and> c \<noteq> 0))
        (postMessage (Post_done d)) (\<lambda>_ w. \<exists>d. last (posts w) = Post_done d \<and> faithful_report d) (\<lambda>_. True)" for d su and c :: int
      using True by (auto simp: triple_def postMessage_def modify_def faithful_report_def)
    show ?thesis
      unfolding Let_def thn_def
      by (intro after_any triple_bnd [OF report_of_values] last)
  qed
  show ?thesis
    unfolding post_report_def thn_def
    by (intro after_any triple_bnd [OF triple_collect_length] finish [unfolded thn_def])
qed

lemma faithful_consistent:
  assumes "faithful_report d"
  shows "\<not> inconsistent (as_response d) \<longleftrightarrow>
     d_error d = [] \<and> 0 \<le> d_total d \<and> d_passed d = int (length (filter a_pass (d_results d))) \<and>
     su_complete (d_setup d) \<and> 0 \<le> su_passed (d_setup d) \<and> su_passed (d_setup d) \<le> su_total (d_setup d) \<and>
     int (length (su_failures (d_setup d))) = su_total (d_setup d) - su_passed (d_setup d)"
proof -
  have passes: "length (filter id (map a_pass rs)) = length (filter a_pass rs)" for rs
    by (induction rs) simp_all
  have "d_total d = int (length (d_results d)) \<longleftrightarrow> 0 \<le> d_total d"
    using assms by (auto simp: faithful_report_def)
  moreover have "d_ok d = (d_passed d = d_total d \<and> d_completed d \<and> su_passed (d_setup d) = su_total (d_setup d))"
    if "su_complete (d_setup d)"
    using assms that by (auto simp: faithful_report_def)
  ultimately show ?thesis
    by (auto simp: inconsistent_def as_response_def passes)
qed

text \<open>
  C4. The last message of a run that ends is its report. It has one result per assertion the engine counted,
  and \<open>ok\<close> exactly if all assertions and all setup steps passed and the script completed. The batch
  controller accepts the report exactly if the engine's own counters agree with each other; a
  report it accepts is judged a pass exactly by \<open>ok\<close>.
\<close>

theorem report_accepted:
  assumes "post_report E w = (Inr (), w1)"
  shows "\<exists>d. last (posts w1) = Post_done d \<and> length (d_results d) = nat (d_total d) \<and>
     (d_ok d \<longleftrightarrow> d_passed d = d_total d \<and> su_complete (d_setup d) \<and>
        su_passed (d_setup d) = su_total (d_setup d) \<and> d_completed d) \<and>
     (\<not> inconsistent (as_response d) \<longleftrightarrow>
        d_error d = [] \<and> 0 \<le> d_total d \<and> d_passed d = int (length (filter a_pass (d_results d))) \<and>
        su_complete (d_setup d) \<and> 0 \<le> su_passed (d_setup d) \<and> su_passed (d_setup d) \<le> su_total (d_setup d) \<and>
        int (length (su_failures (d_setup d))) = su_total (d_setup d) - su_passed (d_setup d)) \<and>
     (\<forall>t. \<not> d_cancelled d \<and> \<not> d_timedOut d \<and> \<not> inconsistent (as_response d) \<longrightarrow>
        (res_status (judge t (as_response d)) \<in> {PASS, XPASS} \<longleftrightarrow> d_ok d))"
proof -
  have "\<exists>d. last (posts w1) = Post_done d \<and> faithful_report d"
    by (rule tripleD [OF post_report_faithful [of "\<lambda>_. True" E] _ assms]) simp
  then obtain d where d: "last (posts w1) = Post_done d" "faithful_report d" by blast
  have "res_status (judge t (as_response d)) \<in> {PASS, XPASS} \<longleftrightarrow> d_ok d"
    if "\<not> d_cancelled d" "\<not> d_timedOut d" "\<not> inconsistent (as_response d)" for t
    using that by (auto simp: judge_def Let_def as_response_def)
  then show ?thesis
    using d faithful_consistent [OF d(2)] unfolding faithful_report_def by blast
qed

theorem report_accepted_witness:
  "\<exists>d. last (posts (snd (post_report (sample_engine 3) (sample_waiting 3)))) = Post_done d \<and>
       length (d_results d) = nat (d_total d)"
proof -
  have "fst (post_report (sample_engine 3) (sample_waiting 3)) = Inr ()" by code_simp
  then have "post_report (sample_engine 3) (sample_waiting 3) =
      (Inr (), snd (post_report (sample_engine 3) (sample_waiting 3)))"
    by (simp add: prod_eq_iff)
  from report_accepted [OF this] show ?thesis by blast
qed

end
