(* ===== verification/Worker_Events.thy ===== *)
theory Worker_Events
  imports Worker_Props
begin

text \<open>
  What the engine receives: the events that were queued before it was ready are delivered once and in
  order, and the text decoder that the worker shares between terminal output and every other text.
\<close>

subsection \<open>Delivery of queued events\<close>

datatype event = Resized int int | Typed "nat list" | Stray_input int int | Signal_group int int | Signal_process int int

text \<open>
  The events that the engine is given, read off the log of calls. Input is handed over by \<open>waste_wast_enqueue_input\<close>: the
  engine takes as many bytes as the call announces of what was last written into its memory, if the call
  names the address of that write; any other hand-over is stray.
\<close>

definition event_of :: "call \<Rightarrow> event option" where
  "event_of c =
     (case c of (name, args, v) \<Rightarrow>
        if name = ''waste_wast_resize_terminal'' then Some (Resized (args ! 0) (args ! 1))
        else if name = ''waste_wast_raise_signal_pgid'' then Some (Signal_group (args ! 0) (args ! 1))
        else if name = ''waste_wast_raise_signal_pid'' then Some (Signal_process (args ! 0) (args ! 1))
        else None)"

definition handed_over :: "(int \<times> nat list) option \<Rightarrow> int \<Rightarrow> int \<Rightarrow> event" where
  "handed_over written p n =
     (case written of
        Some (q, bs) \<Rightarrow> if p = q \<and> 0 \<le> n \<and> n \<le> int (length bs) then Typed (take (nat n) bs) else Stray_input p n
      | None \<Rightarrow> Stray_input p n)"

definition option_list :: "'a option \<Rightarrow> 'a list" where
  "option_list v = (case v of None \<Rightarrow> [] | Some x \<Rightarrow> [x])"

definition log_call :: "(int \<times> nat list) option \<times> event list \<Rightarrow> call \<Rightarrow> (int \<times> nat list) option \<times> event list" where
  "log_call st c =
     (case c of (name, args, v) \<Rightarrow>
        if name = ''memory.set'' then (Some (hd args, map nat (tl args)), snd st)
        else if name = ''waste_wast_enqueue_input'' then (fst st, snd st @ [handed_over (fst st) (args ! 0) (args ! 1)])
        else (fst st, snd st @ option_list (event_of c)))"

definition written :: "call list \<Rightarrow> (int \<times> nat list) option" where
  "written cs = fst (foldl log_call (None, []) cs)"

definition delivered :: "call list \<Rightarrow> event list" where
  "delivered cs = snd (foldl log_call (None, []) cs)"

definition raised :: "signal_entry \<Rightarrow> event" where
  "raised s = (if sig_pgid s \<noteq> 0 then Signal_group (sig_number s) (sig_pgid s) else Signal_process (sig_number s) (sig_pid s))"

lemma log_snoc:
  "(written (cs @ [c]), delivered (cs @ [c])) = log_call (written cs, delivered cs) c"
  by (simp add: written_def delivered_def)

lemma delivered_snoc:
  "delivered (cs @ [c]) = snd (log_call (written cs, delivered cs) c)" "written (cs @ [c]) = fst (log_call (written cs, delivered cs) c)"
  using log_snoc [of cs c] by (metis snd_conv, metis fst_conv)

text \<open>The events so far, with no request outstanding; the queues may be observed as well.\<close>

definition sent :: "event list \<Rightarrow> 'e worker \<Rightarrow> bool" where
  "sent es w \<longleftrightarrow> delivered (calls w) = es \<and> guestSuitePending w = 0"

definition queues :: "'e worker \<Rightarrow> (int \<times> int) option \<times> nat list list \<times> nat \<times> signal_entry list" where
  "queues w = (pendingResize w, pendingInput w, pendingInputBytes w, pendingSignals w)"

type_synonym queue_state = "(int \<times> int) option \<times> nat list list \<times> nat \<times> signal_entry list"

abbreviation sends :: "queue_state \<Rightarrow> event list \<Rightarrow> ('e, 'a) stmt \<Rightarrow> event list \<Rightarrow> bool" where
  "sends q es m fs \<equiv> triple (\<lambda>w. sent es w \<and> queues w = q) m (\<lambda>_ w. sent fs w \<and> queues w = q) (\<lambda>_. True)"

lemma callbacks_sent:
  "calls (fold run_callback cbs w) = calls w \<and> guestSuitePending (fold run_callback cbs w) = guestSuitePending w \<and>
   queues (fold run_callback cbs w) = queues w"
proof (induction cbs arbitrary: w)
  case (Cons c cbs)
  have "calls (run_callback c w) = calls w \<and> guestSuitePending (run_callback c w) = guestSuitePending w \<and>
      queues (run_callback c w) = queues w"
    by (simp add: run_callback_def posixWrite_def queues_def split: callback.split prod.split)
  with Cons [of "run_callback c w"] show ?case by simp
qed simp

text \<open>One call: \<open>log_call\<close> tells what it adds, from the write that precedes it.\<close>

lemma invoke_logs:
  "triple (\<lambda>w. sent es w \<and> queues w = q \<and> written (calls w) = d) (invoke E name args)
     (\<lambda>_ w. sent (snd (log_call (d, es) (name, args, 0))) w \<and> queues w = q) (\<lambda>_. True)"
proof (rule tripleI)
  fix w :: "'a worker" assume w: "sent es w \<and> queues w = q \<and> written (calls w) = d"
  obtain v e cbs where call: "invoke_export E name args (eng w) = (v, e, cbs)"
    by (cases "invoke_export E name args (eng w)")
  have same: "log_call st (name, args, v) = log_call st (name, args, 0)" for st by (simp add: log_call_def event_of_def)
  show "case invoke E name args w of (Inl e, w1) \<Rightarrow> True
      | (Inr v, w1) \<Rightarrow> sent (snd (log_call (d, es) (name, args, 0))) w1 \<and> queues w1 = q"
    using w call callbacks_sent [of cbs "w\<lparr>eng := e, calls := calls w @ [(name, args, v)]\<rparr>"]
    by (auto simp: invoke_def sent_def delivered_snoc same queues_def)
qed

lemma sends_invoke:
  assumes "name \<noteq> ''memory.set''" "name \<noteq> ''waste_wast_enqueue_input''"
  shows "sends q es (invoke E name args) (es @ option_list (event_of (name, args, 0)))"
  using invoke_logs [where es = es and q = q and E = E and name = name and args = args] assms
  by (simp add: triple_def log_call_def)

text \<open>The bytes are written, then handed over.\<close>

lemma store_written:
  "triple (\<lambda>w. sent es w \<and> queues w = q) (store E p bs) (\<lambda>_ w. sent es w \<and> queues w = q \<and> written (calls w) = Some (p, bs)) (\<lambda>_. True)"
  by (auto simp: triple_def store_def sent_def delivered_snoc log_call_def queues_def comp_def)

lemma sends_store:
  "sends q es (thn (store E p bs) (invoke E ''waste_wast_enqueue_input'' [p, int (length bs)])) (es @ [Typed bs])"
proof -
  have "snd (log_call (Some (p, bs), es) (''waste_wast_enqueue_input'', [p, int (length bs)], 0)) = es @ [Typed bs]"
    by (simp add: log_call_def handed_over_def)
  with triple_thn [OF store_written [where es = es and q = q and E = E and p = p and bs = bs]
      invoke_logs [where E = E and name = "''waste_wast_enqueue_input''" and args = "[p, int (length bs)]"]]
  show ?thesis by simp
qed

lemma sends_wake: "sends q es wakeIO es" "sends q es (controlError s) es"
  by (simp_all add: triple_def wakeIO_def controlError_def postMessage_def modify_def sent_def queues_def)

lemma sends_bnd: "sends q es m fs \<Longrightarrow> (\<And>v. sends q fs (f v) gs) \<Longrightarrow> sends q es (bnd m f) gs"
  by (rule triple_bnd)

lemma sends_thn: "sends q es m fs \<Longrightarrow> sends q fs n gs \<Longrightarrow> sends q es (thn m n) gs"
  unfolding thn_def by (rule sends_bnd)

lemma sends_if: "(b \<Longrightarrow> sends q es m fs) \<Longrightarrow> (\<not> b \<Longrightarrow> sends q es n fs) \<Longrightarrow> sends q es (if b then m else n) fs"
  by simp

lemma sends_basic: "sends q es (ret v) es" "sends q es (throw e) fs"
  by (simp_all add: triple_ret triple_throw)

lemma sends_quiet:
  "event_of (name, args, 0) = None \<Longrightarrow> name \<noteq> ''memory.set'' \<Longrightarrow> name \<noteq> ''waste_wast_enqueue_input'' \<Longrightarrow>
     sends q es (invoke E name args) es"
  using sends_invoke [where q = q and es = es and E = E and name = name and args = args] by (simp add: option_list_def)

lemma sends_event:
  "event_of (name, args, 0) = Some x \<Longrightarrow> name \<noteq> ''memory.set'' \<Longrightarrow> name \<noteq> ''waste_wast_enqueue_input'' \<Longrightarrow>
     sends q es (invoke E name args) (es @ [x])"
  using sends_invoke [where q = q and es = es and E = E and name = name and args = args] by (simp add: option_list_def)

lemma enqueueInput_plain:
  "guestSuitePending w = 0 \<Longrightarrow> enqueueInput E bs w =
     (if bs = [] then ret () else bnd (invoke E ''waste_wast_alloc'' [int (length bs)]) (\<lambda>ptr.
        if ptr = 0 then throw (Error ''C engine input allocation failed'')
        else thn (store E ptr bs) (bnd (invoke E ''waste_wast_enqueue_input'' [ptr, int (length bs)]) (\<lambda>_. wakeIO)))) w"
  by (simp add: enqueueInput_def bnd_def gets_def thn_def whenw_def ret_def)

lemma sends_input: "sends q es (enqueueInput E bs) (es @ (if bs = [] then [] else [Typed bs]))"
proof -
  have assoc: "thn m (bnd n f) = bnd (thn m n) f" for m :: "('b, unit) stmt" and n :: "('b, int) stmt" and f :: "int \<Rightarrow> ('b, unit) stmt"
    by (auto simp: fun_eq_iff thn_def bnd_def split: prod.split sum.split)
  have hand: "sends q es (thn (store E p bs) (bnd (invoke E ''waste_wast_enqueue_input'' [p, int (length bs)]) (\<lambda>_. wakeIO)))
      (es @ [Typed bs])" for p
    unfolding assoc by (intro sends_bnd [OF sends_store] sends_wake)
  have give: "sends q es (bnd (invoke E ''waste_wast_alloc'' [int (length bs)]) (\<lambda>ptr.
      if ptr = 0 then throw (Error ''C engine input allocation failed'')
      else thn (store E ptr bs) (bnd (invoke E ''waste_wast_enqueue_input'' [ptr, int (length bs)]) (\<lambda>_. wakeIO))))
      (es @ [Typed bs])"
    by (intro sends_bnd [OF sends_quiet] sends_if sends_basic hand) (simp_all add: event_of_def)
  show ?thesis
  proof (cases "bs = []")
    case True
    then show ?thesis by (simp add: triple_def enqueueInput_plain sent_def ret_def)
  next
    case False
    with give show ?thesis by (simp add: triple_def enqueueInput_plain sent_def)
  qed
qed

lemma sends_signal: "sends q es (raise_pending E s) (es @ [raised s])"
proof -
  have "sends q es (if sig_pgid s \<noteq> 0 then invoke E ''waste_wast_raise_signal_pgid'' [sig_number s, sig_pgid s]
      else invoke E ''waste_wast_raise_signal_pid'' [sig_number s, sig_pid s]) (es @ [raised s])"
    by (intro sends_if sends_event) (simp_all add: event_of_def raised_def)
  then show ?thesis
    unfolding raise_pending_def by (rule sends_bnd) (intro sends_if sends_wake)
qed

lemma sends_inputs: "sends q es (each (enqueueInput E) bss) (es @ map Typed (filter (\<lambda>bs. bs \<noteq> []) bss))"
proof (induction bss arbitrary: es)
  case Nil
  show ?case using sends_basic(1) by simp
next
  case (Cons bs bss)
  have "sends q es (thn (enqueueInput E bs) (each (enqueueInput E) bss))
      ((es @ (if bs = [] then [] else [Typed bs])) @ map Typed (filter (\<lambda>bs. bs \<noteq> []) bss))"
    by (rule sends_thn [OF sends_input Cons])
  then show ?case by (cases "bs = []") simp_all
qed

lemma sends_signals: "sends q es (each (raise_pending E) ss) (es @ map raised ss)"
proof (induction ss arbitrary: es)
  case Nil
  show ?case using sends_basic(1) by simp
next
  case (Cons s ss)
  have "sends q es (thn (raise_pending E s) (each (raise_pending E) ss)) ((es @ [raised s]) @ map raised ss)"
    by (rule sends_thn [OF sends_signal Cons])
  then show ?case by simp
qed

definition resized :: "(int \<times> int) option \<Rightarrow> event list" where
  "resized p = option_list (map_option (\<lambda>(c, r). Resized c r) p)"

lemma flush_resize_sends:
  "triple (\<lambda>w. sent es w \<and> queues w = (p, bss, n, ss)) (flush_resize E)
     (\<lambda>_ w. sent (es @ resized p) w \<and> queues w = (None, bss, n, ss)) (\<lambda>_. True)"
proof (cases p)
  case None
  then show ?thesis
    by (auto simp: triple_def flush_resize_def bnd_def gets_def ret_def queues_def resized_def option_list_def)
next
  case (Some cr)
  obtain c r where cr: "cr = (c, r)" by (cases cr)
  let ?call = "bnd (invoke E ''waste_wast_resize_terminal'' [c, r]) (\<lambda>v. if v = 0 then wakeIO else controlError ''resize'')"
  have "sends (p, bss, n, ss) es ?call (es @ [Resized c r])"
    by (intro sends_bnd [OF sends_event [where x = "Resized c r"]] sends_if sends_wake) (simp_all add: event_of_def)
  then have "triple (\<lambda>w. sent es w \<and> queues w = (p, bss, n, ss))
      (thn ?call (modify (\<lambda>w. w\<lparr>pendingResize := None\<rparr>)))
      (\<lambda>_ w. sent (es @ [Resized c r]) w \<and> queues w = (None, bss, n, ss)) (\<lambda>_. True)"
    by (rule triple_thn) (rule triple_modify, simp add: sent_def queues_def)
  then show ?thesis
    using Some cr
    by (simp add: triple_def flush_resize_def bnd_def [of "gets pendingResize"] gets_def queues_def resized_def option_list_def)
qed

lemma flushPendingEvents_sends:
  "triple (\<lambda>w. (sent es w \<and> queues w = (p, bss, n, ss)) \<and> engineReady w) (flushPendingEvents E)
     (\<lambda>_ w. sent (es @ resized p @ map Typed (filter (\<lambda>bs. bs \<noteq> []) bss) @ map raised ss) w \<and> queues w = (None, [], 0, []))
     (\<lambda>_. True)"
proof -
  let ?e1 = "es @ resized p" and ?e2 = "(es @ resized p) @ map Typed (filter (\<lambda>bs. bs \<noteq> []) bss)"
  let ?e3 = "((es @ resized p) @ map Typed (filter (\<lambda>bs. bs \<noteq> []) bss)) @ map raised ss"
  have inputs: "triple (\<lambda>w. sent ?e1 w \<and> queues w = (None, bss, n, ss)) (bnd (gets pendingInput) (each (enqueueInput E)))
      (\<lambda>_ w. sent ?e2 w \<and> queues w = (None, bss, n, ss)) (\<lambda>_. True)"
    using sends_inputs [where q = "(None, bss, n, ss)" and es = ?e1 and E = E and bss = bss] by (auto simp: triple_def bnd_def gets_def queues_def)
  have clear: "triple (\<lambda>w. sent ?e2 w \<and> queues w = (None, bss, n, ss))
      (modify (\<lambda>w. w\<lparr>pendingInput := [], pendingInputBytes := 0\<rparr>)) (\<lambda>_ w. sent ?e2 w \<and> queues w = (None, [], 0, ss)) (\<lambda>_. True)"
    by (rule triple_modify) (simp add: sent_def queues_def)
  have signals: "triple (\<lambda>w. sent ?e2 w \<and> queues w = (None, [], 0, ss)) (bnd (gets pendingSignals) (each (raise_pending E)))
      (\<lambda>_ w. sent ?e3 w \<and> queues w = (None, [], 0, ss)) (\<lambda>_. True)"
    using sends_signals [where q = "(None, [], 0, ss)" and es = ?e2 and E = E and ss = ss] by (auto simp: triple_def bnd_def gets_def queues_def)
  have last: "triple (\<lambda>w. sent ?e3 w \<and> queues w = (None, [], 0, ss)) (modify (\<lambda>w. w\<lparr>pendingSignals := []\<rparr>))
      (\<lambda>_ w. sent ?e3 w \<and> queues w = (None, [], 0, [])) (\<lambda>_. True)"
    by (rule triple_modify) (simp add: sent_def queues_def)
  from triple_thn [OF flush_resize_sends triple_thn [OF inputs triple_thn [OF clear triple_thn [OF signals last]]]]
  show ?thesis by (simp add: triple_def flushPendingEvents_def bnd_def [of "gets engineReady"] gets_def)
qed

subsection \<open>Theorems\<close>

text \<open>
  C14. When the engine becomes ready, the events queued before are delivered exactly once and in order: the
  last terminal size, then every non-empty input, then every signal; and the queues are empty afterwards. An
  input counts as delivered when \<open>waste_wast_enqueue_input\<close> hands exactly its bytes to the engine, at the address
  they were written to and with their length.
\<close>

theorem early_events_delivered:
  assumes "flushPendingEvents E w = (Inr (), w1)" and "engineReady w" and "guestSuitePending w = 0"
  shows "delivered (calls w1) = delivered (calls w) @
           (case pendingResize w of None \<Rightarrow> [] | Some (c, r) \<Rightarrow> [Resized c r]) @
           map Typed (filter (\<lambda>bs. bs \<noteq> []) (pendingInput w)) @
           map (\<lambda>s. if sig_pgid s \<noteq> 0 then Signal_group (sig_number s) (sig_pgid s)
                    else Signal_process (sig_number s) (sig_pid s)) (pendingSignals w) \<and>
         pendingResize w1 = None \<and> pendingInput w1 = [] \<and> pendingInputBytes w1 = 0 \<and> pendingSignals w1 = []"
proof -
  have "(sent (delivered (calls w)) w \<and>
      queues w = (pendingResize w, pendingInput w, pendingInputBytes w, pendingSignals w)) \<and> engineReady w"
    using assms by (simp add: sent_def queues_def)
  from tripleD [OF flushPendingEvents_sends this assms(1)]
  have "delivered (calls w1) = delivered (calls w) @ resized (pendingResize w) @
      map Typed (filter (\<lambda>bs. bs \<noteq> []) (pendingInput w)) @ map raised (pendingSignals w)"
    and "queues w1 = (None, [], 0, [])"
    by (simp_all add: sent_def)
  moreover have "resized p = (case p of None \<Rightarrow> [] | Some (c, r) \<Rightarrow> [Resized c r])" for p
    by (simp add: resized_def option_list_def split: option.split)
  moreover have "raised = (\<lambda>s. if sig_pgid s \<noteq> 0 then Signal_group (sig_number s) (sig_pgid s)
      else Signal_process (sig_number s) (sig_pid s))"
    by (simp add: fun_eq_iff raised_def)
  ultimately show ?thesis by (simp add: queues_def)
qed

definition sample_early :: "unit worker" where
  "sample_early = new_worker ()\<lparr>instantiated := True, engineReady := True, pendingResize := Some (80, 24),
     pendingInput := [[108, 115], [], [10]], pendingInputBytes := 3,
     pendingSignals := [\<lparr>sig_number = 2, sig_pid = 0, sig_pgid = 7\<rparr>]\<rparr>"

theorem early_events_delivered_witness:
  "delivered (calls (snd (flushPendingEvents (sample_engine 3) sample_early))) =
     [Resized 80 24, Typed [108, 115], Typed [10], Signal_group 2 7]"
proof -
  have "fst (flushPendingEvents (sample_engine 3) sample_early) = Inr ()" by code_simp
  then have "flushPendingEvents (sample_engine 3) sample_early =
      (Inr (), snd (flushPendingEvents (sample_engine 3) sample_early))"
    by (simp add: prod_eq_iff)
  from early_events_delivered [OF this] show ?thesis
    by (simp add: sample_early_def new_worker_def delivered_def)
qed

lemma encode_lead: "c # cs = utf8_encode p \<Longrightarrow> \<not> (0x80 \<le> c \<and> c \<le> 0xBF)"
proof (cases p)
  case (Cons x xs)
  assume "c # cs = utf8_encode p"
  with Cons have "c # cs = utf8_encode1 x @ utf8_encode xs" by (simp add: utf8_encode_def)
  then show ?thesis by (auto simp: utf8_encode1_def scalar_def split: if_splits)
qed (simp add: utf8_encode_def)

text \<open>A decoder that has output nothing since it started a character is inside that character.\<close>

lemma step_silent: "utf8_step u b = (u1, []) \<Longrightarrow> u_need u1 \<noteq> 0"
  by (auto simp: utf8_step_def utf8_lead_def utf8_init_def Let_def split: if_splits prod.splits)

lemma feed_silent: "utf8_feed u bs = (u1, []) \<Longrightarrow> bs \<noteq> [] \<Longrightarrow> u_need u1 \<noteq> 0"
proof (induction bs arbitrary: u)
  case (Cons b bs)
  obtain v o1 where v: "utf8_step u b = (v, o1)" by (cases "utf8_step u b")
  with Cons.prems(1) have "o1 = []" "utf8_feed v bs = (u1, [])" by (auto split: prod.splits)
  with Cons.IH [of v] step_silent [of u b v] v show ?case by (cases bs) auto
qed simp

definition utf8_range :: "utf8 \<Rightarrow> bool" where
  "utf8_range u \<longleftrightarrow> 0x80 \<le> u_lower u \<and> u_upper u \<le> 0xBF"

lemma feed_range: "utf8_range u \<Longrightarrow> utf8_range (fst (utf8_feed u bs))"
proof (induction bs arbitrary: u)
  case (Cons b bs)
  have "utf8_range (fst (utf8_step u b))"
    using Cons.prems by (auto simp: utf8_step_def utf8_lead_def utf8_init_def utf8_range_def Let_def)
  from Cons.IH [OF this] show ?case by (cases "utf8_step u b"; cases "utf8_feed (fst (utf8_step u b)) bs") simp
qed simp

lemma feed_part:
  assumes "scalar c" "utf8_encode1 c = part @ rest" "part \<noteq> []" "rest \<noteq> []"
  obtains u where "utf8_feed utf8_init part = (u, [])" "u_need u \<noteq> 0" "utf8_range u"
proof -
  obtain u o1 where u: "utf8_feed utf8_init part = (u, o1)" by (cases "utf8_feed utf8_init part")
  obtain v o2 where v: "utf8_feed u rest = (v, o2)" by (cases "utf8_feed u rest")
  have whole: "v = utf8_init" "o1 @ o2 = [c]"
    using utf8_step_encode1 [OF assms(1)] assms(2) u v by (simp_all add: utf8_feed_append)
  have "o2 \<noteq> []" using feed_silent [of u rest v] v whole(1) assms(4) by (auto simp: utf8_init_def)
  with whole(2) have "o1 = []" by (simp add: append_eq_Cons_conv)
  moreover have "utf8_range u" using feed_range [of utf8_init part] u by (simp add: utf8_init_def utf8_range_def)
  ultimately show thesis using that u feed_silent [of utf8_init part u] assms(3) by blast
qed

lemma feed_after_partial:
  assumes "u_need u \<noteq> 0" "utf8_range u" and p: "list_all scalar p" "p \<noteq> []"
  shows "utf8_feed u (utf8_encode p) = (utf8_init, 0xFFFD # p)"
proof -
  have feed: "utf8_feed utf8_init (utf8_encode p) = (utf8_init, p)"
    using p by (simp add: utf8_roundtrip)
  obtain b bs where enc: "utf8_encode p = b # bs"
    using p by (cases "utf8_encode p"; cases p) (auto simp: utf8_encode_def utf8_encode1_def split: if_splits)
  have "\<not> (0x80 \<le> b \<and> b \<le> 0xBF)" using encode_lead [of b bs p] enc by simp
  then have "\<not> (u_lower u \<le> b \<and> b \<le> u_upper u)" using assms(2) by (auto simp: utf8_range_def)
  then have step: "utf8_step u b = (fst (utf8_lead b), 0xFFFD # snd (utf8_lead b))"
    using assms(1) by (simp add: utf8_step_def split: prod.split)
  have "utf8_step utf8_init b = utf8_lead b" by (simp add: utf8_step_def utf8_init_def)
  with feed step show ?thesis unfolding enc by (simp split: prod.splits)
qed

text \<open>The writes of the engine to the terminal, each to standard output or standard error.\<close>

definition terminal_writes :: "(int \<times> nat list) list \<Rightarrow> 'e worker \<Rightarrow> 'e worker" where
  "terminal_writes outs w = fold (\<lambda>(fd, bs). posixWrite fd bs) outs w"

lemma writes_decode:
  "list_all (\<lambda>(fd, _). fd = 1 \<or> fd = 2) outs \<Longrightarrow>
     text_state (terminal_writes outs w) = fst (decode_stream (text_state w) (concat (map snd outs)))"
proof (induction outs arbitrary: w)
  case Nil
  show ?case by (cases "text_state w") (simp add: terminal_writes_def decode_stream_def strip_bom_def)
next
  case (Cons o1 outs)
  then show ?case
    by (cases o1) (auto simp: terminal_writes_def posixWrite_def decode_stream_append Let_def split: prod.split)
qed

text \<open>
  C40. The worker decodes terminal output, host paths, test names and error texts with one decoder. When
  the output so far, in any number of writes, ends inside a character, the next text that is decoded whole begins
  with a replacement character it does not contain; after complete output the same text is decoded
  exactly, unless it begins with a byte order mark.
\<close>

theorem partial_output_corrupts_text:
  assumes "text_state w = new_decoder" and "list_all (\<lambda>(fd, _). fd = 1 \<or> fd = 2) outs"
    and "list_all scalar q" and "scalar c" "utf8_encode1 c = part @ rest" "rest \<noteq> []" and "list_all scalar p"
    and "concat (map snd outs) = utf8_encode q @ part"
  shows "fst (decode_text (utf8_encode p) (terminal_writes outs w)) =
    Inr (if part \<noteq> [] then 0xFFFD # p else if q = [] \<and> p \<noteq> [] \<and> hd p = 0xFEFF then tl p else p)"
proof -
  let ?st = "text_state (terminal_writes outs w)"
  obtain u o1 where u: "utf8_feed utf8_init part = (u, o1)" by (cases "utf8_feed utf8_init part")
  have "decode_stream new_decoder (utf8_encode q @ part) = (\<lparr>d_utf8 = u, d_bom = fst (strip_bom False (q @ o1))\<rparr>, snd (strip_bom False (q @ o1)))"
    using assms(3) u by (simp add: decode_stream_def new_decoder_def utf8_feed_append utf8_roundtrip split: prod.split)
  then have st: "?st = \<lparr>d_utf8 = u, d_bom = fst (strip_bom False (q @ o1))\<rparr>"
    using writes_decode [OF assms(2), of w] assms(1,8) by simp
  show ?thesis
  proof (cases "part = []")
    case True
    with u have "u = utf8_init" "o1 = []" by simp_all
    moreover have "u_need utf8_init = 0" by (simp add: utf8_init_def)
    ultimately show ?thesis
      using True st assms(7) by (cases q; cases p) (simp_all add: decode_text_def decode_flush_def utf8_roundtrip strip_bom_def)
  next
    case False
    from feed_part [OF assms(4,5) False assms(6)] u have n: "u_need u \<noteq> 0" "utf8_range u" "o1 = []" by auto
    show ?thesis
    proof (cases "p = []")
      case True
      with False n st show ?thesis by (simp add: decode_text_def decode_flush_def strip_bom_def utf8_encode_def)
    next
      case p: False
      from feed_after_partial [OF n(1,2) assms(7) p] False st show ?thesis
        by (simp add: decode_text_def decode_flush_def strip_bom_def utf8_init_def)
    qed
  qed
qed

theorem partial_output_corrupts_text_witness:
  "fst (decode_text (utf8_encode [97]) (terminal_writes [(1, [98, 0xE2]), (2, [0x82])] (new_worker ()))) = Inr [0xFFFD, 97]"
  using partial_output_corrupts_text [of "new_worker ()" "[(1, [98, 0xE2]), (2, [0x82])]" "[98]" "0x20AC" "[0xE2, 0x82]" "[0xAC]" "[97]"]
  by (simp add: new_worker_def scalar_def utf8_encode_def utf8_encode1_def)

end
