(* ===== verification/Loader.thy ===== *)
theory Loader
  imports Suite_Model
begin

text \<open>
  The loader of \<open>loader.js\<close>: the checked tar headers of \<open>packageTarReader\<close>, the unpacking of the archive
  into the file map by \<open>boot\<close>, the selection of the installed files, and the memory that the decompressor
  obtains from \<open>wasmalloc\<close>. Bytes are naturals, and an array buffer is a list of bytes. The walk over the
  archive belongs to the library tarballjs: its entries and their contents are parameters.
\<close>

subsection \<open>Tar headers\<close>

definition fatal_text :: "nat list \<Rightarrow> jstr completion" where
  "fatal_text bs = bind_c (fatal_decode bs) (\<lambda>cs. Inr (snd (strip_bom False cs)))"

definition tar_readString :: "nat list \<Rightarrow> nat \<Rightarrow> nat \<Rightarrow> jstr completion" where
  "tar_readString buf offset n =
     (if length buf < offset + n then Inl (RangeError ''Invalid typed array length'')
      else fatal_text (takeWhile (\<lambda>b. b \<noteq> 0) (take n (drop offset buf))))"

definition tar_readFileName :: "nat list \<Rightarrow> nat \<Rightarrow> jstr completion" where
  "tar_readFileName buf offset =
     bind_c (tar_readString buf offset 100) (\<lambda>name.
     bind_c (tar_readString buf (offset + 345) 155) (\<lambda>pre.
       Inr (if pre \<noteq> [] then pre @ [47] @ name else name)))"

definition octal_digit :: "nat \<Rightarrow> bool" where
  "octal_digit c \<longleftrightarrow> 48 \<le> c \<and> c \<le> 55"

definition parse_octal :: "jstr \<Rightarrow> nat" where
  "parse_octal cs = foldl (\<lambda>a c. a * 8 + (c - 48)) 0 cs"

definition tar_number :: "nat list \<Rightarrow> nat \<Rightarrow> nat \<Rightarrow> nat completion" where
  "tar_number buf offset n =
     bind_c (tar_readString buf offset n) (\<lambda>s.
       let v = js_trim s
       in if v = [] \<or> \<not> list_all octal_digit v then Inl (Error ''Invalid tar number'') else Inr (parse_octal v))"

definition tar_checksum :: "nat list \<Rightarrow> nat \<Rightarrow> nat" where
  "tar_checksum buf offset = sum_list (map (\<lambda>i. if 148 \<le> i \<and> i < 156 then 32 else buf ! (offset + i)) [0..<512])"

definition padded :: "nat \<Rightarrow> nat" where
  "padded n = (n + 511) div 512 * 512"

definition tar_readFileSize :: "nat list \<Rightarrow> nat \<Rightarrow> nat completion" where
  "tar_readFileSize buf offset =
     bind_c (tar_number buf (offset + 124) 12) (\<lambda>n.
       if n > 2 ^ 53 - 1 \<or> offset + 512 + padded n > length buf then Inl (Error ''Truncated tar file'')
       else bind_c (tar_number buf (offset + 148) 8) (\<lambda>c.
         if tar_checksum buf offset \<noteq> c then Inl (Error ''Invalid tar checksum'') else Inr n))"

text \<open>\<open>True\<close> for a directory and \<open>False\<close> for a file.\<close>

definition tar_readFileType :: "nat list \<Rightarrow> nat \<Rightarrow> bool completion" where
  "tar_readFileType buf offset =
     (if length buf < offset + 157 then Inl (RangeError ''Invalid typed array length'')
      else let kind = buf ! (offset + 156)
           in if kind = 0 \<or> kind = 48 then Inr False else if kind = 53 then Inr True
              else Inl (Error ''Unsupported tar entry type''))"

subsection \<open>Unpacking\<close>

record tar_entry =
  te_name :: jstr
  te_dir :: bool
  te_size :: nat

record 'b unpacked =
  u_name :: jstr
  u_blob :: 'b
  u_dir :: bool
  u_size :: nat

text \<open>\<open>name.replace(/^\.\//, "")\<close>, and for a directory \<open>name.replace(/\/$/, "")\<close>.\<close>

definition entry_name :: "tar_entry \<Rightarrow> jstr" where
  "entry_name e =
     (let n = (if starts_with [46, 47] (te_name e) then drop 2 (te_name e) else te_name e)
      in if te_dir e \<and> n \<noteq> [] \<and> last n = 47 then butlast n else n)"

definition unsafe_name :: "jstr \<Rightarrow> bool" where
  "unsafe_name n \<longleftrightarrow>
     starts_with [47] n \<or> list_ex (\<lambda>part. part = [] \<or> part = [46] \<or> part = [46, 46]) (split_on 47 n) \<or>
     list_ex (\<lambda>c. c < 32 \<or> c = 92) n"

definition unpack_entry :: "(jstr \<Rightarrow> 'b) \<Rightarrow> tar_entry \<Rightarrow> 'b unpacked" where
  "unpack_entry blob e = \<lparr>u_name = entry_name e, u_blob = blob (te_name e), u_dir = te_dir e, u_size = te_size e\<rparr>"

fun unpack :: "(jstr \<Rightarrow> 'b) \<Rightarrow> tar_entry list \<Rightarrow> 'b unpacked list \<Rightarrow> 'b unpacked list completion" where
  "unpack blob [] h = Inr h"
| "unpack blob (e # es) h =
     (let n = entry_name e
      in if n = [] \<or> n = [46] then unpack blob es h
         else if unsafe_name n \<or> n \<in> u_name ` set h then Inl (Error ''Unsafe or duplicate tar path'')
         else unpack blob es (h @ [unpack_entry blob e]))"

subsection \<open>The installed file system\<close>

record manifest_entry =
  me_role :: jstr
  me_path :: jstr

text \<open>\<open>load\<close> fetches a file or takes it from the archive; a missing file rejects.\<close>

fun installed_files :: "(jstr \<Rightarrow> nat list completion) \<Rightarrow> nat \<Rightarrow> manifest_entry list \<Rightarrow> (nat \<times> nat list) list completion" where
  "installed_files load i [] = Inr []"
| "installed_files load i (e # es) =
     (if me_role e = js ''directory'' \<or> me_role e = js ''interpreter'' then installed_files load (Suc i) es
      else if \<not> starts_with [47] (me_path e) \<or> [46, 46] \<in> set (split_on 47 (me_path e))
        then Inl (Error ''Unsafe installed VFS path'')
      else bind_c (load (drop 1 (me_path e))) (\<lambda>bytes.
           bind_c (installed_files load (Suc i) es) (\<lambda>fs. Inr ((i, bytes) # fs))))"

definition stagingDataPath :: "jstr \<Rightarrow> jstr" where
  "stagingDataPath f =
     (let root = js ''../../../build/html-rt/''
      in if f = js ''launch.wast'' then root @ js ''bash/launch.wast''
         else if f = js ''payload.json'' then root @ js ''tests/payload.json''
         else if f = js ''waste-wast.wasm'' then root @ f
         else if f = js ''vfs-manifest.json'' then root @ js ''bash/vfs-manifest.json''
         else if f = js ''browser-corpus-expected-failures.txt'' then js ''../../../src/html-rt/test/'' @ f
         else f)"

subsection \<open>The decompressor's memory and input\<close>

record inflate =
  memoryHead :: int
  memoryBytes :: int
  inputOffset :: nat
  outputChunks :: "nat list list"

text \<open>\<open>(size + 15) & ~15\<close> on int32 and \<open>n >>> 16\<close> on uint32.\<close>

definition align16 :: "int \<Rightarrow> int" where
  "align16 n = wrap32 (n + 15) div 16 * 16"

definition ushr16 :: "int \<Rightarrow> int" where
  "ushr16 n = n mod 2 ^ 32 div 2 ^ 16"

text \<open>\<open>memory.grow\<close> throws when the memory would exceed its maximum of \<open>most\<close> pages.\<close>

definition wasmalloc :: "int \<Rightarrow> int \<Rightarrow> inflate \<Rightarrow> (int \<times> inflate) completion" where
  "wasmalloc most n s =
     (let k = align16 n; pages = ushr16 (memoryBytes s); needed = ushr16 (memoryHead s + k + 65535)
      in if needed > pages \<and> needed > most then Inl (RangeError ''failed to grow memory'')
         else Inr (memoryHead s, s\<lparr>memoryHead := memoryHead s + k,
                memoryBytes := (if needed > pages then memoryBytes s + (needed - pages) * 65536 else memoryBytes s)\<rparr>))"

text \<open>The contents of the memory, of \<open>memoryBytes\<close> bytes, are passed beside the state of the closure.\<close>

definition input_chunk :: "nat list \<Rightarrow> int \<Rightarrow> int \<Rightarrow> nat list \<times> inflate \<Rightarrow> (int \<times> nat list \<times> inflate) completion" where
  "input_chunk compressed buf buflen st =
     (let (mem, s) = st; remaining = int (length compressed) - int (inputOffset s); n = min remaining buflen
      in if remaining \<le> 0 then Inr (0, mem, s)
         else if buf < 0 \<or> n < 0 \<or> buf + n > int (length mem) then Inl (RangeError ''Invalid typed array length'')
         else Inr (n, take (nat buf) mem @ take (nat n) (drop (inputOffset s) compressed) @ drop (nat (buf + n)) mem,
                s\<lparr>inputOffset := inputOffset s + nat n\<rparr>))"

definition output_chunk :: "int \<Rightarrow> int \<Rightarrow> nat list \<times> inflate \<Rightarrow> (nat list \<times> inflate) completion" where
  "output_chunk buf buflen st =
     (let (mem, s) = st
      in if buf < 0 \<or> buflen < 0 \<or> buf + buflen > int (length mem) then Inl (RangeError ''Invalid typed array length'')
         else Inr (mem, s\<lparr>outputChunks := outputChunks s @ [take (nat buflen) (drop (nat buf) mem)]\<rparr>))"

fun wasmallocs :: "int \<Rightarrow> int list \<Rightarrow> inflate \<Rightarrow> (int list \<times> inflate) completion" where
  "wasmallocs most [] s = Inr ([], s)"
| "wasmallocs most (n # ns) s =
     bind_c (wasmalloc most n s) (\<lambda>(p, s1). bind_c (wasmallocs most ns s1) (\<lambda>(ps, s2). Inr (p # ps, s2)))"

end
