(* ===== verification/Loader_Props.thy ===== *)
theory Loader_Props
  imports Loader
begin

text \<open>
  Properties of the loader: an accepted tar header describes data inside the archive and was not
  altered, the unpacked names are distinct and stay below the root, and the blocks of the
  decompressor's allocator are aligned, disjoint and inside the memory.
\<close>

subsection \<open>Tar headers\<close>

lemma parse_octal_snoc: "parse_octal (cs @ [c]) = parse_octal cs * 8 + (c - 48)"
  by (simp add: parse_octal_def)

lemma parse_octal_bound: "list_all octal_digit cs \<Longrightarrow> parse_octal cs < 8 ^ length cs"
proof (induction cs rule: rev_induct)
  case Nil
  show ?case by (simp add: parse_octal_def)
next
  case (snoc c cs)
  then have "parse_octal cs + 1 \<le> 8 ^ length cs" and "c - 48 \<le> 7"
    by (auto simp: octal_digit_def)
  then have "parse_octal cs * 8 + (c - 48) < 8 ^ length cs * 8" by linarith
  then show ?case by (simp add: parse_octal_snoc mult.commute)
qed

lemma padded_le: "n \<le> padded n"
  unfolding padded_def using div_mult_mod_eq [of "n + 511" 512] mod_less_divisor [of 512 "n + 511"] by linarith

text \<open>A header byte outside the checksum field enters the checksum with weight one.\<close>

lemma sum_list_update_at:
  assumes "i < n" and "\<And>j. j < n \<Longrightarrow> j \<noteq> i \<Longrightarrow> f j = (g j :: nat)"
  shows "sum_list (map f [0..<n]) + g i = sum_list (map g [0..<n]) + f i"
proof -
  have f: "sum_list (map h [0..<n]) = sum h {0..<n}" for h :: "nat \<Rightarrow> nat"
    by (simp add: sum_list_sum_nth)
  have "sum f ({0..<n} - {i}) = sum g ({0..<n} - {i})"
    using assms(2) by (intro sum.cong) auto
  moreover have "sum h {0..<n} = h i + sum h ({0..<n} - {i})" for h :: "nat \<Rightarrow> nat"
    using assms(1) by (simp add: sum.remove)
  ultimately show ?thesis by (simp add: f)
qed

lemma checksum_changes:
  assumes "i < 512" and "i < 148 \<or> 156 \<le> i" and "offset + i < length buf" and "b \<noteq> buf ! (offset + i)"
  shows "tar_checksum (buf[offset + i := b]) offset \<noteq> tar_checksum buf offset"
proof -
  let ?f = "\<lambda>xs j. if 148 \<le> j \<and> j < 156 then 32 else xs ! (offset + j)"
  have "sum_list (map (?f (buf[offset + i := b])) [0..<512]) + ?f buf i =
      sum_list (map (?f buf) [0..<512]) + ?f (buf[offset + i := b]) i"
    using assms(1) by (intro sum_list_update_at) auto
  with assms(2-4) show ?thesis by (auto simp: tar_checksum_def)
qed

lemma tar_number_local:
  assumes "j < offset \<or> offset + n \<le> j"
  shows "tar_number (buf[j := b]) offset n = tar_number buf offset n"
proof -
  have "take n (drop offset (buf[j := b])) = take n (drop offset buf)"
    using assms by (auto simp: drop_update_swap take_update_cancel)
  then show ?thesis by (simp add: tar_number_def tar_readString_def)
qed

lemma length_js_trim: "length (js_trim s) \<le> length s"
proof -
  have "length (js_trim s) \<le> length (dropWhile is_space s)"
    unfolding js_trim_def using length_dropWhile_le [of is_space "rev (dropWhile is_space s)"] by simp
  also have "\<dots> \<le> length s" by (rule length_dropWhile_le)
  finally show ?thesis .
qed

lemma tar_number_bound:
  assumes "tar_number buf offset n = Inr v"
  shows "v < 8 ^ n" and "offset + n \<le> length buf"
proof -
  obtain s where s: "tar_readString buf offset n = Inr s" and digits: "list_all octal_digit (js_trim s)" "v = parse_octal (js_trim s)"
    using assms by (auto simp: tar_number_def Let_def split: if_splits)
  from s show len: "offset + n \<le> length buf" by (auto simp: tar_readString_def split: if_splits)
  define bs where "bs = takeWhile (\<lambda>b. b \<noteq> 0) (take n (drop offset buf))"
  from s len have "utf8_encode (utf8_decode_raw bs) = bs" and str: "s = snd (strip_bom False (utf8_decode_raw bs))"
    by (auto simp: tar_readString_def fatal_text_def fatal_decode_def bs_def Let_def split: if_splits)
  have one: "1 \<le> length (utf8_encode1 c)" for c by (simp add: utf8_encode1_def)
  have "length cs \<le> length (utf8_encode cs)" for cs
  proof (induction cs)
    case (Cons c cs)
    have "length (utf8_encode (c # cs)) = length (utf8_encode1 c) + length (utf8_encode cs)" by (simp add: utf8_encode_def)
    with Cons one [of c] show ?case by (simp del: One_nat_def)
  qed simp
  then have "length (utf8_decode_raw bs) \<le> length bs"
    using \<open>utf8_encode (utf8_decode_raw bs) = bs\<close> by metis
  also have "\<dots> \<le> length (take n (drop offset buf))" unfolding bs_def by (rule length_takeWhile_le)
  also have "\<dots> \<le> n" by simp
  finally have "length s \<le> n"
    unfolding str by (auto simp: strip_bom_def split: list.split)
  then have "length (js_trim s) \<le> n" using length_js_trim [of s] by simp
  then have "8 ^ length (js_trim s) \<le> (8 ^ n :: nat)" by (simp add: power_increasing)
  with parse_octal_bound [OF digits(1)] digits(2) show "v < 8 ^ n" by linarith
qed

text \<open>
  C11. A tar header whose size is accepted lies in the archive together with its data and the padding
  to the next block, its size is below \<open>8 ^ 12\<close>, and its checksum field holds the sum of its bytes.
  Changing any single byte of the header outside the checksum field makes it rejected.
\<close>

theorem tar_entry_in_bounds:
  assumes "tar_readFileSize buf offset = Inr n"
  shows "offset + 512 + n \<le> length buf \<and> offset + 512 + padded n \<le> length buf \<and> n < 8 ^ 12 \<and>
         tar_number buf (offset + 148) 8 = Inr (tar_checksum buf offset) \<and>
         (\<forall>i b. i < 512 \<and> (i < 148 \<or> 156 \<le> i) \<and> b \<noteq> buf ! (offset + i) \<longrightarrow>
            (\<exists>e. tar_readFileSize (buf[offset + i := b]) offset = Inl e))"
proof -
  from assms obtain k where k: "tar_number buf (offset + 124) 12 = Inr k"
      "(if k > 2 ^ 53 - 1 \<or> offset + 512 + padded k > length buf then Inl (Error ''Truncated tar file'')
        else bind_c (tar_number buf (offset + 148) 8) (\<lambda>c.
          if tar_checksum buf offset \<noteq> c then Inl (Error ''Invalid tar checksum'') else Inr k)) = Inr n"
    unfolding tar_readFileSize_def by (rule bind_c_InrE)
  then obtain c where c: "tar_number buf (offset + 148) 8 = Inr c" "tar_checksum buf offset = c" "k = n"
    and len: "offset + 512 + padded n \<le> length buf"
    by (auto split: if_splits elim!: bind_c_InrE)
  with k have num: "tar_number buf (offset + 124) 12 = Inr n"
    and sum: "tar_number buf (offset + 148) 8 = Inr (tar_checksum buf offset)" by simp_all
  have "\<exists>e. tar_readFileSize (buf[offset + i := b]) offset = Inl e"
    if i: "i < 512" "i < 148 \<or> 156 \<le> i" "b \<noteq> buf ! (offset + i)" for i b
  proof -
    have "tar_number (buf[offset + i := b]) (offset + 148) 8 = tar_number buf (offset + 148) 8"
      using i(2) by (intro tar_number_local) auto
    moreover have "tar_checksum (buf[offset + i := b]) offset \<noteq> tar_checksum buf offset"
      using i len by (intro checksum_changes) auto
    ultimately show ?thesis
      unfolding tar_readFileSize_def using sum by (cases "tar_number (buf[offset + i := b]) (offset + 124) 12") auto
  qed
  with num len sum tar_number_bound(1) [OF num] padded_le [of n] show ?thesis by auto
qed

definition sample_header :: "nat list" where
  "sample_header =
     replicate 124 0 @ [48, 48, 48, 48, 48, 48, 48, 48, 48, 48, 49, 0] @ replicate 12 0 @
     [48, 48, 49, 52, 50, 49, 0, 32] @ replicate 356 0 @ replicate 512 7"

lemma map_nth_slice:
  "offset + a + n \<le> length buf \<Longrightarrow> map (\<lambda>i. buf ! (offset + i)) [a..<a + n] = take n (drop (offset + a) buf)"
  by (rule nth_equalityI) (auto simp: add.assoc)

lemma upt_three: "[0..<a + b + c] = [0..<a] @ [a..<a + b] @ [a + b..<a + b + c]"
  using upt_add_eq_append [of 0 a "b + c"] upt_add_eq_append [of a "a + b" c] by (simp add: add.assoc)

lemma checksum_split:
  assumes "offset + 512 \<le> length buf"
  shows "tar_checksum buf offset = sum_list (take 148 (drop offset buf)) + 256 + sum_list (take 356 (drop (offset + 156) buf))"
proof -
  let ?f = "\<lambda>i. if 148 \<le> i \<and> i < 156 then 32 else buf ! (offset + i)"
  have low: "map ?f [0..<0 + 148] = map (\<lambda>i. buf ! (offset + i)) [0..<0 + 148]"
    and high: "map ?f [156..<156 + 356] = map (\<lambda>i. buf ! (offset + i)) [156..<156 + 356]"
    and mid: "map ?f [148..<148 + 8] = map (\<lambda>_. 32) [148..<148 + 8]"
    by (rule map_cong, rule refl, simp del: upt_rec_numeral)+
  have "map ?f [0..<0 + 148] = take 148 (drop (offset + 0) buf)"
    unfolding low by (rule map_nth_slice) (use assms in simp)
  moreover have "map ?f [156..<156 + 356] = take 356 (drop (offset + 156) buf)"
    unfolding high by (rule map_nth_slice) (use assms in simp)
  moreover have "[0..<512] = [0..<0 + 148] @ [148..<148 + 8] @ [156..<156 + 356::nat]"
    using upt_three [of 148 8 356] by (simp del: upt_rec_numeral)
  moreover have "sum_list (map (\<lambda>_. 32) [148..<148 + 8]) = (256::nat)" by simp
  ultimately show ?thesis unfolding tar_checksum_def by (simp only: map_append sum_list_append mid add.assoc add_0_right)
qed

theorem tar_entry_in_bounds_witness:
  "tar_readFileSize sample_header 0 = Inr 1 \<and> 512 + 1 \<le> length sample_header"
proof -
  have len: "length sample_header = 1024" by (simp add: sample_header_def)
  have field: "take 12 (drop 124 sample_header) = [48, 48, 48, 48, 48, 48, 48, 48, 48, 48, 49, 0]"
    "take 8 (drop 148 sample_header) = [48, 48, 49, 52, 50, 49, 0, 32]"
    by (simp_all add: sample_header_def)
  have text1: "fatal_text [48, 48, 48, 48, 48, 48, 48, 48, 48, 48, 49] = Inr [48, 48, 48, 48, 48, 48, 48, 48, 48, 48, 49]"
    and text2: "fatal_text [48, 48, 49, 52, 50, 49] = Inr [48, 48, 49, 52, 50, 49]"
    by code_simp+
  have "tar_number sample_header 124 12 = Inr 1"
    using len field text1 by (simp add: tar_number_def tar_readString_def js_trim_def is_space_def octal_digit_def parse_octal_def)
  moreover have "tar_number sample_header 148 8 = Inr 785"
    using len field text2 by (simp add: tar_number_def tar_readString_def js_trim_def is_space_def octal_digit_def parse_octal_def)
  moreover have "tar_checksum sample_header 0 = 785"
    using len by (simp add: checksum_split) (simp add: sample_header_def sum_list_replicate)
  ultimately have "tar_readFileSize sample_header 0 = Inr 1"
    using len by (simp add: tar_readFileSize_def padded_def)
  then show ?thesis using tar_entry_in_bounds [of sample_header 0 1] by simp
qed

subsection \<open>Names\<close>

definition kept :: "tar_entry \<Rightarrow> bool" where
  "kept e \<longleftrightarrow> entry_name e \<noteq> [] \<and> entry_name e \<noteq> [46]"

text \<open>The directory that a list of path components leads to, \<open>None\<close> when it leaves the root.\<close>

fun walk :: "jstr list \<Rightarrow> jstr list \<Rightarrow> jstr list option" where
  "walk at_dir [] = Some at_dir"
| "walk at_dir (c # cs) =
     (if c = [] \<or> c = [46] then walk at_dir cs
      else if c = [46, 46] then (case at_dir of [] \<Rightarrow> None | _ # up \<Rightarrow> walk up cs)
      else walk (c # at_dir) cs)"

lemma walk_plain: "list_all (\<lambda>c. c \<noteq> [] \<and> c \<noteq> [46] \<and> c \<noteq> [46, 46]) cs \<Longrightarrow> walk d cs = Some (rev cs @ d)"
  by (induction cs arbitrary: d) simp_all

lemma safe_name_walk:
  assumes "\<not> unsafe_name n"
  shows "walk [] (split_on 47 n) = Some (rev (split_on 47 n))"
proof -
  have "list_all (\<lambda>c. c \<noteq> [] \<and> c \<noteq> [46] \<and> c \<noteq> [46, 46]) (split_on 47 n)"
    using assms by (auto simp: unsafe_name_def list_all_iff list_ex_iff)
  from walk_plain [OF this] show ?thesis by simp
qed

lemma unpack_invariant:
  assumes "unpack blob es h = Inr h'" and "distinct (map u_name h)" and "\<forall>u \<in> set h. \<not> unsafe_name (u_name u)"
  shows "distinct (map u_name h') \<and> (\<forall>u \<in> set h'. \<not> unsafe_name (u_name u)) \<and>
     h' = h @ map (unpack_entry blob) (filter kept es)"
  using assms
proof (induction es arbitrary: h)
  case (Cons e es)
  show ?case
  proof (cases "kept e")
    case False
    with Cons show ?thesis by (auto simp: kept_def Let_def)
  next
    case True
    from True Cons.prems(1) have safe: "\<not> unsafe_name (entry_name e)" "entry_name e \<notin> u_name ` set h"
      and rest: "unpack blob es (h @ [unpack_entry blob e]) = Inr h'"
      by (auto simp: kept_def Let_def split: if_splits)
    have "distinct (map u_name (h @ [unpack_entry blob e]))" "\<forall>u \<in> set (h @ [unpack_entry blob e]). \<not> unsafe_name (u_name u)"
      using Cons.prems(2,3) safe by (auto simp: unpack_entry_def)
    from Cons.IH [OF rest this] have ih: "distinct (map u_name h')" "\<forall>u \<in> set h'. \<not> unsafe_name (u_name u)"
      "h' = (h @ [unpack_entry blob e]) @ map (unpack_entry blob) (filter kept es)" by blast+
    from ih(3) True have "h' = h @ map (unpack_entry blob) (filter kept (e # es))" by simp
    with ih(1,2) show ?thesis by blast
  qed
qed simp

text \<open>
  C10. When the archive is unpacked without an error, every entry except the root is in the file map under
  its normalised name, in archive order, with its own contents, type and size; the names are distinct, contain
  no control character and no backslash, and lead from the root to a place below it. Two entries
  with one name are refused.
\<close>

theorem boot_paths_safe:
  assumes "unpack blob es [] = Inr h"
  shows "map (\<lambda>u. (u_name u, u_blob u, u_dir u, u_size u)) h =
      map (\<lambda>e. (entry_name e, blob (te_name e), te_dir e, te_size e)) (filter kept es) \<and>
         distinct (map u_name h) \<and>
         (\<forall>u \<in> set h. walk [] (split_on 47 (u_name u)) = Some (rev (split_on 47 (u_name u))) \<and>
            list_all (\<lambda>c. 32 \<le> c \<and> c \<noteq> 92) (u_name u)) \<and>
         (\<forall>e \<in> set (filter kept es). \<exists>err. unpack blob (es @ [e]) [] = Inl err)"
proof -
  from unpack_invariant [OF assms] have inv: "distinct (map u_name h)" "\<forall>u \<in> set h. \<not> unsafe_name (u_name u)"
    and h: "h = map (unpack_entry blob) (filter kept es)"
    by auto
  have append: "unpack blob (xs @ ys) g = bind_c (unpack blob xs g) (unpack blob ys)" for xs ys g
    by (induction xs arbitrary: g) (simp_all add: Let_def)
  have "\<exists>err. unpack blob (es @ [e]) [] = Inl err" if "e \<in> set (filter kept es)" for e
  proof -
    from that h have "entry_name e \<in> u_name ` set h" and "kept e" by (force simp: unpack_entry_def)+
    then show ?thesis using assms by (simp add: append kept_def Let_def)
  qed
  moreover have "list_all (\<lambda>c. 32 \<le> c \<and> c \<noteq> 92) (u_name u)" if "u \<in> set h" for u
    using inv(2) that by (auto simp: unsafe_name_def list_all_iff list_ex_iff not_less)
  moreover have "map (\<lambda>u. (u_name u, u_blob u, u_dir u, u_size u)) h =
      map (\<lambda>e. (entry_name e, blob (te_name e), te_dir e, te_size e)) (filter kept es)"
    by (simp add: h comp_def unpack_entry_def)
  ultimately show ?thesis using inv safe_name_walk by blast
qed

theorem boot_paths_safe_witness:
  "\<exists>h. unpack (\<lambda>n. n) [\<lparr>te_name = js ''./'', te_dir = True, te_size = 0\<rparr>, \<lparr>te_name = js ''./a/b'', te_dir = False, te_size = 3\<rparr>] [] = Inr h \<and>
       map (\<lambda>u. (u_name u, u_blob u, u_dir u, u_size u)) h = [(js ''a/b'', js ''./a/b'', False, 3)] \<and> distinct (map u_name h)"
proof -
  let ?es = "[\<lparr>te_name = js ''./'', te_dir = True, te_size = 0\<rparr>, \<lparr>te_name = js ''./a/b'', te_dir = False, te_size = 3\<rparr>]"
    and ?h = "[\<lparr>u_name = js ''a/b'', u_blob = js ''./a/b'', u_dir = False, u_size = 3\<rparr>]"
  have "unpack (\<lambda>n. n) ?es [] = Inr ?h" by code_simp
  with boot_paths_safe [OF this] show ?thesis by auto
qed

subsection \<open>The allocator\<close>

lemma align16_bounds:
  assumes "0 \<le> n" "n < 2 ^ 31 - 15"
  shows "n \<le> align16 n" "align16 n < n + 16" "align16 n mod 16 = 0"
proof -
  have "wrap32 (n + 15) = n + 15" using assms by (intro wrap32_id) simp_all
  then have a: "align16 n = (n + 15) div 16 * 16" by (simp add: align16_def)
  have "(n + 15) div 16 * 16 + (n + 15) mod 16 = n + 15" by simp
  moreover have "0 \<le> (n + 15) mod 16" "(n + 15) mod 16 < 16" by simp_all
  ultimately show "n \<le> align16 n" "align16 n < n + 16" unfolding a by linarith+
  show "align16 n mod 16 = 0" unfolding a by simp
qed

text \<open>The memory consists of whole pages and covers everything handed out.\<close>

definition inflate_inv :: "inflate \<Rightarrow> bool" where
  "inflate_inv s \<longleftrightarrow> 0 \<le> memoryHead s \<and> memoryHead s \<le> memoryBytes s \<and> memoryBytes s mod 65536 = 0 \<and> memoryBytes s < 2 ^ 32"

lemma ushr16_id: "0 \<le> n \<Longrightarrow> n < 2 ^ 32 \<Longrightarrow> ushr16 n = n div 65536"
  by (simp add: ushr16_def)

lemma wasmalloc_step:
  assumes "inflate_inv s" and "0 \<le> n" "n < 2 ^ 31 - 15" and "memoryHead s + align16 n + 65535 < 2 ^ 32"
    and "wasmalloc most n s = Inr (p, s1)"
  shows "p = memoryHead s" "memoryHead s1 = memoryHead s + align16 n" "inflate_inv s1" "memoryBytes s \<le> memoryBytes s1"
proof -
  note al = align16_bounds [OF assms(2,3)]
  define top where "top = memoryHead s + align16 n"
  define q where "q = memoryBytes s div 65536"
  have bytes: "memoryBytes s = q * 65536"
    using assms(1) div_mult_mod_eq [of "memoryBytes s" 65536] by (simp add: inflate_inv_def q_def)
  have head: "0 \<le> memoryHead s" "memoryHead s \<le> memoryBytes s" "memoryBytes s < 2 ^ 32" "0 \<le> top" "top + 65535 < 2 ^ 32"
    using assms al by (simp_all add: inflate_inv_def top_def)
  define r where "r = (top + 65535) div 65536"
  have needed: "ushr16 (top + 65535) = r" "ushr16 (memoryBytes s) = q"
    using head by (simp_all add: ushr16_id r_def q_def)
  have "65536 * r + (top + 65535) mod 65536 = top + 65535" by (simp add: r_def)
  moreover have "0 \<le> (top + 65535) mod 65536" "(top + 65535) mod 65536 < 65536" by simp_all
  ultimately have r: "top \<le> r * 65536" "r * 65536 < 2 ^ 32" using head by linarith+
  from assms(5) have s1: "p = memoryHead s"
      "s1 = s\<lparr>memoryHead := top, memoryBytes := (if r > q then memoryBytes s + (r - q) * 65536 else memoryBytes s)\<rparr>"
    by (auto simp: wasmalloc_def Let_def needed top_def [symmetric] split: if_splits)
  then show "p = memoryHead s" "memoryHead s1 = memoryHead s + align16 n" by (simp_all add: top_def)
  show "inflate_inv s1" "memoryBytes s \<le> memoryBytes s1"
    using s1(2) r head bytes by (auto simp: inflate_inv_def algebra_simps)
qed

lemma wasmallocs_disjoint_aux:
  assumes "inflate_inv s" and "list_all (\<lambda>n. 0 \<le> n \<and> n < 2 ^ 31 - 15) ns"
    and "memoryHead s + sum_list (map align16 ns) + 65535 < 2 ^ 32"
    and "wasmallocs most ns s = Inr (ps, s1)"
  shows "length ps = length ns \<and> inflate_inv s1 \<and> memoryBytes s \<le> memoryBytes s1 \<and> memoryHead s \<le> memoryHead s1 \<and>
     (\<forall>i < length ns. memoryHead s \<le> ps ! i \<and> ps ! i + ns ! i \<le> memoryHead s1 \<and>
        ps ! i mod 16 = memoryHead s mod 16) \<and>
     (\<forall>i j. i < j \<and> j < length ns \<longrightarrow> ps ! i + ns ! i \<le> ps ! j)"
  using assms
proof (induction ns arbitrary: s ps)
  case (Cons n ns)
  from Cons.prems(4) obtain p s' qs where step: "wasmalloc most n s = Inr (p, s')"
    and rest: "wasmallocs most ns s' = Inr (qs, s1)" and ps: "ps = p # qs"
    by (auto elim!: bind_c_InrE split: prod.splits)
  have n: "0 \<le> n" "n < 2 ^ 31 - 15" using Cons.prems(2) by simp_all
  have nn: "0 \<le> sum_list (map align16 ns)"
    using Cons.prems(2) by (intro sum_list_nonneg) (auto simp: list_all_iff dest!: bspec intro: order_trans [OF _ align16_bounds(1)])
  note al = align16_bounds [OF n]
  have top: "memoryHead s + align16 n + 65535 < 2 ^ 32" using Cons.prems(3) nn by simp
  note st = wasmalloc_step [OF Cons.prems(1) n top step]
  have "list_all (\<lambda>n. 0 \<le> n \<and> n < 2 ^ 31 - 15) ns" "memoryHead s' + sum_list (map align16 ns) + 65535 < 2 ^ 32"
    using Cons.prems(2,3) st(2) by simp_all
  note ih = Cons.IH [OF st(3) this rest]
  have head: "memoryHead s' mod 16 = memoryHead s mod 16"
    using al(3) st(2) by (metis add.right_neutral mod_add_right_eq)
  have first: "memoryHead s \<le> p \<and> p + n \<le> memoryHead s' \<and> p mod 16 = memoryHead s mod 16"
    using st(1,2) al(1) by simp
  have "memoryHead s \<le> ps ! i \<and> ps ! i + (n # ns) ! i \<le> memoryHead s1 \<and> ps ! i mod 16 = memoryHead s mod 16"
    if "i < length (n # ns)" for i
    using that ih first head st(2) al(1) n by (cases i) (auto simp: ps)
  moreover have "ps ! i + (n # ns) ! i \<le> ps ! j" if "i < j" "j < length (n # ns)" for i j
    using that ih first by (cases i; cases j) (auto simp: ps intro: order_trans)
  ultimately show ?case using ih st ps al(1) n by auto
qed simp

text \<open>
  C12. The blocks that the decompressor allocates one after the other, as long as their total stays below
  4 GiB, start at the alignment of the heap base, do not overlap, and lie inside the memory, which
  has grown by whole pages.
\<close>

theorem wasmalloc_disjoint:
  assumes "0 \<le> memoryHead s" "memoryHead s \<le> memoryBytes s" "memoryBytes s mod 65536 = 0" "memoryBytes s < 2 ^ 32"
    and "list_all (\<lambda>n. 0 \<le> n \<and> n < 2 ^ 31 - 15) ns" "memoryHead s + sum_list (map align16 ns) + 65535 < 2 ^ 32"
    and "wasmallocs most ns s = Inr (ps, s1)"
  shows "length ps = length ns \<and> memoryBytes s1 mod 65536 = 0 \<and>
     (\<forall>i < length ns. memoryHead s \<le> ps ! i \<and> ps ! i + ns ! i \<le> memoryBytes s1 \<and>
        ps ! i mod 16 = memoryHead s mod 16) \<and>
     (\<forall>i j. i < j \<and> j < length ns \<longrightarrow> ps ! i + ns ! i \<le> ps ! j)"
proof -
  have "inflate_inv s" using assms by (simp add: inflate_inv_def)
  from wasmallocs_disjoint_aux [OF this assms(5-7)]
  have aux: "length ps = length ns" "inflate_inv s1"
    "\<forall>i < length ns. memoryHead s \<le> ps ! i \<and> ps ! i + ns ! i \<le> memoryHead s1 \<and> ps ! i mod 16 = memoryHead s mod 16"
    "\<forall>i j. i < j \<and> j < length ns \<longrightarrow> ps ! i + ns ! i \<le> ps ! j" by blast+
  then have "memoryHead s1 \<le> memoryBytes s1" "memoryBytes s1 mod 65536 = 0" by (simp_all add: inflate_inv_def)
  with aux show ?thesis by (meson order_trans)
qed

theorem wasmalloc_disjoint_witness:
  "\<exists>ps s1. wasmallocs 100 [10, 70000, 0, 5] \<lparr>memoryHead = 1024, memoryBytes = 65536, inputOffset = 0, outputChunks = []\<rparr> = Inr (ps, s1) \<and>
     ps ! 1 + 70000 \<le> ps ! 3 \<and> ps ! 3 + 5 \<le> memoryBytes s1"
proof -
  let ?s = "\<lparr>memoryHead = 1024, memoryBytes = 65536, inputOffset = 0, outputChunks = []\<rparr>"
  have "isl (wasmallocs 100 [10, 70000, 0, 5] ?s) = False" by code_simp
  then obtain ps s1 where run: "wasmallocs 100 [10, 70000, 0, 5] ?s = Inr (ps, s1)"
    by (cases "wasmallocs 100 [10, 70000, 0, 5] ?s") auto
  have small: "memoryHead ?s + sum_list (map align16 [10, 70000, 0, 5]) + 65535 < 2 ^ 32" by code_simp
  have props: "(\<forall>i < 4. memoryHead ?s \<le> ps ! i \<and> ps ! i + [10, 70000, 0, 5] ! i \<le> memoryBytes s1 \<and>
        ps ! i mod 16 = memoryHead ?s mod 16) \<and>
     (\<forall>i j. i < j \<and> j < 4 \<longrightarrow> ps ! i + [10, 70000, 0, 5] ! i \<le> ps ! j)"
    using wasmalloc_disjoint [OF _ _ _ _ _ small run] by simp
  have "ps ! 1 + 70000 \<le> ps ! 3" using props [THEN conjunct2, rule_format, of 1 3] by simp
  moreover have "ps ! 3 + 5 \<le> memoryBytes s1" using props [THEN conjunct1, rule_format, of 3] by simp
  ultimately show ?thesis using run by blast
qed

text \<open>The decompressor is given the compressed bytes in order, without a gap.\<close>

lemma input_chunk_prefix:
  assumes "input_chunk compressed buf buflen (mem, s) = Inr (n, mem1, s1)" "inputOffset s \<le> length compressed"
  shows "length mem1 = length mem \<and>
    take (inputOffset s1) compressed = take (inputOffset s) compressed @ take (nat n) (drop (nat buf) mem1)"
proof (cases "int (length compressed) - int (inputOffset s) \<le> 0")
  case False
  define k where "k = min (int (length compressed) - int (inputOffset s)) buflen"
  from False assms(1) have k: "0 \<le> buf" "0 \<le> k" "buf + k \<le> int (length mem)" "n = k"
    "mem1 = take (nat buf) mem @ take (nat k) (drop (inputOffset s) compressed) @ drop (nat (buf + k)) mem"
    "inputOffset s1 = inputOffset s + nat k"
    by (auto simp: input_chunk_def k_def Let_def split: if_splits)
  have "nat k \<le> length compressed - inputOffset s" by (simp add: k_def)
  with k show ?thesis by (auto simp: take_add nat_le_iff)
qed (use assms in \<open>simp add: input_chunk_def Let_def\<close>)

end
