(* ===== verification/Browser_Native.thy ===== *)
theory Browser_Native
  imports Worker_Report
begin

text \<open>
  The in-browser runner of repository fixtures, \<open>runBrowserNative\<close> of \<open>worker.js\<close>: the small host interface
  of descriptors, pipes and child processes that it gives to a fixture, the execution of the steps of
  a fixture, and the report. JavaScript shares one object between the two ends of a pipe and the
  duplicates of a descriptor, so descriptors refer to a store of objects. WebAssembly functions of
  the fixture are a parameter.
\<close>

subsection \<open>Base64\<close>

text \<open>\<open>atob\<close> of the platform: white space is dropped, then at most two \<open>=\<close> of a complete text.\<close>

definition b64_value :: "nat \<Rightarrow> nat completion" where
  "b64_value c =
     (if 65 \<le> c \<and> c \<le> 90 then Inr (c - 65) else if 97 \<le> c \<and> c \<le> 122 then Inr (c - 71)
      else if 48 \<le> c \<and> c \<le> 57 then Inr (c + 4) else if c = 43 then Inr 62 else if c = 47 then Inr 63
      else Inl (Error ''InvalidCharacterError''))"

definition strip_padding :: "jstr \<Rightarrow> jstr" where
  "strip_padding t =
     (let r = rev t
      in if length t mod 4 \<noteq> 0 then t
         else case r of [] \<Rightarrow> t | c # r1 \<Rightarrow>
           if c \<noteq> 61 then t else (case r1 of [] \<Rightarrow> [] | d # r2 \<Rightarrow> if d = 61 then rev r2 else rev r1))"

fun b64_values :: "jstr \<Rightarrow> nat list completion" where
  "b64_values [] = Inr []"
| "b64_values (c # cs) = bind_c (b64_value c) (\<lambda>v. bind_c (b64_values cs) (\<lambda>vs. Inr (v # vs)))"

fun b64_bytes :: "nat list \<Rightarrow> nat list completion" where
  "b64_bytes [] = Inr []"
| "b64_bytes [a] = Inl (Error ''InvalidCharacterError'')"
| "b64_bytes [a, b] = Inr [a * 4 + b div 16]"
| "b64_bytes [a, b, c] = Inr [a * 4 + b div 16, b mod 16 * 16 + c div 4]"
| "b64_bytes (a # b # c # d # vs) =
     bind_c (b64_bytes vs) (\<lambda>bs. Inr ([a * 4 + b div 16, b mod 16 * 16 + c div 4, c mod 4 * 64 + d] @ bs))"

definition atob :: "jstr \<Rightarrow> nat list completion" where
  "atob t = bind_c (b64_values (strip_padding (filter (\<lambda>c. c \<notin> {9, 10, 12, 13, 32}) t))) b64_bytes"

text \<open>The char codes of \<open>raw\<close>, stored in a byte array.\<close>

definition decodeB64 :: "jstr \<Rightarrow> nat list completion" where
  "decodeB64 t = bind_c (atob t) (\<lambda>raw. Inr (map (\<lambda>c. c mod 256) raw))"

subsection \<open>The host interface\<close>

record fobject =
  o_data :: "nat list"
  o_offset :: int
  o_pipe :: bool

record child =
  c_number :: nat
  c_waits :: nat
  c_signal :: int

text \<open>
  \<open>memories\<close> are the memories of the fixture, the first one \<open>sharedMemory\<close>; \<open>active\<close> is the index of
  \<open>activeMemory\<close>, which is \<open>null\<close> until the first step.
\<close>

record native =
  memories :: "nat list list"
  active :: "nat option"
  nextFd :: int
  nextPid :: int
  forkNumber :: nat
  objects :: "fobject list"
  descriptors :: "int \<rightharpoonup> nat"
  children :: "int \<rightharpoonup> child"

definition new_native :: native where
  "new_native = \<lparr>memories = [replicate 65536 0], active = None, nextFd = 3, nextPid = 2, forkNumber = 0, objects = [],
     descriptors = Map.empty, children = Map.empty\<rparr>"

type_synonym host_call = "native \<Rightarrow> int completion \<times> native"

definition active_bytes :: "native \<Rightarrow> nat list completion" where
  "active_bytes s =
     (case active s of None \<Rightarrow> Inl (TypeError ''Cannot read properties of null'') | Some m \<Rightarrow> Inr (memories s ! m))"

text \<open>\<open>bytes().set(data, ptr)\<close>; \<open>DataView.setInt32\<close> writes four bytes.\<close>

definition set_bytes :: "int \<Rightarrow> nat list \<Rightarrow> native \<Rightarrow> native completion" where
  "set_bytes p bs s =
     (case active s of
        None \<Rightarrow> Inl (TypeError ''Cannot read properties of null'')
      | Some m \<Rightarrow>
          let mem = memories s ! m
          in if p < 0 \<or> nat p + length bs > length mem then Inl (RangeError ''offset is out of bounds'')
             else Inr (s\<lparr>memories := (memories s)[m := take (nat p) mem @ bs @ drop (nat p + length bs) mem]\<rparr>))"

definition writeI32 :: "int \<Rightarrow> int \<Rightarrow> native \<Rightarrow> native completion" where
  "writeI32 p v s = set_bytes p (le32 v) s"

definition allocFd :: "nat \<Rightarrow> native \<Rightarrow> int \<times> native" where
  "allocFd k s = (nextFd s, s\<lparr>nextFd := nextFd s + 1, descriptors := (descriptors s)(nextFd s \<mapsto> k)\<rparr>)"

definition new_object :: "bool \<Rightarrow> native \<Rightarrow> nat \<times> native" where
  "new_object p s = (length (objects s), s\<lparr>objects := objects s @ [\<lparr>o_data = [], o_offset = 0, o_pipe = p\<rparr>]\<rparr>)"

text \<open>The path is only decoded, which needs a memory and has no effect.\<close>

definition native_open :: host_call where
  "native_open s =
     (case active_bytes s of
        Inl e \<Rightarrow> (Inl e, s)
      | Inr _ \<Rightarrow> let (k, s1) = new_object False s; (fd, s2) = allocFd k s1 in (Inr fd, s2))"

definition native_close :: "int \<Rightarrow> host_call" where
  "native_close fd s = (Inr 0, s\<lparr>descriptors := (descriptors s)(fd := None)\<rparr>)"

definition set_object :: "nat \<Rightarrow> fobject \<Rightarrow> native \<Rightarrow> native" where
  "set_object k d s = s\<lparr>objects := (objects s)[k := d]\<rparr>"

definition pipe_write :: "nat \<Rightarrow> nat list \<Rightarrow> int \<Rightarrow> host_call" where
  "pipe_write k inp count s =
     (let d = objects s ! k
      in if count < 0 then (Inl (RangeError ''Invalid typed array length''), s)
         else (Inr count, set_object k (d\<lparr>o_data := o_data d @ inp @ replicate (nat count - length inp) 0\<rparr>) s))"

text \<open>
  Offsets are JavaScript numbers: \<open>Number\<close> of a BigInt and sums of offsets are rounded to binary64. A typed array has fewer than
  \<open>2 ^ 53\<close> elements, so within the data the arithmetic on offsets is exact.
\<close>

definition bigint_number :: "int \<Rightarrow> int" where
  "bigint_number k = \<lfloor>js_round (of_int k)\<rfloor>"

definition offset_number :: "fobject \<Rightarrow> int \<Rightarrow> int" where
  "offset_number d k = (if 0 \<le> o_offset d \<and> o_offset d \<le> int (length (o_data d)) then k else bigint_number k)"

definition file_write :: "nat \<Rightarrow> nat list \<Rightarrow> int \<Rightarrow> host_call" where
  "file_write k inp count s =
     (let d = objects s ! k; needed = offset_number d (o_offset d + count);
          grown = o_data d @ replicate (nat needed - length (o_data d)) 0
      in if needed > 2 ^ 53 - 1 \<and> int (length (o_data d)) < needed
         then (Inl (RangeError ''Invalid typed array length''), s)
         else if o_offset d < 0 \<or> nat (o_offset d) + length inp > length grown
         then (Inl (RangeError ''offset is out of bounds''), set_object k (d\<lparr>o_data := grown\<rparr>) s)
         else (Inr count, set_object k (d\<lparr>
                o_data := take (nat (o_offset d)) grown @ inp @ drop (nat (o_offset d) + length inp) grown,
                o_offset := needed\<rparr>) s))"

definition native_write :: "int \<Rightarrow> int \<Rightarrow> int \<Rightarrow> host_call" where
  "native_write fd p count s =
     (case descriptors s fd of
        None \<Rightarrow> (Inr (-1), s)
      | Some k \<Rightarrow>
          (case active_bytes s of
             Inl e \<Rightarrow> (Inl e, s)
           | Inr mem \<Rightarrow>
               let inp = subarray mem p (p + count)
               in if o_pipe (objects s ! k) then pipe_write k inp count s else file_write k inp count s))"

definition native_read :: "int \<Rightarrow> int \<Rightarrow> int \<Rightarrow> host_call" where
  "native_read fd p count s =
     (case descriptors s fd of
        None \<Rightarrow> (Inr (-1), s)
      | Some k \<Rightarrow>
          let d = objects s ! k; n = min count (offset_number d (int (length (o_data d)) - o_offset d));
              stop = offset_number d (o_offset d + n)
          in case set_bytes p (subarray (o_data d) (o_offset d) stop) s of
               Inl e \<Rightarrow> (Inl e, s)
             | Inr s1 \<Rightarrow> (Inr n, set_object k (d\<lparr>o_offset := stop\<rparr>) s1))"

text \<open>The result is the BigInt; its conversion to the 64 bits of the signature is made by the WebAssembly engine.\<close>

definition native_lseek :: "int \<Rightarrow> int \<Rightarrow> int \<Rightarrow> host_call" where
  "native_lseek fd n whence s =
     (case descriptors s fd of
        None \<Rightarrow> (Inr (-1), s)
      | Some k \<Rightarrow>
          let d = objects s ! k; m = bigint_number n;
              pos = (if whence = 0 then m else if whence = 1 then bigint_number (o_offset d + m) else bigint_number (int (length (o_data d)) + m))
          in (Inr pos, set_object k (d\<lparr>o_offset := pos\<rparr>) s))"

definition native_pipe :: "int \<Rightarrow> host_call" where
  "native_pipe p s =
     (let (k, s1) = new_object True s; (readFd, s2) = allocFd k s1; (writeFd, s3) = allocFd k s2
      in case writeI32 p readFd s3 of
           Inl e \<Rightarrow> (Inl e, s3)
         | Inr s4 \<Rightarrow> (case writeI32 (p + 4) writeFd s4 of Inl e \<Rightarrow> (Inl e, s4) | Inr s5 \<Rightarrow> (Inr 0, s5)))"

definition native_dup :: "int \<Rightarrow> host_call" where
  "native_dup fd s =
     (case descriptors s fd of None \<Rightarrow> (Inr (-1), s) | Some k \<Rightarrow> (let (fd1, s1) = allocFd k s in (Inr fd1, s1)))"

definition native_fork :: host_call where
  "native_fork s =
     (Inr (nextPid s), s\<lparr>nextPid := nextPid s + 1, forkNumber := forkNumber s + 1,
        children := (children s)(nextPid s \<mapsto> \<lparr>c_number = forkNumber s + 1, c_waits = 0, c_signal = 0\<rparr>)\<rparr>)"

definition native_kill :: "bool \<Rightarrow> int \<Rightarrow> int \<Rightarrow> host_call" where
  "native_kill is_group pid sig s =
     (Inr 0, case children s pid of
        None \<Rightarrow> s
      | Some c \<Rightarrow> if \<not> is_group \<and> sig = 18 then s else s\<lparr>children := (children s)(pid \<mapsto> c\<lparr>c_signal := sig\<rparr>)\<rparr>)"

definition wait_status :: "int \<Rightarrow> child \<Rightarrow> int" where
  "wait_status options c =
     (if options div 2 mod 2 = 1 then 19 * 256 + 127
      else if c_signal c \<noteq> 0 then c_signal c
      else (if c_number c = 1 then 7 else if c_number c = 2 then 3 else 0) * 256)"

definition native_waitpid :: "int \<Rightarrow> int \<Rightarrow> int \<Rightarrow> host_call" where
  "native_waitpid pid p options s =
     (case children s pid of
        None \<Rightarrow> (Inr (-1), s)
      | Some c \<Rightarrow>
          let s1 = s\<lparr>children := (children s)(pid \<mapsto> c\<lparr>c_waits := c_waits c + 1\<rparr>)\<rparr>
          in case writeI32 p (wait_status options c) s1 of Inl e \<Rightarrow> (Inl e, s1) | Inr s2 \<Rightarrow> (Inr pid, s2))"

subsection \<open>Steps and report\<close>

text \<open>Numbers that JSON cannot express, the infinities and not-a-number, are one value.\<close>

datatype js_value = Undefined | Number_value rat | Special_number | BigInt_value int

record typed_value =
  v_i64 :: bool
  v_value :: rat

record fixture_step =
  st_module :: "jstr option"
  st_func :: jstr
  st_args :: "typed_value list"
  st_expect :: "typed_value list"

record fixture_module =
  m_wasm :: jstr
  m_id :: jstr

record fixture =
  fx_error :: jstr
  fx_modules :: "fixture_module list"
  fx_steps :: "fixture_step list"

text \<open>\<open>BigInt(arg.value)\<close> for an i64, which throws on a fraction.\<close>

definition js_arg :: "typed_value \<Rightarrow> js_value completion" where
  "js_arg a =
     (if \<not> v_i64 a then Inr (Number_value (v_value a))
      else if of_int \<lfloor>v_value a\<rfloor> = v_value a then Inr (BigInt_value \<lfloor>v_value a\<rfloor>)
      else Inl (RangeError ''The number cannot be converted to a BigInt''))"

fun js_args :: "typed_value list \<Rightarrow> js_value list completion" where
  "js_args [] = Inr []"
| "js_args (a # as) = bind_c (js_arg a) (\<lambda>v. bind_c (js_args as) (\<lambda>vs. Inr (v # vs)))"

definition step_passes :: "typed_value list \<Rightarrow> js_value \<Rightarrow> bool completion" where
  "step_passes expected actual =
     (case expected of [] \<Rightarrow> Inr True | [x] \<Rightarrow> bind_c (js_arg x) (\<lambda>v. Inr (actual = v)) | _ \<Rightarrow> Inr False)"

text \<open>
  What WebAssembly contributes: instantiation of a module with the imports above, which memory an
  instance exports as \<open>__waste_memory\<close>, whether it exports a function, and the call of one; instantiation
  and calls may call the host. \<open>shown\<close> and \<open>shown_error\<close> are the conversions to text.
\<close>

record 'i wasm =
  instantiate :: "nat list \<Rightarrow> native \<Rightarrow> 'i completion \<times> native"
  waste_memory :: "'i \<Rightarrow> nat option"
  has_function :: "'i \<Rightarrow> jstr \<Rightarrow> bool"
  call_function :: "'i \<Rightarrow> jstr \<Rightarrow> js_value list \<Rightarrow> native \<Rightarrow> js_value completion \<times> native"
  shown :: "js_value \<Rightarrow> jstr"
  shown_error :: "js_error \<Rightarrow> jstr"

fun load_modules :: "'i wasm \<Rightarrow> fixture_module list \<Rightarrow> native \<Rightarrow> ((jstr \<times> 'i) list \<times> native) completion" where
  "load_modules W [] s = Inr ([], s)"
| "load_modules W (m # rest) s =
     bind_c (decodeB64 (m_wasm m)) (\<lambda>code.
       case instantiate W code s of
         (Inl e, _) \<Rightarrow> Inl e
       | (Inr i, s1) \<Rightarrow> bind_c (load_modules W rest s1) (\<lambda>(is, s2). Inr ((m_id m, i) # is, s2)))"

text \<open>The last module of a name replaces the earlier ones; an empty or absent name is falsy.\<close>

definition step_instance :: "(jstr \<times> 'i) list \<Rightarrow> fixture_step \<Rightarrow> 'i option" where
  "step_instance is st =
     (case st_module st of
        Some n \<Rightarrow> if n = [] then (if is = [] then None else Some (snd (last is))) else map_of (rev is) n
      | None \<Rightarrow> if is = [] then None else Some (snd (last is)))"

definition step_error :: "'i wasm \<Rightarrow> typed_value list \<Rightarrow> js_value \<Rightarrow> jstr" where
  "step_error W expected actual =
     js ''expected '' @ (case expected of [] \<Rightarrow> js ''undefined'' | x # _ \<Rightarrow> shown W (Number_value (v_value x))) @
     js '', got '' @ shown W actual"

definition run_step :: "'i wasm \<Rightarrow> (jstr \<times> 'i) list \<Rightarrow> fixture_step \<Rightarrow> native \<Rightarrow> (asserted \<times> native) completion" where
  "run_step W is st s =
     (case step_instance is st of
        None \<Rightarrow> Inl (Error ''unknown module'')
      | Some i \<Rightarrow>
          let s0 = s\<lparr>active := Some (case waste_memory W i of Some m \<Rightarrow> m | None \<Rightarrow> 0)\<rparr>
          in if \<not> has_function W i (st_func st) then Inl (Error ''export not found'')
             else bind_c (js_args (st_args st)) (\<lambda>args.
               case call_function W i (st_func st) args s0 of
                 (Inl e, s1) \<Rightarrow> Inr (\<lparr>a_pass = False, a_func = st_func st, a_error = shown_error W e\<rparr>, s1)
               | (Inr actual, s1) \<Rightarrow>
                   bind_c (step_passes (st_expect st) actual) (\<lambda>ok.
                     Inr (\<lparr>a_pass = ok, a_func = st_func st,
                           a_error = (if ok then [] else step_error W (st_expect st) actual)\<rparr>, s1))))"

fun run_steps :: "'i wasm \<Rightarrow> (jstr \<times> 'i) list \<Rightarrow> fixture_step list \<Rightarrow> native \<Rightarrow> asserted list completion" where
  "run_steps W is [] s = Inr []"
| "run_steps W is (st # sts) s =
     bind_c (run_step W is st s) (\<lambda>(r, s1). bind_c (run_steps W is sts s1) (\<lambda>rs. Inr (r # rs)))"

text \<open>The error text of a fixture that could not be prepared is ASCII.\<close>

definition runBrowserNative :: "'i wasm \<Rightarrow> fixture \<Rightarrow> asserted list completion" where
  "runBrowserNative W fx =
     (if fx_error fx \<noteq> [] then Inl (Error (map char_of (fx_error fx)))
      else bind_c (load_modules W (fx_modules fx) new_native) (\<lambda>(is, s). run_steps W is (fx_steps fx) s))"

text \<open>The message \<open>done\<close> that answers \<open>browser-native-start\<close>.\<close>

definition native_done :: "'i wasm \<Rightarrow> fixture \<Rightarrow> response" where
  "native_done W fx =
     (case runBrowserNative W fx of
        Inl e \<Rightarrow> no_response\<lparr>r_ok := Some False, r_error := shown_error W e\<rparr>
      | Inr rs \<Rightarrow>
          let passed = length (filter a_pass rs); n = int (length (fx_modules fx))
          in no_response\<lparr>r_ok := Some (passed = length rs), r_total := Some (int (length rs)), r_passed := Some (int passed),
               r_results := Some (map a_pass rs), r_completed := Some True,
               r_setup := Some \<lparr>s_complete = True, s_total = Some n, s_passed = Some n, s_failures = Some 0\<rparr>\<rparr>)"

end
