(* ===== verification/Native_Props.thy ===== *)
theory Native_Props
  imports Browser_Native
begin

text \<open>
  Properties of the fixture runner: the descriptor table stays well-formed under every sequence of host
  calls, what is written to a pipe is read back at its other end, a read beyond the end of a file, and
  the agreement of the fixture report with the batch controller.
\<close>

subsection \<open>The descriptor table\<close>

definition native_inv :: "native \<Rightarrow> bool" where
  "native_inv s \<longleftrightarrow>
     3 \<le> nextFd s \<and> 2 \<le> nextPid s \<and> nextPid s = int (forkNumber s) + 2 \<and>
     (\<forall>fd k. descriptors s fd = Some k \<longrightarrow> 3 \<le> fd \<and> fd < nextFd s \<and> k < length (objects s)) \<and>
     (\<forall>pid c. children s pid = Some c \<longrightarrow> 2 \<le> pid \<and> pid < nextPid s \<and> int (c_number c) = pid - 1)"

text \<open>The last rule is what the fixture itself does to its memories, and the runner to \<open>activeMemory\<close>.\<close>

inductive host_step :: "native \<Rightarrow> native \<Rightarrow> bool" where
  "host_step s (snd (native_open s))"
| "host_step s (snd (native_close fd s))"
| "host_step s (snd (native_write fd p count s))"
| "host_step s (snd (native_read fd p count s))"
| "host_step s (snd (native_lseek fd n whence s))"
| "host_step s (snd (native_pipe p s))"
| "host_step s (snd (native_dup fd s))"
| "host_step s (snd (native_fork s))"
| "host_step s (snd (native_kill b pid sig s))"
| "host_step s (snd (native_waitpid pid p options s))"
| "host_step s (s\<lparr>memories := mems, active := m\<rparr>)"

text \<open>Calls that only change the memory and the contents of objects.\<close>

definition same_table :: "native \<Rightarrow> native \<Rightarrow> bool" where
  "same_table s s1 \<longleftrightarrow> nextFd s1 = nextFd s \<and> nextPid s1 = nextPid s \<and> forkNumber s1 = forkNumber s \<and>
     length (objects s1) = length (objects s) \<and> descriptors s1 = descriptors s \<and> children s1 = children s"

lemma same_table_inv: "native_inv s \<Longrightarrow> same_table s s1 \<Longrightarrow> native_inv s1"
  unfolding native_inv_def same_table_def by metis

lemma same_table_set_bytes: "set_bytes p bs s = Inr s1 \<Longrightarrow> same_table s s1"
  by (auto simp: set_bytes_def same_table_def Let_def split: if_splits option.splits)

lemma same_table_set_object: "same_table s s1 \<Longrightarrow> same_table s (set_object k d s1)"
  by (simp add: same_table_def set_object_def)

lemma same_table_refl: "same_table s s"
  by (simp add: same_table_def)

lemma same_table_write: "same_table s (snd (native_write fd p count s))"
  by (simp add: native_write_def pipe_write_def file_write_def Let_def same_table_set_object same_table_refl split: option.split sum.split)

lemma same_table_lseek: "same_table s (snd (native_lseek fd n whence s))"
  by (simp add: native_lseek_def Let_def same_table_set_object same_table_refl split: option.split)

lemma same_table_read: "same_table s (snd (native_read fd p count s))"
  by (auto simp: native_read_def Let_def same_table_refl intro: same_table_set_object same_table_set_bytes
      split: option.split sum.split)

lemma inv_allocFd: "native_inv s \<Longrightarrow> k < length (objects s) \<Longrightarrow> native_inv (snd (allocFd k s)) \<and> objects (snd (allocFd k s)) = objects s"
  unfolding native_inv_def allocFd_def by (fastforce split: if_splits)

lemma inv_new_object: "native_inv s \<Longrightarrow> native_inv (snd (new_object b s)) \<and> fst (new_object b s) < length (objects (snd (new_object b s)))"
  by (fastforce simp: native_inv_def new_object_def)

lemma inv_open: "native_inv s \<Longrightarrow> native_inv (snd (native_open s))"
  using inv_new_object [of s False] inv_allocFd by (simp add: native_open_def case_prod_beta Let_def split: sum.split)

lemma inv_writeI32: "native_inv s \<Longrightarrow> writeI32 p v s = Inr s1 \<Longrightarrow> native_inv s1"
  unfolding writeI32_def by (blast intro: same_table_inv same_table_set_bytes)

lemma inv_pipe:
  assumes "native_inv s"
  shows "native_inv (snd (native_pipe p s))"
proof -
  obtain k s1 where o: "new_object True s = (k, s1)" by (cases "new_object True s")
  obtain r s2 where a: "allocFd k s1 = (r, s2)" by (cases "allocFd k s1")
  obtain w s3 where b: "allocFd k s2 = (w, s3)" by (cases "allocFd k s2")
  from inv_new_object [OF assms, of True] o have "native_inv s1" "k < length (objects s1)" by simp_all
  with inv_allocFd [of s1 k] a have "native_inv s2" "k < length (objects s2)" by simp_all
  with inv_allocFd [of s2 k] b have s3: "native_inv s3" by simp
  then show ?thesis
    by (auto simp: native_pipe_def o a b dest: inv_writeI32 split: sum.split)
qed

lemma inv_children:
  assumes "native_inv s"
  shows "native_inv (snd (native_fork s))" "native_inv (snd (native_kill b pid sig s))"
    "native_inv (snd (native_waitpid pid p options s))"
proof -
  show "native_inv (snd (native_fork s))" using assms unfolding native_inv_def native_fork_def by (fastforce split: if_splits)
  have upd: "native_inv (s\<lparr>children := (children s)(pid \<mapsto> d)\<rparr>)"
    if "children s pid = Some c" "c_number d = c_number c" for c d
    using assms that by (auto simp: native_inv_def)
  then show "native_inv (snd (native_kill b pid sig s))"
    using assms by (auto simp: native_kill_def split: option.split)
  show "native_inv (snd (native_waitpid pid p options s))"
  proof (cases "children s pid")
    case (Some c)
    from upd [OF this, of "c\<lparr>c_waits := c_waits c + 1\<rparr>"]
    have "native_inv (s\<lparr>children := (children s)(pid \<mapsto> c\<lparr>c_waits := c_waits c + 1\<rparr>)\<rparr>)" by simp
    then show ?thesis using Some
      by (auto simp: native_waitpid_def Let_def split: sum.split elim: inv_writeI32)
  qed (simp add: native_waitpid_def assms)
qed

lemma inv_memory: "native_inv (s\<lparr>memories := mems, active := m\<rparr>) = native_inv s"
  by (simp add: native_inv_def)

lemma host_step_inv: "host_step s s1 \<Longrightarrow> native_inv s \<Longrightarrow> native_inv s1"
proof (induction rule: host_step.induct)
  case (2 s fd)
  then show ?case by (auto simp: native_inv_def native_close_def split: if_splits)
next
  case (7 s fd)
  then show ?case
    using inv_allocFd by (auto simp: native_dup_def case_prod_beta Let_def native_inv_def [of s] split: option.split)
qed (auto simp: inv_memory intro: inv_open inv_pipe inv_children same_table_inv same_table_write same_table_lseek same_table_read)

text \<open>
  Whatever a fixture calls, every open descriptor refers to an existing object and is below the
  next number to be given out, so a descriptor that \<open>open\<close>, \<open>pipe\<close> or \<open>dup\<close> returns is never one in use;
  child processes are numbered in the order of the forks.
\<close>

theorem descriptor_table_sound:
  assumes "host_step\<^sup>*\<^sup>* new_native s"
  shows "(\<forall>fd k. descriptors s fd = Some k \<longrightarrow> 3 \<le> fd \<and> fd < nextFd s \<and> k < length (objects s)) \<and>
    (\<forall>pid c. children s pid = Some c \<longrightarrow> int (c_number c) = pid - 1 \<and> pid < nextPid s) \<and>
    descriptors s (nextFd s) = None \<and> children s (nextPid s) = None"
proof -
  have "native_inv new_native" by (simp add: native_inv_def new_native_def)
  with assms have inv: "native_inv s" by (induction rule: rtranclp_induct) (auto intro: host_step_inv)
  from inv have "descriptors s (nextFd s) = None" "children s (nextPid s) = None"
    unfolding native_inv_def by (metis less_irrefl not_None_eq)+
  with inv show ?thesis unfolding native_inv_def by blast
qed

definition sample_pipe :: native where
  "sample_pipe = snd (native_pipe 0 (new_native\<lparr>memories := [[0, 0, 0, 0, 0, 0, 0, 0, 5, 6, 7]], active := Some 0\<rparr>))"

lemma le32_small: "le32 3 = [3, 0, 0, 0]" "le32 4 = [4, 0, 0, 0]"
  by code_simp+

lemma sample_pipe_simps [simp]:
  "descriptors sample_pipe = [3 \<mapsto> 0, 4 \<mapsto> 0]" "objects sample_pipe = [\<lparr>o_data = [], o_offset = 0, o_pipe = True\<rparr>]"
  "active sample_pipe = Some 0" "memories sample_pipe = [[3, 0, 0, 0, 4, 0, 0, 0, 5, 6, 7]]" "nextFd sample_pipe = 5"
  by (simp_all add: sample_pipe_def native_pipe_def new_native_def new_object_def allocFd_def writeI32_def set_bytes_def le32_small Let_def)

theorem descriptor_table_sound_witness:
  "host_step\<^sup>*\<^sup>* new_native sample_pipe \<and> descriptors sample_pipe 4 = Some 0 \<and> descriptors sample_pipe 5 = None"
proof -
  have "host_step\<^sup>*\<^sup>* new_native sample_pipe"
    unfolding sample_pipe_def
    by (rule rtranclp.rtrancl_into_rtrancl, rule r_into_rtranclp, rule host_step.intros(11), rule host_step.intros(6))
  with descriptor_table_sound [OF this] show ?thesis by simp
qed

subsection \<open>Pipes\<close>

definition pending :: "native \<Rightarrow> nat \<Rightarrow> nat list" where
  "pending s k = drop (nat (o_offset (objects s ! k))) (o_data (objects s ! k))"

definition memory_slice :: "native \<Rightarrow> int \<Rightarrow> nat \<Rightarrow> nat list" where
  "memory_slice s p n = (case active s of None \<Rightarrow> [] | Some m \<Rightarrow> take n (drop (nat p) (memories s ! m)))"

lemma subarray_inside:
  "0 \<le> a \<Longrightarrow> 0 \<le> n \<Longrightarrow> a + n \<le> int (length bs) \<Longrightarrow> subarray bs a (a + n) = take (nat n) (drop (nat a) bs)"
  by (simp add: subarray_def clamp_index_def Let_def nat_diff_distrib' [symmetric])

text \<open>
  C19. A pipe is a first-in first-out queue shared by all descriptors that refer to it: writing from a
  range of the active memory appends the bytes of that range to the pending bytes, and reading into a
  range takes as many pending bytes as are available, stores them there in order, removes exactly
  these, and returns their number. Neither changes any other object or descriptor.
\<close>

theorem pipe_is_fifo:
  assumes fd: "descriptors s fd = Some k" "k < length (objects s)" "o_pipe (objects s ! k)"
    and offset: "0 \<le> o_offset (objects s ! k)" "o_offset (objects s ! k) \<le> int (length (o_data (objects s ! k)))"
    and mem: "active s = Some m" "m < length (memories s)" "0 \<le> p" "0 \<le> count" "p + count \<le> int (length (memories s ! m))"
  shows "(\<exists>s1. native_write fd p count s = (Inr count, s1) \<and>
      pending s1 k = pending s k @ memory_slice s p (nat count) \<and> memories s1 = memories s \<and>
      descriptors s1 = descriptors s \<and> (\<forall>j. j \<noteq> k \<longrightarrow> objects s1 ! j = objects s ! j)) \<and>
    (\<exists>s1 n. native_read fd p count s = (Inr (int n), s1) \<and> n = min (nat count) (length (pending s k)) \<and>
      memory_slice s1 p n = take n (pending s k) \<and> pending s1 k = drop n (pending s k) \<and>
      descriptors s1 = descriptors s \<and> (\<forall>j. j \<noteq> k \<longrightarrow> objects s1 ! j = objects s ! j))"
proof -
  define d where "d = objects s ! k"
  define inp where "inp = take (nat count) (drop (nat p) (memories s ! m))"
  have inp: "subarray (memories s ! m) p (p + count) = inp" "length inp = nat count"
    using subarray_inside [OF mem(3-5)] mem(3-5) by (simp_all add: inp_def)
  have wr: "native_write fd p count s = (Inr count, set_object k (d\<lparr>o_data := o_data d @ inp\<rparr>) s)"
    using fd mem by (simp add: native_write_def pipe_write_def active_bytes_def inp d_def Let_def)
  define n where "n = min (nat count) (length (o_data d) - nat (o_offset d))"
  define bs where "bs = take n (drop (nat (o_offset d)) (o_data d))"
  have n: "min count (int (length (o_data d)) - o_offset d) = int n" "length bs = n" "n \<le> nat count"
    "subarray (o_data d) (o_offset d) (o_offset d + int n) = bs" "nat (o_offset d + int n) = nat (o_offset d) + n"
    using offset mem(4) by (auto simp: n_def bs_def d_def [symmetric] subarray_inside nat_add_distrib)
  have fits: "nat p + n \<le> length (memories s ! m)" using n(3) mem(3-5) by linarith
  define s1 where "s1 = s\<lparr>memories := (memories s)[m := take (nat p) (memories s ! m) @ bs @ drop (nat p + n) (memories s ! m)]\<rparr>"
  have "set_bytes p bs s = Inr s1" using mem(1,3) n(2) fits by (simp add: set_bytes_def s1_def Let_def)
  then have rd: "native_read fd p count s = (Inr (int n), set_object k (d\<lparr>o_offset := o_offset d + int n\<rparr>) s1)"
    using fd n offset by (simp add: native_read_def offset_number_def d_def [symmetric] Let_def)
  let ?w = "set_object k (d\<lparr>o_data := o_data d @ inp\<rparr>) s" and ?r = "set_object k (d\<lparr>o_offset := o_offset d + int n\<rparr>) s1"
  have "pending ?w k = pending s k @ memory_slice s p (nat count)"
    using fd(2) offset mem(1) by (simp add: pending_def memory_slice_def set_object_def d_def inp_def nat_le_iff)
  moreover have "memory_slice ?r p n = take n (pending s k)"
    using mem(1,2) n(2) fits by (simp add: memory_slice_def set_object_def s1_def pending_def bs_def d_def)
  moreover have "pending ?r k = drop n (pending s k)"
    using fd(2) n(5) by (simp add: pending_def set_object_def s1_def d_def add.commute)
  moreover have "n = min (nat count) (length (pending s k))" by (simp add: n_def pending_def d_def)
  moreover have "objects ?w ! j = objects s ! j \<and> objects ?r ! j = objects s ! j" if "j \<noteq> k" for j
    using that by (simp add: set_object_def s1_def)
  moreover have "descriptors ?w = descriptors s" "descriptors ?r = descriptors s" "memories ?w = memories s"
    by (simp_all add: set_object_def s1_def)
  ultimately show ?thesis unfolding wr rd by blast
qed

theorem pipe_is_fifo_witness:
  "(\<exists>s1. native_write 4 8 3 sample_pipe = (Inr 3, s1) \<and> pending s1 0 = [5, 6, 7]) \<and>
   (\<exists>s1. native_read 3 8 2 sample_pipe = (Inr 0, s1))"
  using pipe_is_fifo [of sample_pipe 4 0 0 8 3] pipe_is_fifo [of sample_pipe 3 0 0 8 2]
  by (auto simp: pending_def memory_slice_def)

subsection \<open>Reading beyond the end\<close>

lemma bigint_number_small: "\<bar>k\<bar> < 2 ^ 53 \<Longrightarrow> bigint_number k = k"
  by (simp add: bigint_number_def js_round_of_int_small)

text \<open>
  C37. \<open>lseek\<close> accepts a position behind the end, and \<open>read\<close> does not check that the position lies within the file: for every
  position up to \<open>2 ^ 31\<close> (so that the numbers are exact and the result is a 32-bit value), a read behind the end
  returns the negative distance from the position to the end instead of 0, stores nothing, and moves the
  position back to the end.
\<close>

theorem read_past_end_negative:
  assumes "descriptors s fd = Some k" "active s = Some m" "0 \<le> p" "p \<le> int (length (memories s ! m))" "0 \<le> count"
    and "m < length (memories s)" "k < length (objects s)" "int (length (o_data (objects s ! k))) < pos" "pos \<le> 2 ^ 31"
  shows "\<exists>s1 s2. native_lseek fd pos 0 s = (Inr pos, s1) \<and>
     native_read fd p count s1 = (Inr (int (length (o_data (objects s ! k))) - pos), s2) \<and>
     int (length (o_data (objects s ! k))) - pos < 0 \<and> memories s2 = memories s \<and>
     o_offset (objects s2 ! k) = int (length (o_data (objects s ! k)))"
proof -
  define d where "d = objects s ! k"
  define s1 where "s1 = set_object k (d\<lparr>o_offset := pos\<rparr>) s"
  let ?l = "int (length (o_data d))" and ?d = "d\<lparr>o_offset := pos\<rparr>"
  have num: "bigint_number pos = pos" "bigint_number (?l - pos) = ?l - pos" "bigint_number ?l = ?l"
    using assms(8,9) by (simp_all add: bigint_number_small d_def)
  then have seek: "native_lseek fd pos 0 s = (Inr pos, s1)"
    using assms(1) by (simp add: native_lseek_def s1_def d_def Let_def)
  have empty: "subarray (o_data d) pos ?l = []"
    using assms(8) by (simp add: subarray_def clamp_index_def Let_def d_def)
  have store: "set_bytes p [] s1 = Inr s1"
    using assms by (simp add: set_bytes_def s1_def set_object_def Let_def)
  have at: "objects s1 ! k = ?d" "descriptors s1 fd = Some k"
    using assms by (simp_all add: s1_def set_object_def)
  have behind: "offset_number ?d x = bigint_number x" for x
    using assms(8) by (simp add: offset_number_def d_def)
  have "native_read fd p count s1 = (Inr (?l - pos), set_object k (d\<lparr>o_offset := ?l\<rparr>) s1)"
    using assms(5,8) empty store num by (simp add: native_read_def at behind Let_def d_def [symmetric] min_def)
  with seek show ?thesis
    using assms(7,8) by (simp add: d_def [symmetric] s1_def set_object_def)
qed

theorem read_past_end_negative_witness:
  "\<exists>s1 s2. native_lseek 3 5 0 sample_pipe = (Inr 5, s1) \<and> native_read 3 8 2 s1 = (Inr (-5), s2)"
  using read_past_end_negative [of sample_pipe 3 0 0 8 2 5] by auto

subsection \<open>The fixture report\<close>

lemma run_steps_length: "run_steps W is sts s = Inr rs \<Longrightarrow> length rs = length sts"
  by (induction sts arbitrary: s rs) (auto elim!: bind_c_InrE split: prod.splits)

text \<open>
  C18. A fixture that runs to its end yields one result per step, and a report that the batch controller
  accepts as consistent: the test passes exactly if every step passed. A fixture that cannot be
  prepared or loaded, or that names an unknown module or function, is a failure, never a pass.
\<close>

theorem fixture_judged:
  "(\<forall>rs. runBrowserNative W fx = Inr rs \<longrightarrow>
      length rs = length (fx_steps fx) \<and> \<not> inconsistent (native_done W fx) \<and>
      (res_status (judge t (native_done W fx)) \<in> {PASS, XPASS} \<longleftrightarrow> list_all a_pass rs)) \<and>
   (\<forall>e. runBrowserNative W fx = Inl e \<longrightarrow> res_status (judge t (native_done W fx)) = FAIL)"
proof (intro conjI allI impI)
  fix rs
  assume run: "runBrowserNative W fx = Inr rs"
  then show "length rs = length (fx_steps fx)"
    by (auto simp: runBrowserNative_def run_steps_length elim!: bind_c_InrE split: if_splits prod.splits)
  have passes: "length (filter id (map a_pass xs)) = length (filter a_pass xs)" for xs
    by (induction xs) simp_all
  have all: "length (filter a_pass rs) = length rs \<longleftrightarrow> list_all a_pass rs"
    unfolding list_all_iff by (metis filter_True length_filter_less nat_neq_iff)
  show consistent: "\<not> inconsistent (native_done W fx)"
    using run by (simp add: native_done_def inconsistent_def no_response_def Let_def passes)
  then show "res_status (judge t (native_done W fx)) \<in> {PASS, XPASS} \<longleftrightarrow> list_all a_pass rs"
    using run all by (simp add: judge_def native_done_def no_response_def Let_def)
next
  fix e
  assume "runBrowserNative W fx = Inl e"
  then show "res_status (judge t (native_done W fx)) = FAIL"
    by (simp add: judge_def inconsistent_def native_done_def no_response_def Let_def)
qed

definition sample_wasm :: "unit wasm" where
  "sample_wasm = \<lparr>instantiate = \<lambda>_ s. (Inr (), s), waste_memory = \<lambda>_. None, has_function = \<lambda>_ _. True,
     call_function = \<lambda>_ _ args s. (Inr (hd args), s), shown = \<lambda>_. [], shown_error = \<lambda>_. []\<rparr>"

definition sample_fixture :: fixture where
  "sample_fixture = \<lparr>fx_error = [], fx_modules = [\<lparr>m_wasm = [], m_id = []\<rparr>],
     fx_steps = [\<lparr>st_module = None, st_func = [102], st_args = [\<lparr>v_i64 = True, v_value = 7\<rparr>],
       st_expect = [\<lparr>v_i64 = True, v_value = 7\<rparr>]\<rparr>]\<rparr>"

lemma sample_fixture_runs: "runBrowserNative sample_wasm sample_fixture = Inr [\<lparr>a_pass = True, a_func = [102], a_error = []\<rparr>]"
  by (simp add: runBrowserNative_def sample_fixture_def sample_wasm_def decodeB64_def atob_def strip_padding_def
      run_step_def step_instance_def js_arg_def step_passes_def)

theorem fixture_judged_witness:
  "\<not> inconsistent (native_done sample_wasm sample_fixture) \<and>
   (\<forall>t. res_status (judge t (native_done sample_wasm sample_fixture)) \<in> {PASS, XPASS})"
  using fixture_judged [of sample_wasm sample_fixture] sample_fixture_runs by auto

end
