(* ===== verification/App_Page.thy ===== *)
theory App_Page
  imports Renderer Worker_Model
begin

text \<open>
  The page of \<open>app.js\<close>: the terminal output and transcript, the loader-evidence sequence, starting and
  finishing a worker, the requests of a worker that the page serves (batch commands, render test,
  download, upload, clipboard), and keyboard input. The record \<open>app\<close> holds the module's variables;
  a worker is a number, and \<open>sent\<close> lists the messages posted to the workers, oldest first. An asynchronous
  function is cut at its awaits, and \<open>app_step\<close> interleaves the parts. What the browser answers (the
  file picker, the clipboard, the batch controller) is an argument of the step in which it arrives.
  Status texts and colours, focus and the contents of the log file are left out.
\<close>

subsection \<open>State\<close>

record clipboard =
  cb_requester :: "nat option"
  cb_id :: nat
  cb_text :: jstr
  cb_replied :: bool

record upload =
  up_requester :: "nat option"
  up_replied :: bool

record suite_call =
  sc_source :: nat
  sc_requester :: "nat option"
  sc_id :: nat
  sc_request :: "nat list"

datatype page_post = Start_message | Control message

record app =
  cur_worker :: "nat option"
  created :: nat
  live :: "nat list"
  loading :: nat
  creating :: nat
  display :: renderer
  raf :: nat
  transcript :: "nat list"
  starting :: bool
  running :: bool
  input_enabled :: bool
  cancelClipboard :: "nat option"
  clipboards :: "clipboard list"
  uploads :: "upload list"
  guestSuiteId :: "nat \<Rightarrow> nat"
  suite_calls :: "suite_call list"
  suite_cancels :: "(nat \<times> nat) list"
  cancelled_suites :: nat
  downloads :: "(jstr \<times> nat list) list"
  evidenceStarted :: bool
  evidenceFinished :: bool
  evidenceOutput :: jstr
  evidenceStep :: nat
  evidenceWaitOffset :: nat
  evidenceWorkerReady :: bool
  timers :: "nat list list"
  sent :: "(nat \<times> page_post) list"

definition transcriptLimit :: nat where "transcriptLimit = 65536"

text \<open>\<open>requestAnimationFrame\<close> exists and returns \<open>raf\<close>.\<close>

definition new_app :: "renderer \<Rightarrow> nat \<Rightarrow> app" where
  "new_app r h = \<lparr>cur_worker = None, created = 0, live = [], loading = 0, creating = 0, display = r, raf = h, transcript = [],
     starting = False, running = False, input_enabled = False, cancelClipboard = None, clipboards = [], uploads = [],
     guestSuiteId = (\<lambda>_. 0), suite_calls = [], suite_cancels = [], cancelled_suites = 0, downloads = [],
     evidenceStarted = False, evidenceFinished = False, evidenceOutput = [], evidenceStep = 0, evidenceWaitOffset = 0,
     evidenceWorkerReady = False, timers = [], sent = []\<rparr>"

text \<open>\<open>if (worker) worker.postMessage(message)\<close>, and \<open>if (worker === requester) requester.postMessage(message)\<close>.\<close>

definition post_current :: "page_post \<Rightarrow> app \<Rightarrow> app" where
  "post_current m s = (case cur_worker s of None \<Rightarrow> s | Some w \<Rightarrow> s\<lparr>sent := sent s @ [(w, m)]\<rparr>)"

definition post_if_current :: "nat option \<Rightarrow> message \<Rightarrow> app \<Rightarrow> app" where
  "post_if_current requester m s = (if cur_worker s = requester then post_current (Control m) s else s)"

definition sendInputBytes :: "nat list \<Rightarrow> app \<Rightarrow> app" where
  "sendInputBytes bytes s = post_current (Control (Msg_input bytes)) s"

definition sendTerminalResize :: "app \<Rightarrow> app" where
  "sendTerminalResize s =
     post_current (Control (Msg_resize (Some (columns (r_model (display s)))) (Some (rows (r_model (display s)))))) s"

definition setRunning :: "bool \<Rightarrow> app \<Rightarrow> app" where
  "setRunning on s = s\<lparr>running := on, input_enabled := (on \<and> input_enabled s)\<rparr>"

text \<open>\<open>worker?.terminate()\<close>: a terminated worker sends nothing more.\<close>

definition terminate :: "app \<Rightarrow> app" where
  "terminate s = (case cur_worker s of None \<Rightarrow> s | Some w \<Rightarrow> s\<lparr>live := removeAll w (live s)\<rparr>)"

subsection \<open>Terminal output and loader evidence\<close>

text \<open>The UTF-16 code units of a code point, which \<open>slice\<close> counts.\<close>

definition utf16 :: "nat \<Rightarrow> nat list" where
  "utf16 c = (if c < 0x10000 then [c] else [0xD800 + (c - 0x10000) div 1024, 0xDC00 + (c - 0x10000) mod 1024])"

fun indexOf :: "jstr \<Rightarrow> jstr \<Rightarrow> nat option" where
  "indexOf p [] = (if p = [] then Some 0 else None)"
| "indexOf p (c # cs) = (if starts_with p (c # cs) then Some 0 else map_option Suc (indexOf p cs))"

definition text_includes :: "jstr \<Rightarrow> jstr \<Rightarrow> bool" where
  "text_includes p t \<longleftrightarrow> indexOf p t \<noteq> None"

text \<open>The regular expression for the prompt, a number sign and a space.\<close>

definition prompt_in :: "jstr \<Rightarrow> bool" where
  "prompt_in t = text_includes [35, 32] t"

definition evidence_marker :: "string \<Rightarrow> jstr" where
  "evidence_marker name = js ''__WASTE_EVIDENCE_'' @ js name @ js ''_0__''"

definition evidenceMarkers :: "(string \<times> jstr) list" where
  "evidenceMarkers = [
     (''WAT explicit'', evidence_marker ''WAT_EXPLICIT''), (''WAT direct'', evidence_marker ''WAT_DIRECT''),
     (''WAT shebang'', evidence_marker ''WAT_SHEBANG''), (''WAST explicit'', evidence_marker ''WAST_EXPLICIT''),
     (''WAST direct'', evidence_marker ''WAST_DIRECT''), (''WAST shebang'', evidence_marker ''WAST_SHEBANG'')]"

text \<open>A step with \<open>prompt\<close> has no marker. The shell command \<open>printf\<close> of a status, with its quotes:\<close>

definition status_printf :: "string \<Rightarrow> jstr" where
  "status_printf name =
     js ''printf '' @ [39] @ js ''__WASTE_EVIDENCE_'' @ js name @ js ''_%s__'' @ [92, 110, 39, 32, 34] @ js ''$?'' @ [34]"

record evidence_step =
  es_marker :: "jstr option"
  es_command :: jstr

definition evidenceSteps :: "evidence_step list" where
  "evidenceSteps = [
     \<lparr>es_marker = Some (js ''__WASTE_EVIDENCE_BEGIN__''), es_command = js ''/bin/wat /tmp/waste-evidence.wat; '' @ status_printf ''WAT_EXPLICIT''\<rparr>,
     \<lparr>es_marker = Some (evidence_marker ''WAT_EXPLICIT''), es_command = js ''/tmp/waste-evidence.wat; '' @ status_printf ''WAT_DIRECT''\<rparr>,
     \<lparr>es_marker = Some (evidence_marker ''WAT_DIRECT''), es_command = js ''/tmp/waste-evidence-shebang.wat; '' @ status_printf ''WAT_SHEBANG''\<rparr>,
     \<lparr>es_marker = Some (evidence_marker ''WAT_SHEBANG''), es_command = js ''/bin/wast /tmp/waste-evidence.wast''\<rparr>,
     \<lparr>es_marker = None, es_command = status_printf ''WAST_EXPLICIT''\<rparr>,
     \<lparr>es_marker = Some (evidence_marker ''WAST_EXPLICIT''), es_command = js ''/tmp/waste-evidence.wast''\<rparr>,
     \<lparr>es_marker = None, es_command = status_printf ''WAST_DIRECT''\<rparr>,
     \<lparr>es_marker = Some (evidence_marker ''WAST_DIRECT''), es_command = js ''/tmp/waste-evidence-shebang.wast''\<rparr>,
     \<lparr>es_marker = None, es_command = status_printf ''WAST_SHEBANG''\<rparr>,
     \<lparr>es_marker = Some (evidence_marker ''WAST_SHEBANG''),
       es_command = js ''printf '' @ [39] @ js ''__WASTE_EVIDENCE_END__'' @ [92, 110, 39]\<rparr>]"

definition evidencePassed :: "jstr \<Rightarrow> bool" where
  "evidencePassed out \<longleftrightarrow> text_includes (js ''__WASTE_EVIDENCE_END__'') out \<and> list_all (\<lambda>(_, m). text_includes m out) evidenceMarkers"

definition completeEvidence :: "app \<Rightarrow> app" where
  "completeEvidence s =
     (if evidenceFinished s \<or> \<not> evidencePassed (evidenceOutput s) then s else s\<lparr>evidenceFinished := True\<rparr>)"

definition evidence_ready :: "evidence_step \<Rightarrow> jstr \<Rightarrow> bool" where
  "evidence_ready st outputAfterSend =
     (case es_marker st of
        None \<Rightarrow> prompt_in outputAfterSend
      | Some m \<Rightarrow> (case indexOf m outputAfterSend of
            None \<Rightarrow> False | Some i \<Rightarrow> prompt_in (drop (i + length m) outputAfterSend)))"

definition advance_evidence :: "app \<Rightarrow> app" where
  "advance_evidence s =
     (if evidenceStep s < length evidenceSteps \<and>
         evidence_ready (evidenceSteps ! evidenceStep s) (drop (evidenceWaitOffset s) (evidenceOutput s)) \<and> evidenceWorkerReady s
      then s\<lparr>evidenceStep := evidenceStep s + 1, evidenceWaitOffset := length (evidenceOutput s), evidenceWorkerReady := False,
             timers := timers s @ [utf8_encode (es_command (evidenceSteps ! evidenceStep s) @ [10])]\<rparr>
      else s)"

definition mark_display :: "renderer \<Rightarrow> app \<Rightarrow> app" where
  "mark_display r s = s\<lparr>display := snd (snd (markDirty (Some (raf s)) r))\<rparr>"

definition appendRaw :: "jstr \<Rightarrow> app \<Rightarrow> app" where
  "appendRaw t s =
     (let r = display s; s1 = mark_display (r\<lparr>r_model := write_text t (r_model r)\<rparr>) s;
          all = transcript s @ concat (map utf16 t);
          s2 = s1\<lparr>transcript := drop (length all - transcriptLimit) all\<rparr>
      in if \<not> evidenceStarted s then s2
         else completeEvidence (advance_evidence (s2\<lparr>evidenceOutput := evidenceOutput s @ t\<rparr>)))"

definition append_line :: "jstr \<Rightarrow> app \<Rightarrow> app" where
  "append_line t = appendRaw (t @ [10])"

definition runLoaderEvidence :: "app \<Rightarrow> app" where
  "runLoaderEvidence s =
     (if cur_worker s = None then s
      else sendInputBytes (utf8_encode (js ''printf '' @ [39] @ js ''__WASTE_EVIDENCE_BEGIN__'' @ [92, 110, 39, 10]))
        (s\<lparr>evidenceStarted := True, evidenceFinished := False, evidenceOutput := [], evidenceStep := 0,
           evidenceWaitOffset := 0, evidenceWorkerReady := False\<rparr>))"

text \<open>The verdicts in the log: whether the evidence is complete, and which markers were observed.\<close>

definition downloadEvidence :: "app \<Rightarrow> (bool \<times> bool list) \<times> app" where
  "downloadEvidence s =
     (let s1 = completeEvidence s
      in ((evidenceFinished s1 \<and> evidencePassed (evidenceOutput s1),
           map (\<lambda>(_, m). text_includes m (evidenceOutput s1)) evidenceMarkers), s1))"

subsection \<open>The clipboard\<close>

definition clip_reply :: "nat \<Rightarrow> bool \<Rightarrow> app \<Rightarrow> app" where
  "clip_reply k ok s =
     (let c = clipboards s ! k
      in if cb_replied c then s
         else post_if_current (cb_requester c) (Msg_clipboard_response (cb_id c) ok)
           (s\<lparr>clipboards := (clipboards s)[k := c\<lparr>cb_replied := True\<rparr>], cancelClipboard := None\<rparr>))"

definition cancel_clipboard :: "app \<Rightarrow> app" where
  "cancel_clipboard s = (case cancelClipboard s of None \<Rightarrow> s | Some k \<Rightarrow> clip_reply k False s)"

text \<open>
  A request that arrives from a leaked worker while \<open>worker\<close> is \<open>null\<close> has no requester. As long as no worker is
  created, its reply calls \<open>postMessage\<close> of \<open>null\<close> after it has recorded the answer: the exception ends
  the function that cancels it.
\<close>

definition cancel_throws :: "app \<Rightarrow> bool" where
  "cancel_throws s =
     (case cancelClipboard s of
        None \<Rightarrow> False
      | Some k \<Rightarrow> \<not> cb_replied (clipboards s ! k) \<and> cb_requester (clipboards s ! k) = None \<and> cur_worker s = None)"

text \<open>Up to the await of \<open>writeText\<close>.\<close>

definition requestHostClipboard :: "nat option \<Rightarrow> nat \<Rightarrow> nat list \<Rightarrow> app \<Rightarrow> app" where
  "requestHostClipboard requester i bytes s =
     (let s1 = cancel_clipboard s
      in if cancel_throws s then s1
         else s1\<lparr>cancelClipboard := Some (length (clipboards s1)),
               clipboards := clipboards s1 @ [\<lparr>cb_requester = requester, cb_id = i, cb_text = utf8_decode_raw bytes, cb_replied = False\<rparr>]\<rparr>)"

text \<open>\<open>copied\<close> is whether \<open>execCommand("copy")\<close> succeeds on the text field; an exception counts as a failure.\<close>

definition clipboard_refused :: "nat \<Rightarrow> bool \<Rightarrow> app \<Rightarrow> app" where
  "clipboard_refused k copied s =
     (if cb_replied (clipboards s ! k) \<or> cur_worker s \<noteq> cb_requester (clipboards s ! k) then clip_reply k False s
      else clip_reply k copied s)"

subsection \<open>Uploads\<close>

definition upload_reply :: "nat \<Rightarrow> nat list option \<Rightarrow> app \<Rightarrow> app" where
  "upload_reply k result s =
     (let u = uploads s ! k
      in if up_replied u then s
         else post_if_current (up_requester u)
           (case result of None \<Rightarrow> Msg_upload_response True [] | Some bytes \<Rightarrow> Msg_upload_response False bytes)
           (s\<lparr>uploads := (uploads s)[k := u\<lparr>up_replied := True\<rparr>]\<rparr>))"

definition requestHostUpload :: "nat option \<Rightarrow> app \<Rightarrow> app" where
  "requestHostUpload requester s = s\<lparr>uploads := uploads s @ [\<lparr>up_requester = requester, up_replied = False\<rparr>]\<rparr>"

subsection \<open>Starting and finishing\<close>

definition finish :: "app \<Rightarrow> app" where
  "finish s =
     (let s1 = setRunning False (cancel_clipboard s\<lparr>starting := False\<rparr>)
      in if cancel_throws s then cancel_clipboard s
         else terminate (post_current (Control Msg_stop) s1)\<lparr>cur_worker := None\<rparr>)"

text \<open>\<open>startShell\<close> up to its first await, after the files are loaded, and with the created worker.\<close>

definition startShell :: "app \<Rightarrow> app" where
  "startShell s =
     (if cancel_throws s then cancel_clipboard s
      else (terminate (post_current (Control Msg_stop) (cancel_clipboard s)))\<lparr>loading := loading s + 1\<rparr>)"

definition shell_loaded :: "app \<Rightarrow> app" where
  "shell_loaded s =
     (let r = display s; s1 = mark_display (r\<lparr>r_model := fullReset (r_model r)\<rparr>) s
      in s1\<lparr>loading := loading s - 1, creating := creating s + 1, transcript := [], running := True, input_enabled := False,
            starting := True\<rparr>)"

definition worker_created :: "app \<Rightarrow> app" where
  "worker_created s =
     (let w = created s
      in s\<lparr>creating := creating s - 1, created := w + 1, live := live s @ [w], cur_worker := Some w,
           guestSuiteId := (guestSuiteId s)(w := 0), sent := sent s @ [(w, Start_message)]\<rparr>)"

subsection \<open>Messages of a worker\<close>

definition on_output :: "jstr \<Rightarrow> app \<Rightarrow> app" where
  "on_output t s =
     (let s1 = appendRaw t s
      in if starting s1 \<and> prompt_in t then s1\<lparr>starting := False, input_enabled := True\<rparr> else s1)"

definition on_io_ready :: "app \<Rightarrow> app" where
  "on_io_ready s =
     (let s1 = s\<lparr>evidenceWorkerReady := True\<rparr> in if evidenceStarted s1 then appendRaw [] s1 else s1)"

definition on_guest_suite_request :: "nat \<Rightarrow> nat \<Rightarrow> nat list \<Rightarrow> app \<Rightarrow> app" where
  "on_guest_suite_request w i request s =
     s\<lparr>guestSuiteId := (guestSuiteId s)(w := i),
       suite_calls := suite_calls s @ [\<lparr>sc_source = w, sc_requester = cur_worker s, sc_id = i, sc_request = request\<rparr>]\<rparr>"

text \<open>
  The promise chain of a batch command: the reply, or the reply that reports the error, then the
  \<open>finally\<close>. An error report that does not fit rejects the promise and nothing is sent.
\<close>

definition suite_settled :: "suite_call \<Rightarrow> (jstr + nat list) \<Rightarrow> app \<Rightarrow> app" where
  "suite_settled c answer s =
     (let reply = (case answer of
            Inr bytes \<Rightarrow> Inr bytes
          | Inl message \<Rightarrow> guestReply 2 (js ''waste-test: '' @ message @ [10]) []);
          s1 = (case reply of Inr bytes \<Rightarrow> post_if_current (sc_requester c) (Msg_guest_suite_response (sc_id c) bytes) s | Inl _ \<Rightarrow> s)
      in s1\<lparr>suite_calls := remove1 c (suite_calls s1),
            guestSuiteId := (if guestSuiteId s1 (sc_source c) = sc_id c then (guestSuiteId s1)(sc_source c := 0) else guestSuiteId s1)\<rparr>)"

definition on_guest_suite_cancel :: "nat \<Rightarrow> nat \<Rightarrow> app \<Rightarrow> app" where
  "on_guest_suite_cancel w i s = (if guestSuiteId s w = i then s\<lparr>suite_cancels := suite_cancels s @ [(w, i)]\<rparr> else s)"

definition suite_cancel_resolved :: "nat \<Rightarrow> nat \<Rightarrow> app \<Rightarrow> app" where
  "suite_cancel_resolved w i s =
     (let s1 = s\<lparr>suite_cancels := remove1 (w, i) (suite_cancels s)\<rparr>
      in if guestSuiteId s w = i then s1\<lparr>cancelled_suites := cancelled_suites s + 1\<rparr> else s1)"

text \<open>\<open>report\<close> is the outcome of the render test and its serialised report.\<close>

definition on_render_test_request :: "bool \<times> jstr \<Rightarrow> nat \<Rightarrow> app \<Rightarrow> app" where
  "on_render_test_request report i s =
     (case report of (ok, json) \<Rightarrow>
        post_if_current (cur_worker s)
          (Msg_render_test_response i (le32 (if ok then 1 else 0) @ utf8_encode (json @ [10]))) s)"

definition on_done :: "jstr \<Rightarrow> app \<Rightarrow> app" where
  "on_done err s = finish (if err \<noteq> [] then append_line err s else s)"

definition worker_onmessage :: "bool \<times> jstr \<Rightarrow> (js_error \<Rightarrow> jstr) \<Rightarrow> nat \<Rightarrow> post \<Rightarrow> app \<Rightarrow> app" where
  "worker_onmessage report shown_error w data s =
     (case data of
        Post_output t \<Rightarrow> on_output t s
      | Post_started _ _ \<Rightarrow> sendTerminalResize (s\<lparr>evidenceWorkerReady := True\<rparr>)
      | Post_io_ready _ _ \<Rightarrow> on_io_ready s
      | Post_guest_suite_request i request \<Rightarrow> on_guest_suite_request w i request s
      | Post_guest_suite_cancel i \<Rightarrow> on_guest_suite_cancel w i s
      | Post_render_test_request i \<Rightarrow> on_render_test_request report i s
      | Post_download name bytes \<Rightarrow> s\<lparr>downloads := downloads s @ [(name, bytes)]\<rparr>
      | Post_upload_request _ \<Rightarrow> requestHostUpload (cur_worker s) s
      | Post_clipboard_request i bytes \<Rightarrow> requestHostClipboard (cur_worker s) i bytes s
      | Post_done d \<Rightarrow> on_done (d_error d) s
      | Post_failed e \<Rightarrow> on_done (shown_error e) s
      | Post_control_error _ \<Rightarrow> s
      | Post_vfs _ \<Rightarrow> s
      | Post_suite_list _ \<Rightarrow> s)"

definition worker_onerror :: "jstr \<Rightarrow> app \<Rightarrow> app" where
  "worker_onerror message s = finish (append_line (if message = [] then js ''worker error'' else message) s)"

subsection \<open>Keyboard and controls\<close>

record key_event =
  ev_meta :: bool
  ev_ctrl :: bool
  ev_key :: jstr

text \<open>
  \<open>event.key.toUpperCase().charCodeAt(0)\<close> of a one-unit key, as far as the result lies between 65 and 95: besides
  ASCII these are the letters whose upper case begins with an ASCII letter. Other keys give 0.
\<close>

definition upper_unit :: "nat \<Rightarrow> nat" where
  "upper_unit c =
     (if 65 \<le> c \<and> c \<le> 95 then c
      else if 97 \<le> c \<and> c \<le> 122 then c - 32
      else if c \<in> {0xDF, 0x17F, 0xFB05, 0xFB06} then 83
      else if c = 0x131 then 73 else if c = 0x1F0 then 74
      else if c = 0x1E96 then 72 else if c = 0x1E97 then 84 else if c = 0x1E98 then 87 else if c = 0x1E99 then 89
      else if c = 0x1E9A then 65
      else if 0xFB00 \<le> c \<and> c \<le> 0xFB04 then 70
      else 0)"

definition key_sequence :: "model \<Rightarrow> jstr \<Rightarrow> jstr option" where
  "key_sequence m key =
     (if list_all (\<lambda>c. c < 128) key then map_option js (keySequence m (map char_of key)) else None)"

text \<open>The bytes a key sends, if any, and whether the default action is prevented.\<close>

definition key_bytes :: "model \<Rightarrow> key_event \<Rightarrow> nat list option \<times> bool" where
  "key_bytes m e =
     (if ev_meta e then (None, False)
      else case key_sequence m (ev_key e) of
        Some q \<Rightarrow> (Some (utf8_encode q), True)
      | None \<Rightarrow>
          if ev_key e = js ''Enter'' then (Some [10], True)
          else if ev_key e = js ''Backspace'' then (Some [127], True)
          else if ev_key e = js ''Tab'' then (Some [9], True)
          else if ev_ctrl e \<and> length (ev_key e) = 1 then
            (let u = upper_unit (hd (ev_key e)) in (if 64 < u \<and> u < 96 then Some [u - 64] else None, True))
          else if length (ev_key e) = 1 then (Some (utf8_encode (ev_key e)), True)
          else (None, False))"

definition handleTerminalKeydown :: "key_event \<Rightarrow> app \<Rightarrow> bool \<times> app" where
  "handleTerminalKeydown e s =
     (case key_bytes (r_model (display s)) e of
        (None, prevented) \<Rightarrow> (prevented, s)
      | (Some bytes, prevented) \<Rightarrow> (prevented, sendInputBytes bytes s))"

definition submit_line :: "jstr \<Rightarrow> app \<Rightarrow> app" where
  "submit_line line s = sendInputBytes (utf8_encode (line @ [10])) s"

definition paste :: "jstr \<Rightarrow> app \<Rightarrow> app" where
  "paste clip s = sendInputBytes (utf8_encode clip) s"

text \<open>The options of the menu are the signals 2, 15, 1, 14 and 28; pid and pgid are absent.\<close>

definition send_signal :: "int \<Rightarrow> app \<Rightarrow> app" where
  "send_signal n s = post_current (Control (Msg_signal (Some n) (Some 0) (Some 0))) s"

definition timer_fired :: "app \<Rightarrow> app" where
  "timer_fired s = (case timers s of [] \<Rightarrow> s | bytes # rest \<Rightarrow> sendInputBytes bytes (s\<lparr>timers := rest\<rparr>))"

subsection \<open>Interleaving\<close>

text \<open>
  A message arrives from a worker that was not terminated, which need not be the current one; a response
  for which there is no worker is an exception that posts nothing. Timers of the same delay fire in order.
\<close>

inductive app_step :: "app \<Rightarrow> app \<Rightarrow> bool" where
  start: "app_step s (startShell s)"
| load_failed: "0 < loading s \<Longrightarrow> app_step s (s\<lparr>loading := loading s - 1\<rparr>)"
| loaded: "0 < loading s \<Longrightarrow> app_step s (shell_loaded s)"
| create_failed: "0 < creating s \<Longrightarrow> app_step s (s\<lparr>creating := creating s - 1\<rparr>)"
| create: "0 < creating s \<Longrightarrow> app_step s (worker_created s)"
| message: "w \<in> set (live s) \<Longrightarrow> app_step s (worker_onmessage report shown w data s)"
| worker_error: "w \<in> set (live s) \<Longrightarrow> app_step s (worker_onerror t s)"
| stop: "app_step s (finish s)"
| clipboard_written: "k < length (clipboards s) \<Longrightarrow> app_step s (clip_reply k True s)"
| clipboard_refused: "k < length (clipboards s) \<Longrightarrow> app_step s (clipboard_refused k copied s)"
| upload: "k < length (uploads s) \<Longrightarrow> app_step s (upload_reply k result s)"
| suite: "c \<in> set (suite_calls s) \<Longrightarrow> app_step s (suite_settled c answer s)"
| suite_cancel: "(w, i) \<in> set (suite_cancels s) \<Longrightarrow> app_step s (suite_cancel_resolved w i s)"
| evidence: "app_step s (runLoaderEvidence s)"
| evidence_log: "app_step s (snd (downloadEvidence s))"
| timer: "app_step s (timer_fired s)"
| key: "app_step s (snd (handleTerminalKeydown e s))"
| line: "app_step s (submit_line t s)"
| paste: "app_step s (paste t s)"
| signal: "n \<in> {2, 15, 1, 14, 28} \<Longrightarrow> app_step s (send_signal n s)"
| window_resize: "app_step s (sendTerminalResize s)"
| frame: "frame_callback (display s) = (e, r) \<Longrightarrow> app_step s (s\<lparr>display := r\<rparr>)"

end
