(* ===== verification/App_Props.thy ===== *)
theory App_Props
  imports App_Page Terminal_Safety "HOL-Library.Multiset"
begin

text \<open>
  Properties of the page over every interleaving: each clipboard and upload request is answered at
  most once, the loader evidence is observed in order, and the messages that the page posts pass the checks
  of the worker. The last section shows what a second start does while the first one is still loading.
\<close>

subsection \<open>What an operation leaves alone\<close>

definition requests :: "app \<Rightarrow> clipboard list \<times> nat option \<times> upload list" where
  "requests s = (clipboards s, cancelClipboard s, uploads s)"

definition observed :: "app \<Rightarrow> bool \<times> bool \<times> jstr \<times> nat \<times> nat" where
  "observed s = (evidenceStarted s, evidenceFinished s, evidenceOutput s, evidenceStep s, evidenceWaitOffset s)"

lemma post_current_frame [simp]:
  "requests (post_current m s) = requests s" "observed (post_current m s) = observed s"
  "cur_worker (post_current m s) = cur_worker s" "display (post_current m s) = display s"
  "sent (post_current m s) = (case cur_worker s of None \<Rightarrow> sent s | Some w \<Rightarrow> sent s @ [(w, m)])"
  "timers (post_current m s) = timers s"
  by (simp_all add: post_current_def requests_def observed_def split: option.split)

lemma post_if_current_frame [simp]:
  "requests (post_if_current q m s) = requests s" "observed (post_if_current q m s) = observed s"
  "display (post_if_current q m s) = display s" "timers (post_if_current q m s) = timers s"
  "sent (post_if_current q m s) =
     (if cur_worker s = q then case q of None \<Rightarrow> sent s | Some w \<Rightarrow> sent s @ [(w, Control m)] else sent s)"
  by (simp_all add: post_if_current_def)

lemma terminate_frame [simp]:
  "requests (terminate s) = requests s" "observed (terminate s) = observed s" "sent (terminate s) = sent s"
  "display (terminate s) = display s" "timers (terminate s) = timers s"
  by (simp_all add: terminate_def requests_def observed_def split: option.split)

lemma appendRaw_frame [simp]:
  "requests (appendRaw t s) = requests s" "sent (appendRaw t s) = sent s" "cur_worker (appendRaw t s) = cur_worker s"
  by (simp_all add: appendRaw_def advance_evidence_def completeEvidence_def mark_display_def requests_def Let_def)

subsection \<open>Requests\<close>

definition clip_response :: "nat \<times> page_post \<Rightarrow> (nat option \<times> nat) option" where
  "clip_response p = (case p of (w, Control (Msg_clipboard_response i _)) \<Rightarrow> Some (Some w, i) | _ \<Rightarrow> None)"

definition upload_response :: "nat \<times> page_post \<Rightarrow> nat option option" where
  "upload_response p = (case p of (w, Control (Msg_upload_response _ _)) \<Rightarrow> Some (Some w) | _ \<Rightarrow> None)"

definition request_inv :: "app \<Rightarrow> bool" where
  "request_inv s \<longleftrightarrow>
     (\<forall>k. cancelClipboard s = Some k \<longleftrightarrow> k < length (clipboards s) \<and> \<not> cb_replied (clipboards s ! k)) \<and>
     mset (List.map_filter clip_response (sent s)) \<subseteq># mset (map (\<lambda>c. (cb_requester c, cb_id c)) (filter cb_replied (clipboards s))) \<and>
     mset (List.map_filter upload_response (sent s)) \<subseteq># mset (map up_requester (filter up_replied (uploads s)))"

lemma map_filter_snoc [simp]:
  "List.map_filter f (xs @ [x]) = List.map_filter f xs @ (case f x of None \<Rightarrow> [] | Some y \<Rightarrow> [y])"
  by (simp add: map_filter_def split: option.split)

lemma mset_filter_update:
  assumes "k < length xs" "\<not> P (xs ! k)" "P y"
  shows "mset (filter P (xs[k := y])) = add_mset y (mset (filter P xs))"
proof -
  have "filter P (xs[k := y]) = filter P (take k xs) @ y # filter P (drop (Suc k) xs)"
    using assms(1,3) by (simp add: upd_conv_take_nth_drop)
  moreover have "filter P xs = filter P (take k xs) @ filter P (drop (Suc k) xs)"
    using assms(1,2) by (subst id_take_nth_drop [OF assms(1)]) simp
  ultimately show ?thesis by simp
qed

lemma request_inv_cong:
  assumes "request_inv s" "requests s1 = requests s"
    and "List.map_filter clip_response (sent s1) = List.map_filter clip_response (sent s)"
    and "List.map_filter upload_response (sent s1) = List.map_filter upload_response (sent s)"
  shows "request_inv s1"
  using assms by (simp add: request_inv_def requests_def)

lemma request_inv_update [simp]:
  "request_inv (s\<lparr>cur_worker := v0\<rparr>) = request_inv s"
  "request_inv (s\<lparr>created := v1\<rparr>) = request_inv s"
  "request_inv (s\<lparr>live := v2\<rparr>) = request_inv s"
  "request_inv (s\<lparr>loading := v3\<rparr>) = request_inv s"
  "request_inv (s\<lparr>creating := v4\<rparr>) = request_inv s"
  "request_inv (s\<lparr>display := v5\<rparr>) = request_inv s"
  "request_inv (s\<lparr>transcript := v6\<rparr>) = request_inv s"
  "request_inv (s\<lparr>starting := v7\<rparr>) = request_inv s"
  "request_inv (s\<lparr>running := v8\<rparr>) = request_inv s"
  "request_inv (s\<lparr>input_enabled := v9\<rparr>) = request_inv s"
  "request_inv (s\<lparr>guestSuiteId := v10\<rparr>) = request_inv s"
  "request_inv (s\<lparr>suite_calls := v11\<rparr>) = request_inv s"
  "request_inv (s\<lparr>suite_cancels := v12\<rparr>) = request_inv s"
  "request_inv (s\<lparr>cancelled_suites := v13\<rparr>) = request_inv s"
  "request_inv (s\<lparr>downloads := v14\<rparr>) = request_inv s"
  "request_inv (s\<lparr>evidenceStarted := v15\<rparr>) = request_inv s"
  "request_inv (s\<lparr>evidenceFinished := v16\<rparr>) = request_inv s"
  "request_inv (s\<lparr>evidenceOutput := v17\<rparr>) = request_inv s"
  "request_inv (s\<lparr>evidenceStep := v18\<rparr>) = request_inv s"
  "request_inv (s\<lparr>evidenceWaitOffset := v19\<rparr>) = request_inv s"
  "request_inv (s\<lparr>evidenceWorkerReady := v20\<rparr>) = request_inv s"
  "request_inv (s\<lparr>timers := v21\<rparr>) = request_inv s"
  by (simp_all add: request_inv_def)

lemma clip_reply_inv:
  assumes inv: "request_inv s" and k: "k < length (clipboards s)"
  shows "request_inv (clip_reply k ok s) \<and> length (clipboards (clip_reply k ok s)) = length (clipboards s) \<and>
    cancelClipboard (clip_reply k ok s) \<noteq> Some k"
proof (cases "cb_replied (clipboards s ! k)")
  case True
  with inv show ?thesis by (simp add: clip_reply_def request_inv_def)
next
  case False
  let ?c = "clipboards s ! k" and ?m = "mset (List.map_filter clip_response (sent s))"
  let ?s = "s\<lparr>clipboards := (clipboards s)[k := ?c\<lparr>cb_replied := True\<rparr>], cancelClipboard := None\<rparr>"
  let ?p = "post_if_current (cb_requester ?c) (Msg_clipboard_response (cb_id ?c) ok) ?s"
  have eq: "clip_reply k ok s = ?p" using False by (simp add: clip_reply_def Let_def)
  have "requests ?p = requests ?s" by simp
  then have view: "clipboards ?p = (clipboards s)[k := ?c\<lparr>cb_replied := True\<rparr>]" "cancelClipboard ?p = None" "uploads ?p = uploads s"
    by (simp_all add: requests_def)
  have only: "cancelClipboard s = Some j \<longleftrightarrow> j < length (clipboards s) \<and> \<not> cb_replied (clipboards s ! j)" for j
    using inv by (simp add: request_inv_def)
  have all: "cb_replied (clipboards s ! j)" if "j < length (clipboards s)" "j \<noteq> k" for j
    using only [of j] only [of k] False k that by auto
  have "mset (List.map_filter clip_response (sent ?p)) \<subseteq># add_mset (cb_requester ?c, cb_id ?c) ?m"
    by (auto simp: clip_response_def split: option.split intro: subset_mset.order_trans [OF _ mset_subset_eq_add_right])
  also have "\<dots> \<subseteq># mset (map (\<lambda>c. (cb_requester c, cb_id c)) (filter cb_replied (clipboards ?p)))"
    using inv mset_filter_update [of k "clipboards s" cb_replied "?c\<lparr>cb_replied := True\<rparr>"] k False
    by (simp add: view request_inv_def)
  finally have "mset (List.map_filter clip_response (sent ?p)) \<subseteq># \<dots>" .
  moreover have "List.map_filter upload_response (sent ?p) = List.map_filter upload_response (sent s)"
    by (simp add: upload_response_def split: option.split)
  ultimately show ?thesis
    using inv all k unfolding eq by (auto simp: request_inv_def view nth_list_update)
qed

lemma cancel_clipboard_inv:
  assumes "request_inv s"
  shows "request_inv (cancel_clipboard s) \<and> cancelClipboard (cancel_clipboard s) = None"
proof (cases "cancelClipboard s")
  case (Some k)
  with assms have "k < length (clipboards s)" "\<not> cb_replied (clipboards s ! k)" by (auto simp: request_inv_def)
  moreover have "cancelClipboard (post_if_current q m t) = cancelClipboard t" for q m t
    using post_if_current_frame(1) [of q m t] by (simp add: requests_def)
  ultimately show ?thesis
    using clip_reply_inv [OF assms, of k False] Some by (simp add: cancel_clipboard_def clip_reply_def Let_def)
qed (simp add: cancel_clipboard_def assms)

lemma upload_reply_inv:
  assumes inv: "request_inv s" and k: "k < length (uploads s)"
  shows "request_inv (upload_reply k result s)"
proof (cases "up_replied (uploads s ! k)")
  case False
  let ?u = "uploads s ! k" and ?m = "mset (List.map_filter upload_response (sent s))"
  define msg where "msg = (case result of None \<Rightarrow> Msg_upload_response True [] | Some bytes \<Rightarrow> Msg_upload_response False bytes)"
  have msg: "upload_response (w, Control msg) = Some (Some w)" "clip_response (w, Control msg) = None" for w
    by (simp_all add: msg_def upload_response_def clip_response_def split: option.split)
  let ?s = "s\<lparr>uploads := (uploads s)[k := ?u\<lparr>up_replied := True\<rparr>]\<rparr>"
  let ?p = "post_if_current (up_requester ?u) msg ?s"
  have eq: "upload_reply k result s = ?p" using False by (simp add: upload_reply_def Let_def msg_def)
  have "requests ?p = requests ?s" by simp
  then have view: "clipboards ?p = clipboards s" "cancelClipboard ?p = cancelClipboard s"
    "uploads ?p = (uploads s)[k := ?u\<lparr>up_replied := True\<rparr>]"
    by (simp_all add: requests_def)
  have "mset (List.map_filter upload_response (sent ?p)) \<subseteq># add_mset (up_requester ?u) ?m"
    by (auto simp: msg split: option.split intro: subset_mset.order_trans [OF _ mset_subset_eq_add_right])
  also have "\<dots> \<subseteq># mset (map up_requester (filter up_replied (uploads ?p)))"
    using inv mset_filter_update [of k "uploads s" up_replied "?u\<lparr>up_replied := True\<rparr>"] k False
    by (simp add: view request_inv_def)
  finally have "mset (List.map_filter upload_response (sent ?p)) \<subseteq># \<dots>" .
  moreover have "List.map_filter clip_response (sent ?p) = List.map_filter clip_response (sent s)"
    by (simp add: msg split: option.split)
  ultimately show ?thesis
    using inv unfolding eq by (simp add: request_inv_def view)
qed (simp add: upload_reply_def inv)

lemma request_inv_post:
  assumes "request_inv s" "\<And>w. clip_response (w, m) = None" "\<And>w. upload_response (w, m) = None"
  shows "request_inv (post_current m s)"
  by (rule request_inv_cong [OF assms(1)]) (simp_all add: assms split: option.split)

lemma request_inv_append: "request_inv s \<Longrightarrow> request_inv (appendRaw t s)"
  by (rule request_inv_cong) simp_all

lemma request_inv_terminate: "request_inv (terminate s) = request_inv s"
  by (simp add: terminate_def split: option.split)

lemmas page_responses = clip_response_def upload_response_def

lemma request_inv_finish:
  assumes "request_inv s"
  shows "request_inv (finish s)"
proof -
  have "request_inv (setRunning False (cancel_clipboard s\<lparr>starting := False\<rparr>))"
    using cancel_clipboard_inv [OF assms] by (simp add: setRunning_def)
  then have "request_inv (post_current (Control Msg_stop) (setRunning False (cancel_clipboard s\<lparr>starting := False\<rparr>)))"
    by (rule request_inv_post) (simp_all add: page_responses)
  then show ?thesis using cancel_clipboard_inv [OF assms] by (simp add: finish_def Let_def request_inv_terminate)
qed

lemma request_inv_clipboard:
  assumes "request_inv s"
  shows "request_inv (requestHostClipboard q i bytes s)"
proof -
  define u where "u = cancel_clipboard s"
  have u: "request_inv u" "cancelClipboard u = None" using cancel_clipboard_inv [OF assms] by (simp_all add: u_def)
  then have "cb_replied (clipboards u ! k)" if "k < length (clipboards u)" for k
    using that by (auto simp: request_inv_def)
  then have "(Some (length (clipboards u)) = Some k) =
      (k < length (clipboards u @ [c]) \<and> \<not> cb_replied ((clipboards u @ [c]) ! k))" if "\<not> cb_replied c" for k c
    using that by (auto simp: nth_append less_Suc_eq)
  with u(1) show ?thesis
    unfolding requestHostClipboard_def Let_def u_def [symmetric] by (simp add: request_inv_def)
qed

lemma request_inv_upload: "request_inv s \<Longrightarrow> request_inv (requestHostUpload q s)"
  by (simp add: requestHostUpload_def request_inv_def)

lemma request_inv_post_if:
  assumes "request_inv s" "\<And>w. clip_response (w, Control m) = None" "\<And>w. upload_response (w, Control m) = None"
  shows "request_inv (post_if_current q m s)"
  using request_inv_post [OF assms] assms(1) by (simp add: post_if_current_def)

lemma request_inv_answers:
  assumes "request_inv s"
  shows "request_inv (on_output t s)" "request_inv (on_done t s)" "request_inv (sendTerminalResize s)"
    "request_inv (on_io_ready s)" "request_inv (on_guest_suite_request w i bytes s)" "request_inv (on_guest_suite_cancel w i s)"
    "request_inv (on_render_test_request report i s)" "request_inv (sendInputBytes bytes s)" "request_inv (suite_settled c answer s)"
    "request_inv (suite_cancel_resolved w i s)"
proof -
  show "request_inv (on_output t s)" "request_inv (on_io_ready s)"
    using assms by (simp_all add: on_output_def on_io_ready_def Let_def request_inv_append)
  show "request_inv (on_done t s)"
    using assms by (simp add: on_done_def append_line_def request_inv_finish request_inv_append)
  show "request_inv (sendTerminalResize s)" "request_inv (sendInputBytes bytes s)"
    unfolding sendTerminalResize_def sendInputBytes_def by (rule request_inv_post [OF assms]; simp add: page_responses)+
  show "request_inv (on_guest_suite_request w i bytes s)" "request_inv (on_guest_suite_cancel w i s)"
    "request_inv (suite_cancel_resolved w i s)"
    using assms by (simp_all add: on_guest_suite_request_def on_guest_suite_cancel_def suite_cancel_resolved_def Let_def)
  show "request_inv (on_render_test_request report i s)"
    unfolding on_render_test_request_def
    by (cases report) (simp add: request_inv_post_if [OF assms] page_responses)
  show "request_inv (suite_settled c answer s)"
    using assms by (simp add: suite_settled_def Let_def request_inv_post_if page_responses split: sum.split)
qed

lemma request_inv_message: "request_inv s \<Longrightarrow> request_inv (worker_onmessage report shown_error w data s)"
  by (cases data) (simp_all add: worker_onmessage_def request_inv_answers request_inv_clipboard request_inv_upload)

lemma request_inv_step: "app_step s s1 \<Longrightarrow> request_inv s \<Longrightarrow> request_inv s1"
proof (induction rule: app_step.induct)
  case (start s)
  then have "request_inv (post_current (Control Msg_stop) (cancel_clipboard s))"
    by (intro request_inv_post) (simp_all add: cancel_clipboard_inv page_responses)
  then show ?case using cancel_clipboard_inv [OF start] by (simp add: startShell_def request_inv_terminate)
next
  case (create s)
  show ?case
    by (rule request_inv_cong [OF create.prems]) (simp_all add: worker_created_def Let_def page_responses requests_def)
next
  case (frame s e r)
  then show ?case by simp
qed (simp_all add: shell_loaded_def mark_display_def request_inv_message worker_onerror_def append_line_def Let_def
    request_inv_finish request_inv_append clip_reply_inv clipboard_refused_def upload_reply_inv request_inv_answers
    runLoaderEvidence_def downloadEvidence_def completeEvidence_def timer_fired_def handleTerminalKeydown_def
    submit_line_def paste_def send_signal_def request_inv_post page_responses split: list.split option.split prod.split)


definition started_app :: "renderer \<Rightarrow> app" where
  "started_app r = worker_created (shell_loaded (startShell (new_app r 1)))"

lemma started_app_reachable: "app_step\<^sup>*\<^sup>* (new_app r 1) (started_app r)"
proof -
  have a: "app_step (new_app r 1) (startShell (new_app r 1))" by (rule app_step.start)
  have b: "app_step (startShell (new_app r 1)) (shell_loaded (startShell (new_app r 1)))"
    by (rule app_step.loaded) (simp add: startShell_def cancel_throws_def new_app_def)
  have c: "app_step (shell_loaded (startShell (new_app r 1))) (started_app r)"
    unfolding started_app_def by (rule app_step.create) (simp add: shell_loaded_def Let_def)
  show ?thesis
    by (rule converse_rtranclp_into_rtranclp, rule a, rule converse_rtranclp_into_rtranclp, rule b, rule r_into_rtranclp, rule c)
qed

lemma started_app_simps [simp]:
  "cur_worker (started_app r) = Some 0" "live (started_app r) = [0]" "clipboards (started_app r) = []"
  "sent (started_app r) = [(0, Start_message)]" "cancelClipboard (started_app r) = None"
  by (simp_all add: started_app_def worker_created_def shell_loaded_def startShell_def mark_display_def terminate_def
      post_current_def cancel_clipboard_def cancel_throws_def new_app_def Let_def)


subsection \<open>Loader evidence\<close>

lemma starts_with_append: "starts_with p t \<Longrightarrow> starts_with p (t @ u)"
  unfolding starts_with_def by (metis append_eq_conv_conj append_take_drop_id append_assoc)

lemma indexOf_append: "indexOf p t = Some i \<Longrightarrow> \<exists>j. indexOf p (t @ u) = Some j"
proof (induction t arbitrary: i)
  case Nil
  then show ?case by (cases u) (auto simp: starts_with_def split: if_splits)
next
  case (Cons c t)
  then show ?case using starts_with_append [of p "c # t" u] by (auto split: if_splits)
qed

lemma text_includes_append [simp]: "text_includes p t \<Longrightarrow> text_includes p (t @ u)"
  unfolding text_includes_def using indexOf_append [of p t _ u] by auto

lemma evidencePassed_append: "evidencePassed t \<Longrightarrow> evidencePassed (t @ u)"
  by (auto simp: evidencePassed_def list_all_iff)

definition evidence_inv :: "app \<Rightarrow> bool" where
  "evidence_inv s \<longleftrightarrow>
     evidenceWaitOffset s \<le> length (evidenceOutput s) \<and> evidenceStep s \<le> length evidenceSteps \<and>
     (\<exists>segs. length segs = evidenceStep s \<and> concat segs = take (evidenceWaitOffset s) (evidenceOutput s) \<and>
        (\<forall>i < evidenceStep s. evidence_ready (evidenceSteps ! i) (segs ! i))) \<and>
     (evidenceFinished s \<longrightarrow> evidencePassed (evidenceOutput s))"

lemma evidence_inv_cong: "evidence_inv s \<Longrightarrow> observed s1 = observed s \<Longrightarrow> evidence_inv s1"
  by (simp add: evidence_inv_def observed_def)

lemma evidence_inv_advance:
  assumes "evidence_inv s"
  shows "evidence_inv (advance_evidence s)"
proof (cases "evidenceStep s < length evidenceSteps \<and>
    evidence_ready (evidenceSteps ! evidenceStep s) (drop (evidenceWaitOffset s) (evidenceOutput s)) \<and> evidenceWorkerReady s")
  case True
  from assms obtain segs where segs: "length segs = evidenceStep s" "concat segs = take (evidenceWaitOffset s) (evidenceOutput s)"
    "\<forall>i < evidenceStep s. evidence_ready (evidenceSteps ! i) (segs ! i)" "evidenceFinished s \<longrightarrow> evidencePassed (evidenceOutput s)"
    by (auto simp: evidence_inv_def)
  define xs where "xs = segs @ [drop (evidenceWaitOffset s) (evidenceOutput s)]"
  have "length xs = Suc (evidenceStep s) \<and> concat xs = evidenceOutput s \<and>
      (\<forall>i < Suc (evidenceStep s). evidence_ready (evidenceSteps ! i) (xs ! i))"
    using segs True by (auto simp: xs_def nth_append less_Suc_eq)
  then have "\<exists>xs. length xs = Suc (evidenceStep s) \<and> concat xs = evidenceOutput s \<and>
      (\<forall>i < Suc (evidenceStep s). evidence_ready (evidenceSteps ! i) (xs ! i))" ..
  then show ?thesis
    unfolding advance_evidence_def if_P [OF True] evidence_inv_def using True segs(4) by simp
qed (use assms in \<open>auto simp: advance_evidence_def\<close>)

lemma evidence_inv_complete: "evidence_inv s \<Longrightarrow> evidence_inv (completeEvidence s)"
  by (auto simp: completeEvidence_def evidence_inv_def)

lemma evidence_inv_append:
  assumes "evidence_inv s"
  shows "evidence_inv (appendRaw t s)"
proof -
  define u where "u = (let r = display s; s1 = mark_display (r\<lparr>r_model := write_text t (r_model r)\<rparr>) s;
      all = transcript s @ concat (map utf16 t) in s1\<lparr>transcript := drop (length all - transcriptLimit) all\<rparr>)"
  have u: "observed u = observed s" by (simp add: u_def observed_def mark_display_def Let_def)
  then have eo: "evidenceOutput u = evidenceOutput s" by (simp add: observed_def)
  have "evidence_inv u" using assms u by (rule evidence_inv_cong)
  then have "evidence_inv (u\<lparr>evidenceOutput := evidenceOutput s @ t\<rparr>)"
    using evidencePassed_append by (auto simp: evidence_inv_def eo)
  then show ?thesis
    using \<open>evidence_inv u\<close> unfolding appendRaw_def
    by (simp add: u_def Let_def evidence_inv_complete evidence_inv_advance)
qed

lemma observed_update [simp]:
  "observed (s\<lparr>cur_worker := v0\<rparr>) = observed s"
  "observed (s\<lparr>created := v1\<rparr>) = observed s"
  "observed (s\<lparr>live := v2\<rparr>) = observed s"
  "observed (s\<lparr>loading := v3\<rparr>) = observed s"
  "observed (s\<lparr>creating := v4\<rparr>) = observed s"
  "observed (s\<lparr>display := v5\<rparr>) = observed s"
  "observed (s\<lparr>transcript := v6\<rparr>) = observed s"
  "observed (s\<lparr>starting := v7\<rparr>) = observed s"
  "observed (s\<lparr>running := v8\<rparr>) = observed s"
  "observed (s\<lparr>input_enabled := v9\<rparr>) = observed s"
  "observed (s\<lparr>cancelClipboard := v10\<rparr>) = observed s"
  "observed (s\<lparr>clipboards := v11\<rparr>) = observed s"
  "observed (s\<lparr>uploads := v12\<rparr>) = observed s"
  "observed (s\<lparr>guestSuiteId := v13\<rparr>) = observed s"
  "observed (s\<lparr>suite_calls := v14\<rparr>) = observed s"
  "observed (s\<lparr>suite_cancels := v15\<rparr>) = observed s"
  "observed (s\<lparr>cancelled_suites := v16\<rparr>) = observed s"
  "observed (s\<lparr>downloads := v17\<rparr>) = observed s"
  "observed (s\<lparr>evidenceWorkerReady := v18\<rparr>) = observed s"
  "observed (s\<lparr>timers := v19\<rparr>) = observed s"
  "observed (s\<lparr>sent := v20\<rparr>) = observed s"
  by (simp_all add: observed_def)

lemma observed_clip_reply [simp]: "observed (clip_reply k ok s) = observed s"
  by (simp add: clip_reply_def Let_def)

lemma observed_cancel_clipboard [simp]: "observed (cancel_clipboard s) = observed s"
  by (simp add: cancel_clipboard_def split: option.split)

lemma observed_frame [simp]:
  "observed (upload_reply k result s) = observed s" "observed (finish s) = observed s"
  "observed (startShell s) = observed s" "observed (sendInputBytes bytes s) = observed s"
  "observed (sendTerminalResize s) = observed s" "observed (requestHostClipboard q i bytes s) = observed s"
  "observed (requestHostUpload q s) = observed s" "observed (on_render_test_request report i s) = observed s"
  "observed (on_guest_suite_request w i bytes s) = observed s" "observed (on_guest_suite_cancel w i s) = observed s"
  "observed (shell_loaded s) = observed s" "observed (worker_created s) = observed s" "observed (clipboard_refused k ok s) = observed s"
  "observed (suite_settled c answer s) = observed s" "observed (suite_cancel_resolved w i s) = observed s"
  "observed (timer_fired s) = observed s" "observed (snd (handleTerminalKeydown e s)) = observed s"
  "observed (submit_line t s) = observed s" "observed (paste t s) = observed s" "observed (send_signal n s) = observed s"
  by (simp_all add: upload_reply_def finish_def startShell_def sendInputBytes_def sendTerminalResize_def requestHostClipboard_def
      requestHostUpload_def on_render_test_request_def on_guest_suite_request_def on_guest_suite_cancel_def shell_loaded_def
      mark_display_def worker_created_def clipboard_refused_def suite_settled_def suite_cancel_resolved_def timer_fired_def
      handleTerminalKeydown_def submit_line_def paste_def send_signal_def setRunning_def Let_def
      split: prod.split sum.split list.split option.split)

lemma evidence_inv_message:
  assumes "evidence_inv s"
  shows "evidence_inv (worker_onmessage report shown_error w data s)"
proof -
  have out: "evidence_inv (on_output t s)" for t
    by (rule evidence_inv_cong [OF evidence_inv_append [OF assms, of t]]) (simp add: on_output_def Let_def)
  have "evidence_inv (s\<lparr>evidenceWorkerReady := True\<rparr>)" by (rule evidence_inv_cong [OF assms]) simp
  then have io: "evidence_inv (on_io_ready s)" by (simp add: on_io_ready_def Let_def evidence_inv_append)
  have "evidence_inv (if t \<noteq> [] then append_line t s else s)" for t
    using assms by (simp add: append_line_def evidence_inv_append)
  then have gone: "evidence_inv (on_done t s)" for t
    unfolding on_done_def by (rule evidence_inv_cong) simp
  note keep = evidence_inv_cong [OF assms]
  show ?thesis by (cases data) (simp_all add: worker_onmessage_def out io gone assms keep)
qed

lemma evidence_inv_step: "app_step s s1 \<Longrightarrow> evidence_inv s \<Longrightarrow> evidence_inv s1"
proof (induction rule: app_step.induct)
  case (message w s report shown data)
  then show ?case by (simp add: evidence_inv_message)
next
  case (worker_error w s t)
  show ?case
    unfolding worker_onerror_def append_line_def
    by (rule evidence_inv_cong [OF evidence_inv_append [OF worker_error.prems]]) simp
next
  case (evidence s)
  have "evidence_inv (s\<lparr>evidenceStarted := True, evidenceFinished := False, evidenceOutput := [], evidenceStep := 0,
      evidenceWaitOffset := 0, evidenceWorkerReady := False\<rparr>)"
    by (simp add: evidence_inv_def)
  then have "evidence_inv (sendInputBytes bs (s\<lparr>evidenceStarted := True, evidenceFinished := False, evidenceOutput := [], evidenceStep := 0,
      evidenceWaitOffset := 0, evidenceWorkerReady := False\<rparr>))" for bs
    by (rule evidence_inv_cong) simp
  with evidence show ?case by (simp add: runLoaderEvidence_def)
next
  case (evidence_log s)
  then show ?case by (simp add: downloadEvidence_def Let_def evidence_inv_complete)
qed (erule evidence_inv_cong, simp)+

lemma text_includes_prepend: "text_includes p t \<Longrightarrow> text_includes p (u @ t)"
  by (induction u) (auto simp: text_includes_def)

lemma text_includes_concat:
  assumes "i < length segs" "text_includes p (segs ! i)"
  shows "text_includes p (concat segs)"
proof -
  have "concat segs = concat (take i segs) @ segs ! i @ concat (drop (Suc i) segs)"
    by (metis assms(1) concat.simps(2) concat_append id_take_nth_drop)
  then show ?thesis using assms(2) by (simp add: text_includes_prepend)
qed

lemma evidence_ready_marker: "evidence_ready st t \<Longrightarrow> es_marker st = Some m \<Longrightarrow> text_includes m t"
  by (auto simp: evidence_ready_def text_includes_def split: option.splits)

lemma marker_steps: "(name, m) \<in> set evidenceMarkers \<Longrightarrow> \<exists>i < length evidenceSteps. es_marker (evidenceSteps ! i) = Some m"
proof -
  have "set (map (\<lambda>(_, m). Some m) evidenceMarkers) \<subseteq> set (map es_marker evidenceSteps)"
    by (simp add: evidenceMarkers_def evidenceSteps_def)
  then show "(name, m) \<in> set evidenceMarkers \<Longrightarrow> \<exists>i < length evidenceSteps. es_marker (evidenceSteps ! i) = Some m"
    by (force simp: in_set_conv_nth)
qed

text \<open>
  The two ways in which a step changes the commands that wait for their timer: the command of the current step is released,
  when the output since the last release shows what the step waits for; or the oldest command is sent.
\<close>

definition command_released :: "app \<Rightarrow> app \<Rightarrow> bool" where
  "command_released s s1 \<longleftrightarrow>
     evidenceStep s < length evidenceSteps \<and> evidenceStep s1 = Suc (evidenceStep s) \<and>
     timers s1 = timers s @ [utf8_encode (es_command (evidenceSteps ! evidenceStep s) @ [10])] \<and>
     (\<exists>t. evidenceOutput s1 = evidenceOutput s @ t) \<and>
     evidence_ready (evidenceSteps ! evidenceStep s) (drop (evidenceWaitOffset s) (evidenceOutput s1)) \<and>
     evidenceWaitOffset s1 = length (evidenceOutput s1) \<and> \<not> evidenceWorkerReady s1"

definition command_sent :: "app \<Rightarrow> app \<Rightarrow> bool" where
  "command_sent s s1 \<longleftrightarrow>
     (\<exists>bytes. timers s = bytes # timers s1 \<and>
        sent s1 = sent s @ (case cur_worker s of None \<Rightarrow> [] | Some w \<Rightarrow> [(w, Control (Msg_input bytes))]))"

definition io_ready_step :: "app \<Rightarrow> app \<Rightarrow> bool" where
  "io_ready_step s s1 \<longleftrightarrow> (\<exists>report shown w a b. s1 = worker_onmessage report shown w (Post_io_ready a b) s)"

definition evidence_view :: "app \<Rightarrow> nat list list \<times> (bool \<times> bool \<times> jstr \<times> nat \<times> nat) \<times> bool" where
  "evidence_view s = (timers s, observed s, evidenceWorkerReady s)"

lemma command_released_cong:
  "evidence_view s1 = evidence_view u \<Longrightarrow> command_released s s1 = command_released s u"
  by (simp add: command_released_def evidence_view_def observed_def)

definition evidence_quiet :: "app \<Rightarrow> app \<Rightarrow> bool" where
  "evidence_quiet s s1 \<longleftrightarrow> timers s1 = timers s \<and> evidenceStep s1 = evidenceStep s"

lemma append_moves:
  "evidence_quiet s (appendRaw t s) \<or> command_released s (appendRaw t s) \<and> evidenceWorkerReady s"
  by (auto simp: appendRaw_def advance_evidence_def completeEvidence_def mark_display_def evidence_quiet_def command_released_def Let_def)

lemma view_post [simp]:
  "evidence_view (post_current m s) = evidence_view s" "evidence_view (post_if_current q n s) = evidence_view s"
  "evidence_view (terminate s) = evidence_view s" "evidence_view (clip_reply k ok s) = evidence_view s"
  "evidence_view (cancel_clipboard s) = evidence_view s" "evidence_view (setRunning on s) = evidence_view s"
  by (auto simp: evidence_view_def observed_def post_current_def post_if_current_def terminate_def clip_reply_def cancel_clipboard_def
      setRunning_def Let_def split: option.split)

lemma view_update [simp]:
  "evidence_view (s\<lparr>cur_worker := v0\<rparr>) = evidence_view s"
  "evidence_view (s\<lparr>created := v1\<rparr>) = evidence_view s"
  "evidence_view (s\<lparr>live := v2\<rparr>) = evidence_view s"
  "evidence_view (s\<lparr>loading := v3\<rparr>) = evidence_view s"
  "evidence_view (s\<lparr>creating := v4\<rparr>) = evidence_view s"
  "evidence_view (s\<lparr>display := v5\<rparr>) = evidence_view s"
  "evidence_view (s\<lparr>transcript := v6\<rparr>) = evidence_view s"
  "evidence_view (s\<lparr>starting := v7\<rparr>) = evidence_view s"
  "evidence_view (s\<lparr>running := v8\<rparr>) = evidence_view s"
  "evidence_view (s\<lparr>input_enabled := v9\<rparr>) = evidence_view s"
  "evidence_view (s\<lparr>cancelClipboard := v10\<rparr>) = evidence_view s"
  "evidence_view (s\<lparr>clipboards := v11\<rparr>) = evidence_view s"
  "evidence_view (s\<lparr>uploads := v12\<rparr>) = evidence_view s"
  "evidence_view (s\<lparr>guestSuiteId := v13\<rparr>) = evidence_view s"
  "evidence_view (s\<lparr>suite_calls := v14\<rparr>) = evidence_view s"
  "evidence_view (s\<lparr>suite_cancels := v15\<rparr>) = evidence_view s"
  "evidence_view (s\<lparr>cancelled_suites := v16\<rparr>) = evidence_view s"
  "evidence_view (s\<lparr>downloads := v17\<rparr>) = evidence_view s"
  "evidence_view (s\<lparr>sent := v18\<rparr>) = evidence_view s"
  by (simp_all add: evidence_view_def)

lemma view_frame [simp]:
  "evidence_view (upload_reply k result s) = evidence_view s" "evidence_view (finish s) = evidence_view s"
  "evidence_view (startShell s) = evidence_view s" "evidence_view (sendInputBytes bytes s) = evidence_view s"
  "evidence_view (sendTerminalResize s) = evidence_view s" "evidence_view (requestHostClipboard q i bytes s) = evidence_view s"
  "evidence_view (requestHostUpload q s) = evidence_view s" "evidence_view (on_render_test_request report i s) = evidence_view s"
  "evidence_view (on_guest_suite_request w i bytes s) = evidence_view s" "evidence_view (on_guest_suite_cancel w i s) = evidence_view s"
  "evidence_view (shell_loaded s) = evidence_view s" "evidence_view (worker_created s) = evidence_view s"
  "evidence_view (clipboard_refused k ok s) = evidence_view s" "evidence_view (suite_settled c answer s) = evidence_view s"
  "evidence_view (suite_cancel_resolved w i s) = evidence_view s" "evidence_view (snd (handleTerminalKeydown e s)) = evidence_view s"
  "evidence_view (submit_line t s) = evidence_view s" "evidence_view (paste t s) = evidence_view s" "evidence_view (send_signal n s) = evidence_view s"
  by (simp_all add: upload_reply_def finish_def startShell_def sendInputBytes_def sendTerminalResize_def requestHostClipboard_def
      requestHostUpload_def on_render_test_request_def on_guest_suite_request_def on_guest_suite_cancel_def shell_loaded_def
      mark_display_def worker_created_def clipboard_refused_def suite_settled_def suite_cancel_resolved_def
      handleTerminalKeydown_def submit_line_def paste_def send_signal_def Let_def
      split: prod.split sum.split list.split option.split)

lemma view_quiet: "evidence_view s1 = evidence_view s \<Longrightarrow> evidence_quiet s s1"
  by (simp add: evidence_quiet_def evidence_view_def observed_def)

lemma append_then_moves:
  assumes "evidence_view s1 = evidence_view (appendRaw t s)"
  shows "evidence_quiet s s1 \<or> command_released s s1 \<and> evidenceWorkerReady s"
  using append_moves [of s t] command_released_cong [OF assms] assms
  by (auto simp: evidence_quiet_def evidence_view_def observed_def)

lemma message_moves:
  assumes "s1 = worker_onmessage report shown w data s"
  shows "evidence_quiet s s1 \<or> command_released s s1 \<and> (evidenceWorkerReady s \<or> io_ready_step s s1)"
proof -
  have out: "evidence_view (on_output t s) = evidence_view (appendRaw t s)" for t by (simp add: on_output_def Let_def)
  show ?thesis
  proof (cases data)
    case (Post_output t)
    with assms append_then_moves [OF out] show ?thesis by (auto simp: worker_onmessage_def)
  next
    case (Post_started a b)
    then have "evidence_view s1 = evidence_view (s\<lparr>evidenceWorkerReady := True\<rparr>)" using assms by (simp add: worker_onmessage_def)
    then show ?thesis by (simp add: evidence_quiet_def evidence_view_def observed_def)
  next
    case (Post_io_ready a b)
    then have s1: "s1 = on_io_ready s" "io_ready_step s s1" using assms by (auto simp: worker_onmessage_def io_ready_step_def)
    have "command_released (s\<lparr>evidenceWorkerReady := True\<rparr>) v = command_released s v"
      "evidence_quiet (s\<lparr>evidenceWorkerReady := True\<rparr>) v = evidence_quiet s v" for v
      by (simp_all add: command_released_def evidence_quiet_def)
    then show ?thesis
      using s1 append_moves [of "s\<lparr>evidenceWorkerReady := True\<rparr>" "[]"] by (auto simp: on_io_ready_def Let_def evidence_quiet_def)
  next
    case (Post_done d)
    with assms append_then_moves [of s1 "d_error d @ [10]" s] view_quiet [of s1 s] show ?thesis
      by (auto simp: worker_onmessage_def on_done_def append_line_def)
  next
    case (Post_failed e)
    with assms append_then_moves [of s1 "shown e @ [10]" s] view_quiet [of s1 s] show ?thesis
      by (auto simp: worker_onmessage_def on_done_def append_line_def)
  qed (use assms view_quiet [of s1 s] in \<open>simp_all add: worker_onmessage_def\<close>)
qed

lemma view_same:
  "evidence_view s1 = evidence_view s \<Longrightarrow> timers s1 = timers s \<and> (evidenceStep s1 = evidenceStep s \<or> evidenceStep s1 = 0)"
  by (simp add: evidence_view_def observed_def)

lemma step_moves:
  "app_step s s1 \<Longrightarrow> timers s1 = timers s \<and> (evidenceStep s1 = evidenceStep s \<or> evidenceStep s1 = 0) \<or>
     command_sent s s1 \<and> evidenceStep s1 = evidenceStep s \<or>
     command_released s s1 \<and> (evidenceWorkerReady s \<or> io_ready_step s s1)"
proof (induction rule: app_step.induct)
  case (message w s report shown data)
  show ?case using message_moves [OF refl, of s report shown w data] by (auto simp: evidence_quiet_def)
next
  case (worker_error w s t)
  define l where "l = (if t = [] then js ''worker error'' else t) @ [10]"
  have "evidence_view (worker_onerror t s) = evidence_view (appendRaw l s)"
    by (simp add: worker_onerror_def append_line_def l_def)
  from append_then_moves [OF this] show ?case by (auto simp: evidence_quiet_def)
next
  case (evidence s)
  have "evidence_view (runLoaderEvidence s) = evidence_view s \<or> timers (runLoaderEvidence s) = timers s \<and> evidenceStep (runLoaderEvidence s) = 0"
    by (simp add: runLoaderEvidence_def sendInputBytes_def post_current_def split: option.split)
  then show ?case using view_quiet [of "runLoaderEvidence s" s] by (auto simp: evidence_quiet_def)
next
  case (evidence_log s)
  show ?case by (simp add: downloadEvidence_def completeEvidence_def Let_def)
next
  case (timer s)
  show ?case
    by (auto simp: timer_fired_def sendInputBytes_def command_sent_def post_current_def split: list.split option.split)
qed (rule disjI1, rule view_same, simp)+


definition sample_evidence :: "renderer \<Rightarrow> app" where
  "sample_evidence r =
     on_output (js ''__WASTE_EVIDENCE_BEGIN__# '') (on_io_ready (runLoaderEvidence (started_app r)))"

lemma sample_evidence_reachable: "app_step\<^sup>*\<^sup>* (new_app r 1) (sample_evidence r)"
proof -
  let ?e = "runLoaderEvidence (started_app r)"
  have cur: "cur_worker ?e = Some 0" "0 \<in> set (live ?e)"
    by (simp_all add: runLoaderEvidence_def sendInputBytes_def post_current_def)
  have io: "cur_worker (on_io_ready ?e) = Some 0" "0 \<in> set (live (on_io_ready ?e))"
    using cur by (simp_all add: on_io_ready_def Let_def appendRaw_def advance_evidence_def completeEvidence_def mark_display_def)
  have a: "app_step (started_app r) ?e" by (rule app_step.evidence)
  have b: "app_step ?e (on_io_ready ?e)"
    using app_step.message [of 0 ?e "(True, [])" "\<lambda>_. []" "Post_io_ready None 0"] cur by (simp add: worker_onmessage_def)
  have c: "app_step (on_io_ready ?e) (sample_evidence r)"
    using app_step.message [of 0 "on_io_ready ?e" "(True, [])" "\<lambda>_. []" "Post_output (js ''__WASTE_EVIDENCE_BEGIN__# '')"] io
    by (simp add: worker_onmessage_def sample_evidence_def)
  show ?thesis
    by (rule rtranclp_trans, rule started_app_reachable, rule converse_rtranclp_into_rtranclp, rule a,
        rule converse_rtranclp_into_rtranclp, rule b, rule r_into_rtranclp, rule c)
qed

lemma first_evidence_step:
  assumes "evidenceStarted e" "evidenceStep e = 0" "evidenceOutput e = []" "evidenceWaitOffset e = 0" "0 < length evidenceSteps"
    and "\<not> evidence_ready (evidenceSteps ! 0) []" "evidence_ready (evidenceSteps ! 0) t"
  shows "evidenceStep (on_output t (on_io_ready e)) = 1"
proof -
  define u where "u = on_io_ready e"
  have u: "evidenceStarted u" "evidenceStep u = 0" "evidenceOutput u = []" "evidenceWaitOffset u = 0" "evidenceWorkerReady u"
    using assms by (simp_all add: u_def on_io_ready_def appendRaw_def mark_display_def advance_evidence_def completeEvidence_def Let_def)
  have "evidenceStep (appendRaw t u) = 1"
    using u assms(5,7) by (simp add: appendRaw_def mark_display_def advance_evidence_def completeEvidence_def Let_def)
  then show ?thesis by (simp add: on_output_def Let_def u_def)
qed

lemma sample_evidence_step: "evidenceStep (sample_evidence r) = 1"
  unfolding sample_evidence_def
proof (rule first_evidence_step)
  show "0 < length evidenceSteps" "\<not> evidence_ready (evidenceSteps ! 0) []"
    "evidence_ready (evidenceSteps ! 0) (js ''__WASTE_EVIDENCE_BEGIN__# '')"
    by code_simp+
qed (simp_all add: runLoaderEvidence_def sendInputBytes_def post_current_def)


subsection \<open>Messages to the worker\<close>

definition post_ok :: "page_post \<Rightarrow> bool" where
  "post_ok p = (case p of
       Start_message \<Rightarrow> True
     | Control m \<Rightarrow> (case m of
           Msg_input bytes \<Rightarrow> \<forall>b \<in> set bytes. b < 256
         | Msg_signal n p g \<Rightarrow> n \<in> Some ` {2, 15, 1, 14, 28} \<and> p = Some 0 \<and> g = Some 0
         | Msg_resize c r \<Rightarrow> c = Some 80 \<and> r = Some 24
         | Msg_advance_clock _ _ \<Rightarrow> False
         | Msg_set_clock _ _ _ _ \<Rightarrow> False
         | Msg_cancel \<Rightarrow> False
         | _ \<Rightarrow> True))"

definition sent_inv :: "app \<Rightarrow> bool" where
  "sent_inv s \<longleftrightarrow> (\<forall>p \<in> set (sent s). post_ok (snd p)) \<and> (\<forall>bs \<in> set (timers s). \<forall>b \<in> set bs. b < 256) \<and>
     columns (r_model (display s)) = 80 \<and> rows (r_model (display s)) = 24"

lemma sent_inv_update [simp]:
  "sent_inv (s\<lparr>cur_worker := v0\<rparr>) = sent_inv s"
  "sent_inv (s\<lparr>created := v1\<rparr>) = sent_inv s"
  "sent_inv (s\<lparr>live := v2\<rparr>) = sent_inv s"
  "sent_inv (s\<lparr>loading := v3\<rparr>) = sent_inv s"
  "sent_inv (s\<lparr>creating := v4\<rparr>) = sent_inv s"
  "sent_inv (s\<lparr>transcript := v5\<rparr>) = sent_inv s"
  "sent_inv (s\<lparr>starting := v6\<rparr>) = sent_inv s"
  "sent_inv (s\<lparr>running := v7\<rparr>) = sent_inv s"
  "sent_inv (s\<lparr>input_enabled := v8\<rparr>) = sent_inv s"
  "sent_inv (s\<lparr>cancelClipboard := v9\<rparr>) = sent_inv s"
  "sent_inv (s\<lparr>clipboards := v10\<rparr>) = sent_inv s"
  "sent_inv (s\<lparr>uploads := v11\<rparr>) = sent_inv s"
  "sent_inv (s\<lparr>guestSuiteId := v12\<rparr>) = sent_inv s"
  "sent_inv (s\<lparr>suite_calls := v13\<rparr>) = sent_inv s"
  "sent_inv (s\<lparr>suite_cancels := v14\<rparr>) = sent_inv s"
  "sent_inv (s\<lparr>cancelled_suites := v15\<rparr>) = sent_inv s"
  "sent_inv (s\<lparr>downloads := v16\<rparr>) = sent_inv s"
  "sent_inv (s\<lparr>evidenceStarted := v17\<rparr>) = sent_inv s"
  "sent_inv (s\<lparr>evidenceFinished := v18\<rparr>) = sent_inv s"
  "sent_inv (s\<lparr>evidenceOutput := v19\<rparr>) = sent_inv s"
  "sent_inv (s\<lparr>evidenceStep := v20\<rparr>) = sent_inv s"
  "sent_inv (s\<lparr>evidenceWaitOffset := v21\<rparr>) = sent_inv s"
  "sent_inv (s\<lparr>evidenceWorkerReady := v22\<rparr>) = sent_inv s"
  by (simp_all add: sent_inv_def)

lemma sent_inv_post [simp]: "post_ok m \<Longrightarrow> sent_inv (post_current m s) = sent_inv s"
  by (auto simp: sent_inv_def split: option.split)

lemma sent_inv_post_if [simp]: "post_ok (Control m) \<Longrightarrow> sent_inv (post_if_current q m s) = sent_inv s"
  by (simp add: post_if_current_def)

lemma sent_inv_terminate [simp]: "sent_inv (terminate s) = sent_inv s"
  by (simp add: sent_inv_def)

lemma sent_inv_input [simp]: "\<forall>b \<in> set bytes. b < 256 \<Longrightarrow> sent_inv (sendInputBytes bytes s) = sent_inv s"
  by (simp add: sendInputBytes_def post_ok_def)

lemma sent_inv_resize: "sent_inv s \<Longrightarrow> sent_inv (sendTerminalResize s)"
  unfolding sendTerminalResize_def by (subst sent_inv_post) (simp_all add: sent_inv_def post_ok_def)

lemma sent_inv_clip [simp]: "sent_inv (clip_reply k ok s) = sent_inv s"
  by (simp add: clip_reply_def Let_def post_ok_def)

lemma sent_inv_cancel_clipboard [simp]: "sent_inv (cancel_clipboard s) = sent_inv s"
  by (simp add: cancel_clipboard_def split: option.split)

lemma sent_inv_finish [simp]: "sent_inv (finish s) = sent_inv s"
  by (simp add: finish_def setRunning_def Let_def post_ok_def)

lemma render_model [simp]: "r_model (snd (render r)) = r_model r"
  by (auto simp: render_def Let_def split: sum.split)

lemma sent_inv_display:
  "sent_inv (s\<lparr>display := r\<rparr>) = (sent_inv (s\<lparr>display := display s\<lparr>r_model := r_model r\<rparr>\<rparr>))"
  by (simp add: sent_inv_def)

lemma dims_write [simp]: "columns (write_text t m) = columns m" "rows (write_text t m) = rows m"
proof -
  have "steady (text_decoder m, columns m, rows m) (write_text t m)"
    by (rule frame.write_text_inv) (simp_all add: steady_def)
  then show "columns (write_text t m) = columns m" "rows (write_text t m) = rows m" by (simp_all add: steady_def)
qed

lemma sent_inv_append: "sent_inv s \<Longrightarrow> sent_inv (appendRaw t s)"
  by (auto simp: appendRaw_def mark_display_def markDirty_def advance_evidence_def completeEvidence_def Let_def sent_inv_def utf8_encode_bytes)

lemma sent_inv_message:
  assumes "sent_inv s"
  shows "sent_inv (worker_onmessage report shown_error w data s)"
proof (cases data)
  case (Post_started p n)
  then show ?thesis using assms by (simp add: worker_onmessage_def sent_inv_resize)
next
  case (Post_render_test_request i)
  then show ?thesis
    using assms by (simp add: worker_onmessage_def on_render_test_request_def post_ok_def split: prod.split)
qed (use assms in \<open>simp_all add: worker_onmessage_def on_output_def on_io_ready_def on_done_def append_line_def sent_inv_append Let_def
      on_guest_suite_request_def on_guest_suite_cancel_def requestHostUpload_def requestHostClipboard_def\<close>)

lemma key_bytes_range: "key_bytes m e = (Some bytes, b) \<Longrightarrow> \<forall>x \<in> set bytes. x < 256"
  by (auto simp: key_bytes_def utf8_encode_bytes Let_def split: if_splits option.splits)

lemma sent_inv_step: "app_step s s1 \<Longrightarrow> sent_inv s \<Longrightarrow> sent_inv s1"
proof (induction rule: app_step.induct)
  case (loaded s)
  then show ?case by (simp add: shell_loaded_def mark_display_def markDirty_def sent_inv_def fullReset_def Let_def)
next
  case (create s)
  then show ?case by (auto simp: worker_created_def sent_inv_def post_ok_def Let_def)
next
  case (frame s e r)
  then have "r_model r = r_model (display s)"
    using render_model [of "display s\<lparr>r_frame := 0\<rparr>"] by (simp add: frame_callback_def)
  with frame show ?case by (simp add: sent_inv_def)
next
  case (key s e)
  then show ?case
    using key_bytes_range [of "r_model (display s)" e]
    by (auto simp: handleTerminalKeydown_def split: prod.split option.split)
next
  case (timer s)
  then show ?case
  proof (cases "timers s")
    case (Cons bs ts)
    with timer have "\<forall>b \<in> set bs. b < 256" "sent_inv (s\<lparr>timers := ts\<rparr>)" by (simp_all add: sent_inv_def)
    with Cons show ?thesis by (simp add: timer_fired_def)
  qed (simp add: timer_fired_def)
qed (simp_all add: sent_inv_message sent_inv_resize sent_inv_append startShell_def worker_onerror_def append_line_def
    clipboard_refused_def upload_reply_def suite_settled_def suite_cancel_resolved_def runLoaderEvidence_def downloadEvidence_def
    completeEvidence_def submit_line_def paste_def send_signal_def utf8_encode_bytes Let_def post_ok_def split: option.split sum.split)

lemma page_size: "to_int32 80 = 80" "to_int32 24 = 24"
  using to_int32_of_int [of 80] to_int32_of_int [of 24] by simp_all

lemma new_model_dims: "new_model 80 24 = Inr m \<Longrightarrow> columns m = 80 \<and> rows m = 24"
  by (auto simp: new_model_def page_size Let_def elim!: bind_c_InrE)

lemma new_model_page: "\<exists>m. new_model 80 24 = Inr m"
  by (simp add: new_model_def makeScreen_def page_size Let_def)

lemma early_message_accepted:
  assumes "post_ok (Control m)" "\<not> engineReady k"
  shows "\<exists>k1. onmessage E m k = (Inr (), k1) \<and> (\<forall>c. Post_control_error c \<in> set (posts k1) \<longrightarrow>
    Post_control_error c \<in> set (posts k) \<or> pendingSignalLimit \<le> length (pendingSignals k) \<and> (\<exists>n p g. m = Msg_signal n p g))"
proof -
  note stmts = onmessage_def bnd_def thn_def gets_def modify_def ret_def whenw_def postMessage_def
  show ?thesis
  proof (cases m)
    case (Msg_input bytes)
    then show ?thesis using assms by (simp add: stmts on_input_def)
  next
    case (Msg_signal a p g)
    then have "int_in a 1 128" "int_in p 0 0x7fffffff" "int_in g 0 0x7fffffff" "the p = 0" "the g = 0"
      using assms(1) by (auto simp: post_ok_def int_in_def)
    then show ?thesis using Msg_signal assms(2) by (auto simp: stmts on_signal_def controlError_def)
  next
    case (Msg_resize c r)
    then have "int_in c 1 65535" "int_in r 1 65535" using assms(1) by (auto simp: post_ok_def int_in_def)
    then show ?thesis using Msg_resize assms(2) by (simp add: stmts on_resize_def)
  next
    case Msg_stop
    then show ?thesis by (simp add: stmts on_stop_def drop_guest_suite_def wake_waiter_def)
  qed (use assms(1,2) in \<open>simp_all add: stmts post_ok_def on_guest_suite_response_def on_render_test_response_def
        on_clipboard_response_def on_upload_response_def host_io_guard_def\<close>)
qed

text \<open>
  C6. What the page posts passes the checks of the worker: on the 80 by 24 terminal, in every interleaving of
  keys, pasted text, signals and resizes, a message of the page that reaches a worker whose engine is still loading
  is processed without an exception, and the only one that can cause a control error is a signal that
  arrives when the queue of early signals is full.
\<close>

theorem page_messages_accepted:
  fixes E :: "'e engine" and k :: "'e worker"
  assumes "app_step\<^sup>*\<^sup>* (new_app r h) s" "new_model 80 24 = Inr (r_model r)"
    and "(w, Control m) \<in> set (sent s)" "\<not> engineReady k"
  shows "\<exists>k1. onmessage E m k = (Inr (), k1) \<and> (\<forall>c. Post_control_error c \<in> set (posts k1) \<longrightarrow>
    Post_control_error c \<in> set (posts k) \<or> pendingSignalLimit \<le> length (pendingSignals k) \<and> (\<exists>n p g. m = Msg_signal n p g))"
proof -
  have "sent_inv (new_app r h)" using new_model_dims [OF assms(2)] by (simp add: sent_inv_def new_app_def)
  with assms(1) have "sent_inv s" by (induction rule: rtranclp_induct) (auto intro: sent_inv_step)
  with assms(3) have "post_ok (Control m)" by (auto simp: sent_inv_def)
  then show ?thesis using assms(4) by (rule early_message_accepted)
qed

theorem page_messages_accepted_witness:
  "\<forall>E :: unit engine. \<exists>k1. onmessage E (Msg_signal (Some 15) (Some 0) (Some 0)) (new_worker ()) = (Inr (), k1)"
proof
  fix E :: "unit engine"
  obtain m where "new_model 80 24 = Inr m" using new_model_page by blast
  define r where "r = \<lparr>r_model = m, cellWidth = 8, cellHeight = 19, pixel_ratio = 1, dirty = True, r_frame = 0,
        useWebGL = False, has_ctx = False, glyphRanges = Map.empty, canvas_width = 300, canvas_height = 150,
        style_width = 0, style_height = 0, paintings = []\<rparr>"
  have r: "new_model 80 24 = Inr (r_model r)" using \<open>new_model 80 24 = Inr m\<close> by (simp add: r_def)
  have "app_step (started_app r) (send_signal 15 (started_app r))" by (rule app_step.signal) simp
  with started_app_reachable have reach: "app_step\<^sup>*\<^sup>* (new_app r 1) (send_signal 15 (started_app r))"
    by (rule rtranclp.rtrancl_into_rtrancl)
  have posted: "(0, Control (Msg_signal (Some 15) (Some 0) (Some 0))) \<in> set (sent (send_signal 15 (started_app r)))"
    by (simp add: send_signal_def)
  have "\<not> engineReady (new_worker ())" by (simp add: new_worker_def)
  from page_messages_accepted [OF reach r posted this, of E]
  show "\<exists>k1. onmessage E (Msg_signal (Some 15) (Some 0) (Some 0)) (new_worker ()) = (Inr (), k1)" by blast
qed

subsection \<open>A second start while the first is loading\<close>

definition twice_started :: "renderer \<Rightarrow> app" where
  "twice_started r = worker_created (worker_created (shell_loaded (shell_loaded (startShell (startShell (new_app r 1))))))"

text \<open>
  C38. The page keeps no record of a start that is still loading, and the button that starts the shell stays enabled: two
  starts before the first worker exists leave two workers running of which the page can only stop the second.
  The first one still writes to the terminal, and its clipboard requests are answered to the second.
\<close>

theorem double_start_leaks_worker:
  "app_step\<^sup>*\<^sup>* (new_app r 1) (twice_started r) \<and> live (twice_started r) = [0, 1] \<and>
   live (finish (twice_started r)) = [0] \<and> cur_worker (finish (twice_started r)) = None \<and>
   sent (clip_reply 0 True (worker_onmessage report shown_error 0 (Post_clipboard_request i bytes) (twice_started r))) =
     sent (twice_started r) @ [(1, Control (Msg_clipboard_response i True))]"
proof -
  note defs = worker_created_def shell_loaded_def startShell_def mark_display_def terminate_def post_current_def
    cancel_clipboard_def cancel_throws_def new_app_def Let_def
  let ?a = "new_app r 1"
  have steps: "app_step ?a (startShell ?a)" "app_step (startShell ?a) (startShell (startShell ?a))"
    "app_step (startShell (startShell ?a)) (shell_loaded (startShell (startShell ?a)))"
    "app_step (shell_loaded (startShell (startShell ?a))) (shell_loaded (shell_loaded (startShell (startShell ?a))))"
    "app_step (shell_loaded (shell_loaded (startShell (startShell ?a)))) (worker_created (shell_loaded (shell_loaded (startShell (startShell ?a)))))"
    "app_step (worker_created (shell_loaded (shell_loaded (startShell (startShell ?a))))) (twice_started r)"
    unfolding twice_started_def
    by (rule app_step.start app_step.loaded app_step.create; simp add: defs)+
  have "app_step\<^sup>*\<^sup>* ?a (twice_started r)"
    by (rule converse_rtranclp_into_rtranclp, rule steps(1), rule converse_rtranclp_into_rtranclp, rule steps(2),
        rule converse_rtranclp_into_rtranclp, rule steps(3), rule converse_rtranclp_into_rtranclp, rule steps(4),
        rule converse_rtranclp_into_rtranclp, rule steps(5), rule r_into_rtranclp, rule steps(6))
  moreover have s: "live (twice_started r) = [0, 1]" "cur_worker (twice_started r) = Some 1" "clipboards (twice_started r) = []"
    "cancelClipboard (twice_started r) = None"
    by (simp_all add: twice_started_def defs)
  moreover from s have "live (finish (twice_started r)) = [0]" "cur_worker (finish (twice_started r)) = None"
    by (simp_all add: finish_def setRunning_def terminate_def post_current_def cancel_clipboard_def cancel_throws_def Let_def)
  moreover from s have "sent (clip_reply 0 True (worker_onmessage report shown_error 0 (Post_clipboard_request i bytes) (twice_started r))) =
     sent (twice_started r) @ [(1, Control (Msg_clipboard_response i True))]"
    by (simp add: worker_onmessage_def requestHostClipboard_def cancel_clipboard_def cancel_throws_def clip_reply_def post_if_current_def post_current_def Let_def)
  ultimately show ?thesis by blast
qed

end
