(* ===== verification/Embedding.thy ===== *)
theory Embedding
  imports Suite_Model
begin

text \<open>
  The embedding interface of \<open>command/waste.mjs\<close> and \<open>command/waste.worker.mjs\<close>: the command record that is passed to
  the engine, and the protocol between \<open>createWasteWorker\<close> in the embedding page (the client) and
  \<open>installWasteWorker\<close> in the worker. The two sides exchange messages over two queues; \<open>embedding_step\<close>
  interleaves them with the caller, the input stream and the command that runs in the worker. A command and
  its result are parameters; time and the transfer of buffers are left out. A terminated worker may still go on in the
  model, which only adds behaviour.
\<close>

subsection \<open>The command record\<close>

definition nul_free :: "jstr \<Rightarrow> nat list completion" where
  "nul_free v = (if 0 \<in> set v then Inl (TypeError ''Expected a string without NULs'') else Inr (utf8_encode v))"

fun nul_free_all :: "jstr list \<Rightarrow> nat list list completion" where
  "nul_free_all [] = Inr []"
| "nul_free_all (v # vs) = bind_c (nul_free v) (\<lambda>b. bind_c (nul_free_all vs) (\<lambda>bs. Inr (b # bs)))"

text \<open>\<open>env\<close> is \<open>None\<close> when undefined, otherwise the list of its entries \<open>key=value\<close>.\<close>

definition commandVector :: "jstr \<Rightarrow> jstr list \<Rightarrow> jstr list option \<Rightarrow> nat list completion" where
  "commandVector executable args env =
     bind_c (nul_free executable) (\<lambda>path.
     let entries = (case env of None \<Rightarrow> [] | Some es \<Rightarrow> es)
     in bind_c (nul_free_all (args @ entries)) (\<lambda>values.
        let n = 12 + length path + sum_list (map (\<lambda>v. 4 + length v) values)
        in if n > 128 * 1024 \<or> length args > 126 \<or> length entries > 255
           then Inl (RangeError ''Command vectors exceed ABI limits'')
           else Inr (le32 (int (length args)) @ le32 (if env = None then 0xffffffff else int (length entries)) @
                     le32 (int (length path)) @ path @ concat (map (\<lambda>v. le32 (int (length v)) @ v) values))))"

definition asset_mode :: "jstr \<Rightarrow> nat option \<Rightarrow> nat" where
  "asset_mode p given =
     (case given of Some m \<Rightarrow> m
      | None \<Rightarrow> if starts_with (js ''/usr/bin/'') p \<or> starts_with (js ''/bin/'') p then 493 else 420)"

subsection \<open>Messages\<close>

text \<open>All messages carry protocol 1; \<open>Foreign\<close> is a message of another protocol, and the error message is left out.\<close>

datatype to_worker =
    Em_init
  | Em_run nat bool nat
  | Em_input nat nat "nat list" bool
  | Em_cancel nat

datatype 'r to_client =
    Em_ready
  | Em_error nat
  | Em_result nat 'r
  | Em_ack nat nat
  | Foreign

subsection \<open>The client\<close>

text \<open>
  The input pump of a run awaits the next item of the stream, awaits the acknowledgement of the chunk it sent (with
  whether it was the last), or has ended. \<open>ar_chunks\<close> are the chunks that the stream has produced.
\<close>

datatype pump = Await_item | Await_ack bool | Pump_ended

datatype 'r outcome = Resolved 'r | Rejected

record 'r active_run =
  ar_id :: nat
  ar_sequence :: nat
  ar_pump :: pump
  ar_chunks :: "nat list list"
  ar_inputError :: bool
  ar_settled :: "'r outcome option"

datatype promise = Pending | Fulfilled | Failed

record 'r client =
  cl_disposed :: bool
  cl_active :: "'r active_run option"
  cl_nextId :: nat
  cl_ready :: promise
  cl_outcomes :: "(nat \<times> 'r outcome) list"

text \<open>A promise keeps its first settlement.\<close>

definition settle_run :: "'r outcome \<Rightarrow> 'r active_run \<Rightarrow> 'r active_run" where
  "settle_run v c = (if ar_settled c = None then c\<lparr>ar_settled := Some v\<rparr> else c)"

definition end_pump :: "'r active_run \<Rightarrow> 'r active_run" where
  "end_pump c = (case ar_pump c of Await_ack _ \<Rightarrow> c\<lparr>ar_pump := Pump_ended\<rparr> | _ \<Rightarrow> c)"

definition failAll :: "'r client \<Rightarrow> 'r client" where
  "failAll c = c\<lparr>cl_disposed := True, cl_ready := (if cl_ready c = Pending then Failed else cl_ready c),
     cl_active := map_option (\<lambda>r. end_pump (settle_run Rejected r)) (cl_active c)\<rparr>"

text \<open>\<open>active.ack?.(true)\<close> resumes the pump, which goes on unless the chunk was the last.\<close>

definition acknowledge :: "'r active_run \<Rightarrow> 'r active_run" where
  "acknowledge r = (case ar_pump r of
       Await_ack last_one \<Rightarrow> r\<lparr>ar_pump := (if last_one then Pump_ended else Await_item)\<rparr> | _ \<Rightarrow> r)"

definition run_message :: "'r to_client \<Rightarrow> 'r active_run \<Rightarrow> 'r active_run" where
  "run_message m r = (case m of
       Em_result _ v \<Rightarrow> settle_run (if ar_inputError r then Rejected else Resolved v) r
     | Em_ack _ q \<Rightarrow> if q = ar_sequence r then acknowledge r else r
     | Em_error _ \<Rightarrow> settle_run Rejected r
     | _ \<Rightarrow> r)"

definition message_id :: "'r to_client \<Rightarrow> nat" where
  "message_id m = (case m of Em_error i \<Rightarrow> i | Em_result i _ \<Rightarrow> i | Em_ack i _ \<Rightarrow> i | _ \<Rightarrow> 0)"

definition client_message :: "'r to_client \<Rightarrow> 'r client \<Rightarrow> 'r client" where
  "client_message m c =
     (if m = Foreign then failAll c
      else if m = Em_ready then c\<lparr>cl_ready := (if cl_ready c = Pending then Fulfilled else cl_ready c)\<rparr>
      else if m = Em_error 0 then c\<lparr>cl_ready := (if cl_ready c = Pending then Failed else cl_ready c)\<rparr>
      else case cl_active c of
        None \<Rightarrow> c
      | Some r \<Rightarrow> if message_id m \<noteq> ar_id r then c else c\<lparr>cl_active := Some (run_message m r)\<rparr>)"

text \<open>
  \<open>run\<close> up to its await; \<open>None\<close> when it is refused. \<open>streaming\<close> tells whether the input is a stream, \<open>run_posted\<close> whether the message \<open>run\<close> could be
  posted (\<open>bytes\<close> accepts an input that is no stream, and the job can be cloned), \<open>opened\<close> whether \<open>streamIterator\<close> returns, and
  \<open>aborted\<close> whether the signal was aborted before. On an exception the \<open>finally\<close> clears the active run; that of
  \<open>streamIterator\<close> comes after the message was posted.
\<close>

definition client_run :: "bool \<Rightarrow> bool \<Rightarrow> bool \<Rightarrow> bool \<Rightarrow> nat \<Rightarrow> 'r client \<Rightarrow> ('r client \<times> to_worker list) option" where
  "client_run streaming run_posted opened aborted maxInput c =
     (if cl_disposed c \<or> cl_active c \<noteq> None \<or> cl_ready c \<noteq> Fulfilled \<or> cl_nextId c > 2 ^ 53 - 1 then None
      else let i = cl_nextId c; started = (run_posted \<and> (streaming \<longrightarrow> opened));
               r = \<lparr>ar_id = i, ar_sequence = 0, ar_pump = (if streaming then Await_item else Pump_ended), ar_chunks = [],
                    ar_inputError = False, ar_settled = None\<rparr>
           in Some (c\<lparr>cl_nextId := i + 1, cl_active := (if started then Some r else None),
                      cl_outcomes := (if started then cl_outcomes c else cl_outcomes c @ [(i, Rejected)])\<rparr>,
                    if run_posted then Em_run i streaming maxInput # (if aborted then [Em_cancel i] else []) else []))"

text \<open>The stream gives an item, \<open>None\<close> at its end, to the pump of the active run.\<close>

definition pump_item :: "nat list option \<Rightarrow> 'r active_run \<Rightarrow> 'r active_run \<times> to_worker list" where
  "pump_item item r =
     (let chunk = (case item of None \<Rightarrow> [] | Some b \<Rightarrow> b); q = ar_sequence r + 1
      in (r\<lparr>ar_sequence := q, ar_pump := Await_ack (item = None), ar_chunks := ar_chunks r @ [chunk]\<rparr>,
          [Em_input (ar_id r) q chunk (item = None)]))"

definition pump_failed :: "'r active_run \<Rightarrow> 'r active_run \<times> to_worker list" where
  "pump_failed r = (r\<lparr>ar_inputError := True, ar_pump := Pump_ended\<rparr>, [Em_cancel (ar_id r)])"

text \<open>The \<open>finally\<close> of \<open>run\<close>, after its promise was settled.\<close>

definition run_finally :: "'r active_run \<Rightarrow> 'r outcome \<Rightarrow> 'r client \<Rightarrow> 'r client" where
  "run_finally r v c = c\<lparr>cl_active := None, cl_outcomes := cl_outcomes c @ [(ar_id r, v)]\<rparr>"

definition client_dispose :: "'r client \<Rightarrow> 'r client option" where
  "client_dispose c = (if cl_active c \<noteq> None then None else Some (c\<lparr>cl_disposed := True\<rparr>))"

subsection \<open>The worker\<close>

datatype input_error = Bad_sequence | Input_limit

text \<open>\<open>wr_taken\<close> are the chunks that the command has taken from the queue.\<close>

record worker_run =
  wr_id :: nat
  wr_aborted :: bool
  wr_queue :: "nat list list"
  wr_taken :: "nat list list"
  wr_eof :: bool
  wr_streaming :: bool
  wr_sequence :: nat
  wr_received :: nat
  wr_maxInput :: nat
  wr_inputError :: "input_error option"

record em_worker =
  ew_runtime :: bool
  ew_initializing :: bool
  ew_active :: "worker_run option"
  ew_lastId :: nat

text \<open>A chunk for the active run; the second component tells whether it is acknowledged.\<close>

definition worker_input :: "nat \<Rightarrow> nat list \<Rightarrow> bool \<Rightarrow> worker_run \<Rightarrow> worker_run \<times> bool" where
  "worker_input q bytes eof r =
     (if \<not> wr_streaming r \<or> wr_eof r then (r, False)
      else if q \<noteq> wr_sequence r + 1 then (r\<lparr>wr_inputError := Some Bad_sequence, wr_aborted := True\<rparr>, False)
      else let r1 = r\<lparr>wr_sequence := q, wr_received := wr_received r + length bytes\<rparr>
           in if wr_received r1 > wr_maxInput r then (r1\<lparr>wr_inputError := Some Input_limit, wr_aborted := True\<rparr>, False)
              else (r1\<lparr>wr_eof := eof, wr_queue := wr_queue r @ [bytes]\<rparr>, True))"

definition job_message :: "to_worker \<Rightarrow> em_worker \<Rightarrow> em_worker \<times> 'r to_client list" where
  "job_message m w = (case m of
       Em_init \<Rightarrow> if ew_runtime w \<or> ew_initializing w then (w, [Em_error 0]) else (w\<lparr>ew_initializing := True\<rparr>, [])
     | Em_cancel i \<Rightarrow> (case ew_active w of
           Some r \<Rightarrow> if wr_id r = i then (w\<lparr>ew_active := Some (r\<lparr>wr_aborted := True\<rparr>)\<rparr>, []) else (w, [])
         | None \<Rightarrow> (w, []))
     | Em_input i q bytes eof \<Rightarrow> (case ew_active w of
           Some r \<Rightarrow> if wr_id r = i then (let (r1, ok) = worker_input q bytes eof r in (w\<lparr>ew_active := Some r1\<rparr>, if ok then [Em_ack i q] else [])) else (w, [])
         | None \<Rightarrow> (w, []))
     | Em_run i streaming maxInput \<Rightarrow>
         if \<not> ew_runtime w \<or> ew_active w \<noteq> None \<or> i \<le> ew_lastId w then (w, [Em_error i])
         else (w\<lparr>ew_lastId := i, ew_active := Some \<lparr>wr_id = i, wr_aborted = False, wr_queue = [], wr_taken = [], wr_eof = False,
                  wr_streaming = streaming, wr_sequence = 0, wr_received = 0, wr_maxInput = maxInput, wr_inputError = None\<rparr>\<rparr>, []))"

text \<open>\<open>createWaste\<close> returns or throws; the command takes a chunk, closes the stream, or ends with a result or an error.\<close>

definition worker_initialized :: "bool \<Rightarrow> em_worker \<Rightarrow> em_worker \<times> 'r to_client list" where
  "worker_initialized ok w = (w\<lparr>ew_initializing := False, ew_runtime := ok\<rparr>, [if ok then Em_ready else Em_error 0])"

definition take_chunk :: "worker_run \<Rightarrow> worker_run" where
  "take_chunk r = (case wr_queue r of [] \<Rightarrow> r | b # bs \<Rightarrow> r\<lparr>wr_queue := bs, wr_taken := wr_taken r @ [b]\<rparr>)"

definition stream_return :: "worker_run \<Rightarrow> worker_run" where
  "stream_return r = r\<lparr>wr_eof := True\<rparr>"

definition command_ended :: "'r option \<Rightarrow> worker_run \<Rightarrow> 'r to_client" where
  "command_ended result r = (case result of
       Some v \<Rightarrow> if wr_inputError r \<noteq> None then Em_error (wr_id r) else Em_result (wr_id r) v
     | None \<Rightarrow> Em_error (wr_id r))"

subsection \<open>The two sides together\<close>

record 'r embedding =
  em_client :: "'r client"
  em_worker :: em_worker
  em_to_worker :: "to_worker list"
  em_to_client :: "'r to_client list"
  em_results :: "(nat \<times> 'r) list"

definition new_embedding :: "'r embedding" where
  "new_embedding = \<lparr>
     em_client = \<lparr>cl_disposed = False, cl_active = None, cl_nextId = 1, cl_ready = Pending, cl_outcomes = []\<rparr>,
     em_worker = \<lparr>ew_runtime = False, ew_initializing = False, ew_active = None, ew_lastId = 0\<rparr>,
     em_to_worker = [Em_init], em_to_client = [], em_results = []\<rparr>"

definition with_run :: "'r client \<Rightarrow> 'r active_run \<Rightarrow> 'r client" where
  "with_run c r = c\<lparr>cl_active := Some r\<rparr>"

definition with_job :: "em_worker \<Rightarrow> worker_run \<Rightarrow> em_worker" where
  "with_job w r = w\<lparr>ew_active := Some r\<rparr>"

text \<open>
  \<open>em_results\<close> records the results of the commands. A message of another protocol or an error event may occur at any time
  (\<open>fault\<close>); the caller may cancel, and a pump whose run is no longer active does nothing.
\<close>

inductive embedding_step :: "'r embedding \<Rightarrow> 'r embedding \<Rightarrow> bool" where
  run: "client_run streaming run_posted opened aborted maxInput (em_client s) = Some (c, out) \<Longrightarrow>
    embedding_step s (s\<lparr>em_client := c, em_to_worker := em_to_worker s @ out\<rparr>)"
| item: "cl_active (em_client s) = Some r \<Longrightarrow> ar_pump r = Await_item \<Longrightarrow> pump_item x r = (r1, out) \<Longrightarrow>
    embedding_step s (s\<lparr>em_client := with_run (em_client s) r1, em_to_worker := em_to_worker s @ out\<rparr>)"
| item_failed: "cl_active (em_client s) = Some r \<Longrightarrow> ar_pump r = Await_item \<Longrightarrow> pump_failed r = (r1, out) \<Longrightarrow>
    embedding_step s (s\<lparr>em_client := with_run (em_client s) r1, em_to_worker := em_to_worker s @ out\<rparr>)"
| cancel: "cl_active (em_client s) = Some r \<Longrightarrow>
    embedding_step s (s\<lparr>em_to_worker := em_to_worker s @ [Em_cancel (ar_id r)]\<rparr>)"
| settled: "cl_active (em_client s) = Some r \<Longrightarrow> ar_settled r = Some v \<Longrightarrow>
    embedding_step s (s\<lparr>em_client := run_finally r v (em_client s)\<rparr>)"
| dispose: "client_dispose (em_client s) = Some c \<Longrightarrow> embedding_step s (s\<lparr>em_client := c\<rparr>)"
| fault: "embedding_step s (s\<lparr>em_client := failAll (em_client s)\<rparr>)"
| client: "em_to_client s = m # rest \<Longrightarrow>
    embedding_step s (s\<lparr>em_client := client_message m (em_client s), em_to_client := rest\<rparr>)"
| worker: "em_to_worker s = m # rest \<Longrightarrow> job_message m (em_worker s) = (w, out) \<Longrightarrow>
    embedding_step s (s\<lparr>em_worker := w, em_to_worker := rest, em_to_client := em_to_client s @ out\<rparr>)"
| initialized: "ew_initializing (em_worker s) \<Longrightarrow> worker_initialized ok (em_worker s) = (w, out) \<Longrightarrow>
    embedding_step s (s\<lparr>em_worker := w, em_to_client := em_to_client s @ out\<rparr>)"
| taken: "ew_active (em_worker s) = Some r \<Longrightarrow> embedding_step s (s\<lparr>em_worker := with_job (em_worker s) (take_chunk r)\<rparr>)"
| returned: "ew_active (em_worker s) = Some r \<Longrightarrow> embedding_step s (s\<lparr>em_worker := with_job (em_worker s) (stream_return r)\<rparr>)"
| ended: "ew_active (em_worker s) = Some r \<Longrightarrow>
    embedding_step s (s\<lparr>em_worker := (em_worker s)\<lparr>ew_active := None\<rparr>, em_to_client := em_to_client s @ [command_ended result r],
      em_results := em_results s @ (case result of Some v \<Rightarrow> [(wr_id r, v)] | None \<Rightarrow> [])\<rparr>)"

end
