(* ===== verification/Embedding_Props.thy ===== *)
theory Embedding_Props
  imports Embedding "HOL-Library.Sublist"
begin

text \<open>
  Properties of the embedding protocol over every interleaving: the input of a command arrives in order and
  with at most one chunk in flight, and each run gets the result of its own command. The command record
  is read back exactly. The last section shows what a stream that cannot be opened leaves behind.
\<close>

subsection \<open>Messages in flight\<close>

fun inputs :: "nat \<Rightarrow> to_worker list \<Rightarrow> (nat \<times> nat list) list" where
  "inputs j [] = []"
| "inputs j (m # xs) = (case m of Em_input i q b _ \<Rightarrow> if i = j then [(q, b)] else [] | _ \<Rightarrow> []) @ inputs j xs"

fun run_ids :: "to_worker list \<Rightarrow> nat list" where
  "run_ids [] = []"
| "run_ids (m # xs) = (case m of Em_run i _ _ \<Rightarrow> [i] | _ \<Rightarrow> []) @ run_ids xs"

text \<open>No input precedes the message that starts its run.\<close>

fun started_first :: "to_worker list \<Rightarrow> bool" where
  "started_first [] = True"
| "started_first (m # xs) = ((case m of Em_input i _ _ _ \<Rightarrow> i \<notin> set (run_ids xs) | _ \<Rightarrow> True) \<and> started_first xs)"

lemma inputs_append [simp]: "inputs j (xs @ ys) = inputs j xs @ inputs j ys"
  by (induction xs) simp_all

lemma run_ids_append [simp]: "run_ids (xs @ ys) = run_ids xs @ run_ids ys"
  by (induction xs) simp_all

lemma started_first_snoc:
  "started_first (xs @ [m]) \<longleftrightarrow> started_first xs \<and> (case m of Em_run i _ _ \<Rightarrow> inputs i xs = [] | _ \<Rightarrow> True)"
  by (induction xs) (auto split: to_worker.splits)

lemma started_first_run:
  "started_first (xs @ [Em_run i st mx, Em_cancel j]) \<longleftrightarrow> started_first xs \<and> inputs i xs = []"
  using started_first_snoc [of "xs @ [Em_run i st mx]" "Em_cancel j"] by (simp add: started_first_snoc)

definition core :: "'r client \<Rightarrow> (nat \<times> nat \<times> nat list list) option" where
  "core c = map_option (\<lambda>r. (ar_id r, ar_sequence r, ar_chunks r)) (cl_active c)"

lemma core_frame [simp]:
  "core (failAll c) = core c" "core (client_message m c) = core c"
  "core (c\<lparr>cl_disposed := b\<rparr>) = core c" "core (c\<lparr>cl_ready := p\<rparr>) = core c" "core (c\<lparr>cl_outcomes := v\<rparr>) = core c"
proof -
  have e: "ar_id (end_pump r) = ar_id r" "ar_sequence (end_pump r) = ar_sequence r" "ar_chunks (end_pump r) = ar_chunks r"
    "ar_id (settle_run v r) = ar_id r" "ar_sequence (settle_run v r) = ar_sequence r" "ar_chunks (settle_run v r) = ar_chunks r"
    "ar_id (acknowledge r) = ar_id r" "ar_sequence (acknowledge r) = ar_sequence r" "ar_chunks (acknowledge r) = ar_chunks r"
    for r :: "'r active_run" and v
    by (simp_all add: end_pump_def settle_run_def acknowledge_def split: pump.split)
  show f: "core (failAll c) = core c" by (cases "cl_active c") (simp_all add: core_def failAll_def e)
  show "core (client_message m c) = core c"
    by (cases m; cases "cl_active c") (simp_all add: client_message_def f, simp_all add: core_def run_message_def e message_id_def)
qed (simp_all add: core_def)

subsection \<open>Identifiers\<close>

definition embedding_ids :: "'r embedding \<Rightarrow> bool" where
  "embedding_ids s \<longleftrightarrow>
     ew_lastId (em_worker s) < cl_nextId (em_client s) \<and>
     (\<forall>i q cs. core (em_client s) = Some (i, q, cs) \<longrightarrow> 0 < i \<and> i < cl_nextId (em_client s)) \<and>
     sorted_wrt (<) (run_ids (em_to_worker s)) \<and>
     (\<forall>i \<in> set (run_ids (em_to_worker s)). ew_lastId (em_worker s) < i \<and> i < cl_nextId (em_client s)) \<and>
     (\<forall>i. inputs i (em_to_worker s) \<noteq> [] \<longrightarrow> i < cl_nextId (em_client s)) \<and>
     (\<forall>i q. Em_ack i q \<in> set (em_to_client s) \<longrightarrow> i < cl_nextId (em_client s)) \<and>
     (\<forall>r. ew_active (em_worker s) = Some r \<longrightarrow> 0 < wr_id r \<and> wr_id r \<le> ew_lastId (em_worker s))"

lemma nextId_frame [simp]:
  "cl_nextId (failAll c) = cl_nextId c" "cl_nextId (client_message m c) = cl_nextId c" "cl_nextId (with_run c r) = cl_nextId c"
  "cl_nextId (run_finally r v c) = cl_nextId c"
  by (simp_all add: failAll_def client_message_def with_run_def run_finally_def split: option.split)

lemma core_updates [simp]:
  "core (with_run c r) = Some (ar_id r, ar_sequence r, ar_chunks r)" "core (run_finally r v c) = None"
  by (simp_all add: core_def with_run_def run_finally_def)

lemma job_frame [simp]:
  "ew_lastId (with_job w r) = ew_lastId w" "ew_active (with_job w r) = Some r" "wr_id (take_chunk r) = wr_id r"
  "wr_id (stream_return r) = wr_id r"
  by (simp_all add: with_job_def take_chunk_def stream_return_def split: list.split)

lemma core_active: "cl_active c = Some r \<Longrightarrow> core c = Some (ar_id r, ar_sequence r, ar_chunks r)"
  by (simp add: core_def)

lemma worker_input_id: "worker_input q b e r = (r1, ok) \<Longrightarrow> wr_id r1 = wr_id r"
  by (auto simp: worker_input_def Let_def split: if_splits)

lemma job_message_acks:
  assumes "job_message m w = (w1, out)" "Em_ack i q \<in> set out"
  obtains b e r where "m = Em_input i q b e" "ew_active w = Some r" "wr_id r = i" "q = wr_sequence r + 1" "wr_streaming r" "\<not> wr_eof r"
  using assms by (auto simp: job_message_def worker_input_def Let_def split: to_worker.splits option.splits if_splits)

definition new_job :: "nat \<Rightarrow> bool \<Rightarrow> nat \<Rightarrow> worker_run" where
  "new_job i streaming maxInput = \<lparr>wr_id = i, wr_aborted = False, wr_queue = [], wr_taken = [], wr_eof = False,
     wr_streaming = streaming, wr_sequence = 0, wr_received = 0, wr_maxInput = maxInput, wr_inputError = None\<rparr>"

lemma job_message_cases:
  assumes "job_message m w = (w1, out)"
  obtains (start) i st mx where "m = Em_run i st mx" "ew_lastId w < i" "ew_lastId w1 = i" "ew_active w = None" "ew_active w1 = Some (new_job i st mx)"
  | (input) q b e r r1 ok where "m = Em_input (wr_id r) q b e" "ew_active w = Some r" "worker_input q b e r = (r1, ok)"
      "ew_lastId w1 = ew_lastId w" "ew_active w1 = Some r1"
  | (abort) r where "ew_active w = Some r" "m = Em_cancel (wr_id r)" "ew_lastId w1 = ew_lastId w" "ew_active w1 = Some (r\<lparr>wr_aborted := True\<rparr>)"
  | (same) "ew_lastId w1 = ew_lastId w" "ew_active w1 = ew_active w"
      "\<And>i st mx. m = Em_run i st mx \<Longrightarrow> ew_active w \<noteq> None \<or> i \<le> ew_lastId w \<or> \<not> ew_runtime w"
      "\<And>i q b e r. m = Em_input i q b e \<Longrightarrow> ew_active w = Some r \<Longrightarrow> wr_id r \<noteq> i"
proof (cases m)
  case Em_init
  with assms same show thesis by (auto simp: job_message_def split: if_splits)
next
  case (Em_run i st mx)
  with assms start same show thesis by (auto simp: job_message_def new_job_def split: if_splits)
next
  case (Em_input i q b e)
  show thesis
  proof (cases "\<exists>r. ew_active w = Some r \<and> wr_id r = i")
    case True
    then obtain r where r: "ew_active w = Some r" "wr_id r = i" by blast
    obtain r1 ok where "worker_input q b e r = (r1, ok)" by (cases "worker_input q b e r")
    with assms Em_input r input show thesis by (auto simp: job_message_def)
  next
    case False
    with assms Em_input same show thesis by (auto simp: job_message_def split: option.splits if_splits)
  qed
next
  case (Em_cancel i)
  with assms abort same show thesis by (auto simp: job_message_def split: option.splits if_splits)
qed

lemma client_run_cases:
  assumes "client_run st ps opened ab mx c = Some (c1, out)"
  obtains "out = (if ps then Em_run (cl_nextId c) st mx # (if ab then [Em_cancel (cl_nextId c)] else []) else [])" "cl_active c = None" "cl_nextId c1 = Suc (cl_nextId c)"
    "core c1 = (if ps \<and> (st \<longrightarrow> opened) then Some (cl_nextId c, 0, []) else None)"
    "\<And>r. cl_active c1 = Some r \<Longrightarrow> ar_settled r = None"
    "cl_outcomes c1 = cl_outcomes c @ (if ps \<and> (st \<longrightarrow> opened) then [] else [(cl_nextId c, Rejected)])"
  using assms by (auto simp: client_run_def core_def Let_def split: if_splits)

lemma embedding_ids_worker:
  assumes inv: "embedding_ids s" and q: "em_to_worker s = m # rest" and msg: "job_message m (em_worker s) = (w, out)"
  shows "embedding_ids (s\<lparr>em_worker := w, em_to_worker := rest, em_to_client := em_to_client s @ out\<rparr>)"
proof -
  let ?n = "cl_nextId (em_client s)" and ?l = "ew_lastId (em_worker s)"
  have run: "sorted_wrt (<) (run_ids rest)" "\<And>i. i \<in> set (run_ids rest) \<Longrightarrow> ?l < i \<and> i < ?n"
    "\<And>i. inputs i rest \<noteq> [] \<Longrightarrow> i < ?n"
    using inv q by (auto simp: embedding_ids_def sorted_wrt_append)
  have head: "?l < i \<and> i < ?n \<and> (\<forall>j \<in> set (run_ids rest). i < j)" if "m = Em_run i st mx" for i st mx
    using inv q that by (auto simp: embedding_ids_def)
  have ack: "i < ?n" if "Em_ack i k \<in> set out" for i k
    using job_message_acks [OF msg that] inv by (metis embedding_ids_def le_less_trans)
  have base: "?l < ?n" "\<And>i k cs. core (em_client s) = Some (i, k, cs) \<Longrightarrow> 0 < i \<and> i < ?n"
    "\<And>i k. Em_ack i k \<in> set (em_to_client s) \<Longrightarrow> i < ?n"
    "\<And>r. ew_active (em_worker s) = Some r \<Longrightarrow> 0 < wr_id r \<and> wr_id r \<le> ?l"
    using inv by (auto simp: embedding_ids_def)
  from msg show ?thesis
  proof (cases rule: job_message_cases)
    case (start i st mx)
    with run head [OF start(1)] base ack show ?thesis by (auto simp: embedding_ids_def new_job_def)
  qed (use run base ack in \<open>auto simp: embedding_ids_def dest!: worker_input_id\<close>)
qed

lemma embedding_ids_step: "embedding_step s s1 \<Longrightarrow> embedding_ids s \<Longrightarrow> embedding_ids s1"
proof (induction rule: embedding_step.induct)
  case (run st ps opened ab mx s c out)
  from run(1) show ?case
  proof (rule client_run_cases)
    assume "out = (if ps then Em_run (cl_nextId (em_client s)) st mx # (if ab then [Em_cancel (cl_nextId (em_client s))] else []) else [])" "cl_nextId c = Suc (cl_nextId (em_client s))"
      "core c = (if ps \<and> (st \<longrightarrow> opened) then Some (cl_nextId (em_client s), 0, []) else None)"
    with run(2) show ?thesis by (auto simp: embedding_ids_def sorted_wrt_append less_Suc_eq split: if_splits)
  qed
next
  case (item s r x r1 out)
  then show ?case by (auto simp: embedding_ids_def pump_item_def Let_def core_active)
next
  case (item_failed s r r1 out)
  then show ?case by (auto simp: embedding_ids_def pump_failed_def core_active)
next
  case (worker s m rest w out)
  then show ?case by (intro embedding_ids_worker)
next
  case (dispose s c)
  then show ?case by (auto simp: client_dispose_def embedding_ids_def split: if_splits)
next
  case (ended s r result)
  then show ?case by (auto simp: embedding_ids_def command_ended_def split: option.splits if_splits)
next
  case (initialized s ok w out)
  then show ?case by (auto simp: embedding_ids_def worker_initialized_def split: if_splits)
qed (auto simp: embedding_ids_def)

subsection \<open>Sequence numbers\<close>

definition seq_inv :: "'r embedding \<Rightarrow> bool" where
  "seq_inv s \<longleftrightarrow>
     (\<forall>i. sorted_wrt (<) (map fst (inputs i (em_to_worker s)))) \<and>
     (\<forall>i q. Em_ack i q \<in> set (em_to_client s) \<longrightarrow> (\<forall>p \<in> set (inputs i (em_to_worker s)). q < fst p)) \<and>
     (\<forall>i q cs. core (em_client s) = Some (i, q, cs) \<longrightarrow>
        (\<forall>p \<in> set (inputs i (em_to_worker s)). fst p \<le> q) \<and> (\<forall>k. Em_ack i k \<in> set (em_to_client s) \<longrightarrow> k \<le> q)) \<and>
     (\<forall>r. cl_active (em_client s) = Some r \<longrightarrow> length (inputs (ar_id r) (em_to_worker s)) \<le> 1 \<and>
        (ar_pump r = Await_item \<longrightarrow> inputs (ar_id r) (em_to_worker s) = []))"

lemma failAll_pump:
  assumes "cl_active (failAll c) = Some r1"
  obtains r where "cl_active c = Some r" "ar_id r1 = ar_id r" "ar_pump r1 = Await_item \<longrightarrow> ar_pump r = Await_item"
proof -
  from assms obtain r where r: "cl_active c = Some r" "r1 = end_pump (settle_run Rejected r)" by (auto simp: failAll_def)
  then show thesis by (intro that [OF r(1)]) (cases "ar_pump r"; simp add: end_pump_def settle_run_def)+
qed

lemma client_message_pump:
  assumes "cl_active (client_message m c) = Some r1"
  obtains r where "cl_active c = Some r" "ar_id r1 = ar_id r"
    "ar_pump r1 = Await_item \<longrightarrow> ar_pump r = Await_item \<or> m = Em_ack (ar_id r) (ar_sequence r)"
proof (cases "m = Foreign")
  case True
  with assms that show thesis by (auto simp: client_message_def elim: failAll_pump)
next
  case False
  from assms False obtain r where r: "cl_active c = Some r" by (auto simp: client_message_def split: if_splits option.splits)
  show thesis
    by (rule that [OF r])
      (use assms False r in \<open>auto simp: client_message_def run_message_def settle_run_def acknowledge_def message_id_def
        split: if_splits to_client.splits pump.splits\<close>)
qed

lemma inputs_tail: "set (inputs i rest) \<subseteq> set (inputs i (m # rest))" "length (inputs i rest) \<le> length (inputs i (m # rest))"
  by simp_all

lemma seq_inv_worker:
  assumes inv: "seq_inv s" and q: "em_to_worker s = m # rest" and msg: "job_message m (em_worker s) = (w, out)"
  shows "seq_inv (s\<lparr>em_worker := w, em_to_worker := rest, em_to_client := em_to_client s @ out\<rparr>)"
proof -
  have sorted: "sorted_wrt (<) (map fst (inputs i (m # rest)))" for i using inv q by (simp add: seq_inv_def)
  have new: "(\<forall>p \<in> set (inputs i rest). k < fst p) \<and> (k, b) \<in> set (inputs i (m # rest))" if "m = Em_input i k b e" for i k b e
    using sorted [of i] that by auto
  have ack: "\<exists>b e. m = Em_input i k b e" if "Em_ack i k \<in> set out" for i k
    using job_message_acks [OF msg that] by metis
  have one: "sorted_wrt (<) (map fst (inputs i rest))" for i using sorted [of i] by (simp add: sorted_wrt_append)
  have two: "\<forall>p \<in> set (inputs i rest). k < fst p" if "Em_ack i k \<in> set (em_to_client s @ out)" for i k
  proof (cases "Em_ack i k \<in> set out")
    case True
    with ack new show ?thesis by blast
  next
    case False
    with that inv q have "\<forall>p \<in> set (inputs i (m # rest)). k < fst p" unfolding seq_inv_def by auto
    then show ?thesis using inputs_tail(1) [of i rest m] by blast
  qed
  have three: "(\<forall>p \<in> set (inputs i rest). fst p \<le> k) \<and> (\<forall>j. Em_ack i j \<in> set (em_to_client s @ out) \<longrightarrow> j \<le> k)"
    if "core (em_client s) = Some (i, k, cs)" for i k cs
  proof -
    from that have old: "\<forall>p \<in> set (inputs i (m # rest)). fst p \<le> k" "\<forall>j. Em_ack i j \<in> set (em_to_client s) \<longrightarrow> j \<le> k"
      using inv q unfolding seq_inv_def by metis+
    have "j \<le> k" if "Em_ack i j \<in> set out" for j
      using ack [OF that] new old(1) by fastforce
    with old show ?thesis using inputs_tail(1) [of i rest m] by auto
  qed
  have four: "length (inputs (ar_id r) rest) \<le> 1 \<and> (ar_pump r = Await_item \<longrightarrow> inputs (ar_id r) rest = [])"
    if "cl_active (em_client s) = Some r" for r
  proof -
    from that have "length (inputs (ar_id r) (m # rest)) \<le> 1" "ar_pump r = Await_item \<longrightarrow> inputs (ar_id r) (m # rest) = []"
      using inv q unfolding seq_inv_def by metis+
    then show ?thesis using inputs_tail(2) [of "ar_id r" rest m] by auto
  qed
  show ?thesis using one two three four by (simp add: seq_inv_def)
qed

lemma seq_inv_client:
  assumes inv: "seq_inv s" and q: "em_to_client s = m # rest"
  shows "seq_inv (s\<lparr>em_client := client_message m (em_client s), em_to_client := rest\<rparr>)"
proof -
  have "length (inputs (ar_id r1) (em_to_worker s)) \<le> 1 \<and> (ar_pump r1 = Await_item \<longrightarrow> inputs (ar_id r1) (em_to_worker s) = [])"
    if r1: "cl_active (client_message m (em_client s)) = Some r1" for r1
  proof -
    from client_message_pump [OF r1] obtain r where r: "cl_active (em_client s) = Some r" "ar_id r1 = ar_id r"
      "ar_pump r1 = Await_item \<longrightarrow> ar_pump r = Await_item \<or> m = Em_ack (ar_id r) (ar_sequence r)" by blast
    have "inputs (ar_id r) (em_to_worker s) = []" if "m = Em_ack (ar_id r) (ar_sequence r)"
    proof -
      have "ar_sequence r < fst p \<and> fst p \<le> ar_sequence r" if "p \<in> set (inputs (ar_id r) (em_to_worker s))" for p
        using inv q \<open>m = _\<close> core_active [OF r(1)] that unfolding seq_inv_def by (metis list.set_intros(1))
      then have "set (inputs (ar_id r) (em_to_worker s)) = {}" by (meson equals0I leD)
      then show ?thesis by simp
    qed
    with inv r show ?thesis unfolding seq_inv_def by metis
  qed
  with inv q show ?thesis unfolding seq_inv_def by auto
qed

lemma seq_inv_step:
  assumes "embedding_step s s1" "embedding_ids s" "seq_inv s"
  shows "seq_inv s1"
  using assms
proof (induction rule: embedding_step.induct)
  case (run st ps opened ab mx s c out)
  have fresh: "inputs (cl_nextId (em_client s)) (em_to_worker s) = []"
    "Em_ack (cl_nextId (em_client s)) k \<notin> set (em_to_client s)" for k
    using run(2) unfolding embedding_ids_def by (blast intro: less_irrefl)+
  from run(1) show ?case
  proof (rule client_run_cases)
    assume c: "out = (if ps then Em_run (cl_nextId (em_client s)) st mx # (if ab then [Em_cancel (cl_nextId (em_client s))] else []) else [])"
      "core c = (if ps \<and> (st \<longrightarrow> opened) then Some (cl_nextId (em_client s), 0, []) else None)"
    then have "ar_id r = cl_nextId (em_client s)" if "cl_active c = Some r" for r
      using core_active [OF that] by (auto split: if_splits)
    with c fresh run(3) show ?thesis by (auto simp: seq_inv_def split: if_splits)
  qed
next
  case (item s r x r1 out)
  then have r: "core (em_client s) = Some (ar_id r, ar_sequence r, ar_chunks r)" "inputs (ar_id r) (em_to_worker s) = []"
    by (auto simp: seq_inv_def core_active)
  have out: "ar_id r1 = ar_id r" "ar_sequence r1 = Suc (ar_sequence r)" "ar_pump r1 \<noteq> Await_item"
    "\<exists>b. out = [Em_input (ar_id r) (Suc (ar_sequence r)) b (x = None)]"
    using item(3) by (auto simp: pump_item_def Let_def)
  from item(5) r(1) have ack: "k < Suc (ar_sequence r)" if "Em_ack (ar_id r) k \<in> set (em_to_client s)" for k
    using that unfolding seq_inv_def by (metis le_imp_less_Suc)
  with item(5) r out show ?case
    by (auto simp: seq_inv_def with_run_def core_def; fastforce)
next
  case (item_failed s r r1 out)
  then show ?case by (auto simp: seq_inv_def pump_failed_def core_active with_run_def)
next
  case (worker s m rest w out)
  then show ?case by (intro seq_inv_worker)
next
  case (client s m rest)
  then show ?case by (intro seq_inv_client)
next
  case (fault s)
  then show ?case by (auto simp: seq_inv_def elim!: failAll_pump)
next
  case (dispose s c)
  then show ?case by (auto simp: client_dispose_def seq_inv_def core_def split: if_splits)
next
  case (ended s r result)
  then show ?case by (auto simp: seq_inv_def command_ended_def split: option.splits if_splits)
next
  case (initialized s ok w out)
  then show ?case by (auto simp: seq_inv_def worker_initialized_def split: if_splits)
next
  case (settled s r v)
  then show ?case by (auto simp: seq_inv_def run_finally_def core_def)
qed (auto simp: seq_inv_def)

subsection \<open>The input stream\<close>

fun numbered :: "nat \<Rightarrow> (nat \<times> nat list) list \<Rightarrow> bool" where
  "numbered k [] = True"
| "numbered k (p # ps) = (fst p = Suc k \<and> numbered (Suc k) ps)"

lemma numbered_snoc: "numbered k (ps @ [p]) \<longleftrightarrow> numbered k ps \<and> fst p = Suc (k + length ps)"
  by (induction ps arbitrary: k) auto

definition accepted :: "worker_run \<Rightarrow> nat list list" where
  "accepted r = wr_taken r @ wr_queue r"

text \<open>
  Between the client's run (its id, sequence number and chunks) and the inputs in flight: for a run that has not started, and
  for the run \<open>r\<close> of the worker.
\<close>

definition waiting_run :: "(nat \<times> nat \<times> nat list list) option \<Rightarrow> to_worker list \<Rightarrow> nat \<Rightarrow> bool" where
  "waiting_run c xs i \<longleftrightarrow> numbered 0 (inputs i xs) \<and>
     (\<forall>q cs. c = Some (i, q, cs) \<longrightarrow> map snd (inputs i xs) = cs \<and> q = length (inputs i xs))"

definition open_input :: "worker_run \<Rightarrow> bool" where
  "open_input r \<longleftrightarrow> wr_streaming r \<and> \<not> wr_eof r"

definition running_job :: "(nat \<times> nat \<times> nat list list) option \<Rightarrow> to_worker list \<Rightarrow> worker_run \<Rightarrow> bool" where
  "running_job c xs r \<longleftrightarrow> wr_inputError r \<noteq> Some Bad_sequence \<and>
     (wr_inputError r = Some Input_limit \<longrightarrow> wr_maxInput r < wr_received r) \<and>
     (open_input r \<longrightarrow> numbered (wr_sequence r) (inputs (wr_id r) xs)) \<and>
     (\<forall>q cs. c = Some (wr_id r, q, cs) \<longrightarrow> prefix (accepted r) cs \<and>
        (open_input r \<longrightarrow> q = wr_sequence r + length (inputs (wr_id r) xs) \<and>
           (wr_inputError r = None \<longrightarrow> accepted r @ map snd (inputs (wr_id r) xs) = cs)))"

definition stream_inv :: "'r embedding \<Rightarrow> bool" where
  "stream_inv s \<longleftrightarrow> started_first (em_to_worker s) \<and>
     (\<forall>i \<in> set (run_ids (em_to_worker s)). waiting_run (core (em_client s)) (em_to_worker s) i) \<and>
     (\<forall>r. ew_active (em_worker s) = Some r \<longrightarrow> running_job (core (em_client s)) (em_to_worker s) r)"

lemma waiting_run_item:
  assumes "waiting_run (Some (j, q, cs)) xs i"
  shows "waiting_run (Some (j, Suc q, cs @ [b])) (xs @ [Em_input j (Suc q) b e]) i"
  using assms by (auto simp: waiting_run_def numbered_snoc)

lemma running_job_item:
  assumes "running_job (Some (j, q, cs)) xs r"
  shows "running_job (Some (j, Suc q, cs @ [b])) (xs @ [Em_input j (Suc q) b e]) r"
  using assms by (auto simp: running_job_def numbered_snoc prefix_prefix)

lemma running_job_start:
  assumes "waiting_run c xs i"
  shows "running_job c xs (new_job i st mx)"
  using assms by (auto simp: waiting_run_def running_job_def new_job_def open_input_def accepted_def)

lemma running_job_input:
  assumes "running_job c (Em_input (wr_id r) q b e # xs) r" "worker_input q b e r = (r1, ok)"
  shows "running_job c xs r1"
proof (cases "open_input r")
  case False
  with assms show ?thesis by (auto simp: running_job_def worker_input_def open_input_def)
next
  case True
  let ?in = "inputs (wr_id r) xs"
  from assms(1) True have n: "q = Suc (wr_sequence r)" "numbered (Suc (wr_sequence r)) ?in"
    "wr_inputError r \<noteq> Some Bad_sequence" "wr_inputError r = Some Input_limit \<longrightarrow> wr_maxInput r < wr_received r"
    by (simp_all add: running_job_def)
  have c: "prefix (accepted r) cs" "k = Suc (wr_sequence r) + length ?in" "wr_inputError r = None \<longrightarrow> accepted r @ b # map snd ?in = cs"
    if "c = Some (wr_id r, k, cs)" for k cs
    using assms(1) True that by (auto simp: running_job_def)
  show ?thesis
  proof (cases "wr_maxInput r < wr_received r + length b")
    case over: True
    then have "r1 = r\<lparr>wr_sequence := q, wr_received := wr_received r + length b, wr_inputError := Some Input_limit, wr_aborted := True\<rparr>"
      using assms(2) True n(1) by (simp add: worker_input_def open_input_def Let_def)
    with over n c show ?thesis by (auto simp: running_job_def open_input_def accepted_def)
  next
    case fits: False
    then have r1: "r1 = r\<lparr>wr_sequence := q, wr_received := wr_received r + length b, wr_eof := e, wr_queue := wr_queue r @ [b]\<rparr>"
      using assms(2) True n(1) by (simp add: worker_input_def open_input_def Let_def)
    have err: "wr_inputError r = None"
    proof (cases "wr_inputError r")
      case (Some x)
      with fits n(3,4) show ?thesis by (cases x) auto
    qed
    have "accepted r @ b # map snd ?in = cs" if "c = Some (wr_id r, k, cs)" for k cs using c(3) [OF that] err by simp
    then have "prefix (accepted r1) cs \<and> accepted r1 @ map snd ?in = cs" if "c = Some (wr_id r, k, cs)" for k cs
      using that by (auto simp: r1 accepted_def)
    with n(2) c(2) err show ?thesis by (auto simp: running_job_def r1 n(1) open_input_def)
  qed
qed

lemma stream_inv_run:
  assumes inv: "stream_inv s" and ids: "embedding_ids s" and run: "client_run st ps opened ab mx (em_client s) = Some (c, out)"
  shows "stream_inv (s\<lparr>em_client := c, em_to_worker := em_to_worker s @ out\<rparr>)"
  using run
proof (rule client_run_cases)
  let ?n = "cl_nextId (em_client s)" and ?xs = "em_to_worker s"
  assume c: "out = (if ps then Em_run ?n st mx # (if ab then [Em_cancel ?n] else []) else [])" "cl_active (em_client s) = None" "core c = (if ps \<and> (st \<longrightarrow> opened) then Some (?n, 0, []) else None)"
  have fresh: "inputs ?n ?xs = []" "\<And>i. i \<in> set (run_ids ?xs) \<Longrightarrow> i \<noteq> ?n" "\<And>r. ew_active (em_worker s) = Some r \<Longrightarrow> wr_id r \<noteq> ?n"
    using ids unfolding embedding_ids_def by (blast intro: less_irrefl, blast, metis le_less_trans less_irrefl)
  have idle: "core (em_client s) = None" using c(2) by (simp add: core_def)
  have old: "waiting_run (core c) (?xs @ out) i" if "waiting_run None ?xs i" "i \<noteq> ?n" for i
    using that c by (auto simp: waiting_run_def)
  have "waiting_run (core c) (?xs @ out) ?n" using fresh(1) c by (auto simp: waiting_run_def)
  moreover have "running_job (core c) (?xs @ out) r" if "running_job None ?xs r" "wr_id r \<noteq> ?n" for r
    using that c by (auto simp: running_job_def)
  ultimately show ?thesis
    using inv old fresh unfolding stream_inv_def idle by (auto simp: c(1) started_first_snoc started_first_run)
qed

lemma stream_inv_worker:
  assumes inv: "stream_inv s" and ids: "embedding_ids s" and q: "em_to_worker s = m # rest" and msg: "job_message m (em_worker s) = (w, out)"
  shows "stream_inv (s\<lparr>em_worker := w, em_to_worker := rest, em_to_client := em_to_client s @ out\<rparr>)"
proof -
  let ?c = "core (em_client s)"
  have first: "started_first rest" using inv q by (simp add: stream_inv_def)
  have waits: "waiting_run ?c rest i" if "i \<in> set (run_ids rest)" for i
  proof -
    have "inputs i (m # rest) = inputs i rest"
      using inv q that by (auto simp: stream_inv_def split: to_worker.splits)
    moreover have "waiting_run ?c (m # rest) i" using inv q that by (simp add: stream_inv_def)
    ultimately show ?thesis by (simp add: waiting_run_def)
  qed
  have old: "running_job ?c (m # rest) r" if "ew_active (em_worker s) = Some r" for r
    using inv q that by (simp add: stream_inv_def)
  have keep: "running_job ?c rest r" if "running_job ?c (m # rest) r" "inputs (wr_id r) (m # rest) = inputs (wr_id r) rest" for r
    using that by (simp add: running_job_def)
  from msg have "running_job ?c rest r" if "ew_active w = Some r" for r
  proof (cases rule: job_message_cases)
    case (start i st mx)
    then have "waiting_run ?c (m # rest) i" using inv q by (simp add: stream_inv_def)
    then have "waiting_run ?c rest i" using start(1) by (simp add: waiting_run_def)
    with start that show ?thesis by (simp add: running_job_start)
  next
    case (input k b e r0 r1 ok)
    with old [of r0] that show ?thesis using running_job_input by simp
  next
    case (abort r0)
    with old [of r0] keep [of r0] that show ?thesis by (auto simp: running_job_def open_input_def accepted_def)
  next
    case same
    with that have r: "ew_active (em_worker s) = Some r" by simp
    have "m \<noteq> Em_input (wr_id r) k b e" for k b e using same(4) [OF _ r] by blast
    then have "inputs (wr_id r) (m # rest) = inputs (wr_id r) rest" by (auto split: to_worker.split)
    with old [OF r] show ?thesis by (rule keep)
  qed
  with first waits show ?thesis by (simp add: stream_inv_def)
qed

lemma running_job_updates:
  "running_job c xs r \<Longrightarrow> running_job c xs (take_chunk r)" "running_job c xs r \<Longrightarrow> running_job c xs (stream_return r)"
  "running_job c xs r \<Longrightarrow> running_job None xs r" "waiting_run c xs i \<Longrightarrow> waiting_run None xs i"
  by (auto simp: running_job_def waiting_run_def take_chunk_def stream_return_def accepted_def open_input_def split: list.split)

lemma stream_inv_step:
  assumes "embedding_step s s1" "embedding_ids s" "stream_inv s"
  shows "stream_inv s1"
  using assms
proof (induction rule: embedding_step.induct)
  case (run st ps opened ab mx s c out)
  then show ?case by (intro stream_inv_run)
next
  case (item s r x r1 out)
  then obtain b where "core (em_client s) = Some (ar_id r, ar_sequence r, ar_chunks r)"
    "out = [Em_input (ar_id r) (Suc (ar_sequence r)) b (x = None)]"
    "core (with_run (em_client s) r1) = Some (ar_id r, Suc (ar_sequence r), ar_chunks r @ [b])"
    by (auto simp: pump_item_def Let_def core_active)
  with item(5) show ?case
    by (auto simp: stream_inv_def started_first_snoc waiting_run_item running_job_item)
next
  case (item_failed s r r1 out)
  then have "core (with_run (em_client s) r1) = core (em_client s)" "out = [Em_cancel (ar_id r)]"
    by (auto simp: pump_failed_def core_active)
  with item_failed(5) show ?case by (auto simp: stream_inv_def started_first_snoc waiting_run_def running_job_def)
next
  case (cancel s r)
  then show ?case by (auto simp: stream_inv_def started_first_snoc waiting_run_def running_job_def)
next
  case (settled s r v)
  then show ?case using running_job_updates by (auto simp: stream_inv_def)
next
  case (worker s m rest w out)
  then show ?case by (intro stream_inv_worker)
next
  case (dispose s c)
  then show ?case by (auto simp: client_dispose_def stream_inv_def split: if_splits)
next
  case (initialized s ok w out)
  then show ?case by (auto simp: stream_inv_def worker_initialized_def split: if_splits)
qed (auto simp: stream_inv_def running_job_updates)

definition reachable_embedding :: "'r embedding \<Rightarrow> bool" where
  "reachable_embedding s \<longleftrightarrow> embedding_step\<^sup>*\<^sup>* new_embedding s"

lemma reachable_inv:
  assumes "reachable_embedding s"
  shows "embedding_ids s \<and> seq_inv s \<and> stream_inv s"
  using assms unfolding reachable_embedding_def
proof (induction rule: rtranclp_induct)
  case base
  show ?case by (simp add: embedding_ids_def seq_inv_def stream_inv_def new_embedding_def core_def)
next
  case (step s s1)
  then show ?case by (blast intro: embedding_ids_step seq_inv_step stream_inv_step)
qed

text \<open>
  C7. The input of a command arrives in order: whatever the caller, the stream and the command do, the worker never
  sees a wrong sequence number, the chunks it has accepted for the client's run are a prefix of the chunks
  the stream produced, and while the input is open at most one chunk is in flight.
\<close>

theorem embedding_input_in_order:
  assumes "reachable_embedding s" "ew_active (em_worker s) = Some r"
  shows "wr_inputError r \<noteq> Some Bad_sequence \<and>
    (\<forall>k. cl_active (em_client s) = Some k \<and> ar_id k = wr_id r \<longrightarrow>
       prefix (wr_taken r @ wr_queue r) (ar_chunks k) \<and>
       (wr_streaming r \<and> \<not> wr_eof r \<and> wr_inputError r = None \<longrightarrow>
          length (ar_chunks k) \<le> length (wr_taken r @ wr_queue r) + 1))"
proof -
  from reachable_inv [OF assms(1)] assms(2)
  have job: "running_job (core (em_client s)) (em_to_worker s) r" and seq: "seq_inv s" by (auto simp: stream_inv_def)
  have "prefix (accepted r) (ar_chunks k) \<and> (open_input r \<and> wr_inputError r = None \<longrightarrow> length (ar_chunks k) \<le> length (accepted r) + 1)"
    if k: "cl_active (em_client s) = Some k" "ar_id k = wr_id r" for k
  proof -
    have "core (em_client s) = Some (wr_id r, ar_sequence k, ar_chunks k)" using core_active [OF k(1)] k(2) by simp
    with job have j: "prefix (accepted r) (ar_chunks k)"
      "open_input r \<and> wr_inputError r = None \<longrightarrow> accepted r @ map snd (inputs (wr_id r) (em_to_worker s)) = ar_chunks k"
      by (auto simp: running_job_def)
    have "length (inputs (wr_id r) (em_to_worker s)) \<le> 1" using seq k by (auto simp: seq_inv_def)
    then have "length (accepted r @ map snd (inputs (wr_id r) (em_to_worker s))) \<le> length (accepted r) + 1" by simp
    with j show ?thesis by metis
  qed
  with job show ?thesis by (simp add: running_job_def accepted_def open_input_def)
qed

subsection \<open>Results\<close>

definition ids_of :: "(nat \<times> 'a) list \<Rightarrow> nat set" where
  "ids_of ps = set (map fst ps)"

definition distinct_ids :: "(nat \<times> 'a) list \<Rightarrow> bool" where
  "distinct_ids ps \<longleftrightarrow> distinct (map fst ps)"

lemma ids_of_simps [simp]:
  "ids_of [] = {}" "ids_of (xs @ ys) = ids_of xs \<union> ids_of ys" "ids_of [p] = {fst p}"
  "distinct_ids []" "distinct_ids (xs @ [p]) \<longleftrightarrow> distinct_ids xs \<and> fst p \<notin> ids_of xs"
  by (simp_all add: ids_of_def distinct_ids_def)

definition result_inv :: "'r embedding \<Rightarrow> bool" where
  "result_inv s \<longleftrightarrow>
     distinct_ids (em_results s) \<and> (\<forall>i \<in> ids_of (em_results s). i \<le> ew_lastId (em_worker s)) \<and>
     (\<forall>r. ew_active (em_worker s) = Some r \<longrightarrow> wr_id r \<notin> ids_of (em_results s)) \<and>
     (\<forall>i v. Em_result i v \<in> set (em_to_client s) \<longrightarrow> (i, v) \<in> set (em_results s)) \<and>
     (\<forall>r v. cl_active (em_client s) = Some r \<and> ar_settled r = Some (Resolved v) \<longrightarrow> (ar_id r, v) \<in> set (em_results s)) \<and>
     (\<forall>i v. (i, Resolved v) \<in> set (cl_outcomes (em_client s)) \<longrightarrow> (i, v) \<in> set (em_results s)) \<and>
     distinct_ids (cl_outcomes (em_client s)) \<and>
     (\<forall>i \<in> ids_of (cl_outcomes (em_client s)). i < cl_nextId (em_client s)) \<and>
     (\<forall>r. cl_active (em_client s) = Some r \<longrightarrow> ar_id r \<notin> ids_of (cl_outcomes (em_client s)))"

lemma failAll_settled:
  assumes "cl_active (failAll c) = Some r1"
  obtains r where "cl_active c = Some r" "ar_id r1 = ar_id r" "\<And>v. ar_settled r1 = Some (Resolved v) \<Longrightarrow> ar_settled r = Some (Resolved v)"
proof -
  from assms obtain r where r: "cl_active c = Some r" "r1 = end_pump (settle_run Rejected r)" by (auto simp: failAll_def)
  then show thesis by (intro that [OF r(1)]) (cases "ar_pump r"; auto simp: end_pump_def settle_run_def split: if_splits)+
qed

lemma client_message_settled:
  assumes "cl_active (client_message m c) = Some r1"
  obtains r where "cl_active c = Some r" "ar_id r1 = ar_id r"
    "\<And>v. ar_settled r1 = Some (Resolved v) \<Longrightarrow> ar_settled r = Some (Resolved v) \<or> m = Em_result (ar_id r) v"
proof (cases "m = Foreign")
  case True
  with assms have "cl_active (failAll c) = Some r1" by (simp add: client_message_def)
  then show thesis by (rule failAll_settled) (blast intro: that)
next
  case False
  from assms False obtain r where r: "cl_active c = Some r" by (auto simp: client_message_def split: if_splits option.splits)
  show thesis
    by (rule that [OF r])
      (use assms False r in \<open>auto simp: client_message_def run_message_def settle_run_def acknowledge_def message_id_def
        split: if_splits to_client.splits pump.splits\<close>)
qed

lemma outcomes_frame [simp]:
  "cl_outcomes (failAll c) = cl_outcomes c" "cl_outcomes (client_message m c) = cl_outcomes c" "cl_outcomes (with_run c r) = cl_outcomes c"
  by (simp_all add: failAll_def client_message_def with_run_def split: option.split)

lemma job_message_results: "job_message m w = (w1, out) \<Longrightarrow> Em_result i v \<notin> set out"
  by (auto simp: job_message_def Let_def split: to_worker.splits option.splits if_splits prod.splits)

lemma result_inv_worker:
  assumes inv: "result_inv s" and msg: "job_message m (em_worker s) = (w, out)"
  shows "result_inv (s\<lparr>em_worker := w, em_to_worker := rest, em_to_client := em_to_client s @ out\<rparr>)"
proof -
  have act: "wr_id r \<notin> ids_of (em_results s)" if "ew_active (em_worker s) = Some r" for r
    using inv that unfolding result_inv_def by blast
  have "ew_lastId (em_worker s) \<le> ew_lastId w \<and> (\<forall>r. ew_active w = Some r \<longrightarrow> wr_id r \<notin> ids_of (em_results s))"
    using msg
  proof (cases rule: job_message_cases)
    case (start i st mx)
    with inv have "i \<notin> ids_of (em_results s)" unfolding result_inv_def by (meson leD)
    with start show ?thesis by (simp add: new_job_def)
  next
    case (input q b e r r1 ok)
    with act [of r] worker_input_id [OF input(3)] show ?thesis by simp
  next
    case (abort r)
    with act [of r] show ?thesis by simp
  next
    case same
    with act show ?thesis by simp
  qed
  with inv job_message_results [OF msg] show ?thesis
    unfolding result_inv_def by (auto intro: order_trans)
qed

lemma result_inv_step:
  assumes "embedding_step s s1" "embedding_ids s" "result_inv s"
  shows "result_inv s1"
  using assms
proof (induction rule: embedding_step.induct)
  case (run st ps opened ab mx s c out)
  from run(1) show ?case
  proof (rule client_run_cases)
    let ?n = "cl_nextId (em_client s)"
    assume c: "cl_nextId c = Suc ?n" "core c = (if ps \<and> (st \<longrightarrow> opened) then Some (?n, 0, []) else None)"
      "\<And>r. cl_active c = Some r \<Longrightarrow> ar_settled r = None"
      "cl_outcomes c = cl_outcomes (em_client s) @ (if ps \<and> (st \<longrightarrow> opened) then [] else [(?n, Rejected)])"
    have "ar_id r = ?n \<and> ps \<and> (st \<longrightarrow> opened)" if "cl_active c = Some r" for r
      using core_active [OF that] c(2) by (auto split: if_splits)
    moreover have "?n \<notin> ids_of (cl_outcomes (em_client s))" using run(3) unfolding result_inv_def by blast
    moreover have "\<forall>i \<in> ids_of (cl_outcomes c). i < Suc ?n"
      using run(3) by (auto simp: result_inv_def c(4) less_SucI)
    moreover have "(i, Resolved v) \<in> set (cl_outcomes c) \<longleftrightarrow> (i, Resolved v) \<in> set (cl_outcomes (em_client s))" for i v
      by (simp add: c(4))
    moreover have "cl_active c = Some r \<Longrightarrow> cl_outcomes c = cl_outcomes (em_client s)" for r
      using calculation(1) by (simp add: c(4))
    ultimately show ?thesis
      using run(3) c(3) unfolding result_inv_def by (simp add: c(1)) (auto simp: c(4))
  qed
next
  case (item s r x r1 out)
  then show ?case by (auto simp: result_inv_def pump_item_def Let_def with_run_def)
next
  case (item_failed s r r1 out)
  then show ?case by (auto simp: result_inv_def pump_failed_def with_run_def)
next
  case (settled s r v)
  then have "ar_id r < cl_nextId (em_client s)" using core_active [of "em_client s" r] by (auto simp: embedding_ids_def)
  with settled show ?case by (auto simp: result_inv_def run_finally_def)
next
  case (client s m rest)
  then show ?case
    unfolding result_inv_def by (auto elim!: client_message_settled)
next
  case (fault s)
  then show ?case unfolding result_inv_def by (auto elim!: failAll_settled)
next
  case (worker s m rest w out)
  then show ?case by (intro result_inv_worker)
next
  case (dispose s c)
  then show ?case by (auto simp: client_dispose_def result_inv_def split: if_splits)
next
  case (ended s r result)
  then have "wr_id r \<le> ew_lastId (em_worker s)" by (auto simp: embedding_ids_def)
  with ended show ?case by (auto simp: result_inv_def command_ended_def split: option.splits if_splits)
next
  case (initialized s ok w out)
  then show ?case by (auto simp: result_inv_def worker_initialized_def split: if_splits)
qed (auto simp: result_inv_def)

lemma reachable_results: "reachable_embedding s \<Longrightarrow> result_inv s"
  unfolding reachable_embedding_def
proof (induction rule: rtranclp_induct)
  case base
  show ?case by (simp add: result_inv_def new_embedding_def)
next
  case (step s s1)
  then show ?case using reachable_inv [unfolded reachable_embedding_def] by (blast intro: result_inv_step)
qed

text \<open>
  C8. Every run gets the result of its own command: a run that the client has resolved with a value was
  executed by the worker under the same id with that value, the worker has at most one result per id, and the
  client settles every id at most once.
\<close>

theorem embedding_results_match:
  assumes "reachable_embedding s"
  shows "distinct (map fst (cl_outcomes (em_client s))) \<and> distinct (map fst (em_results s)) \<and>
    (\<forall>i v. (i, Resolved v) \<in> set (cl_outcomes (em_client s)) \<longrightarrow> (i, v) \<in> set (em_results s))"
  using reachable_results [OF assms] by (simp add: result_inv_def distinct_ids_def)

subsection \<open>Sample states\<close>

definition idle_client :: "'r client" where
  "idle_client = \<lparr>cl_disposed = False, cl_active = None, cl_nextId = 1, cl_ready = Fulfilled, cl_outcomes = []\<rparr>"

definition idle_worker :: em_worker where
  "idle_worker = \<lparr>ew_runtime = True, ew_initializing = False, ew_active = None, ew_lastId = 0\<rparr>"

definition ready_embedding :: "'r embedding" where
  "ready_embedding = \<lparr>em_client = idle_client, em_worker = idle_worker, em_to_worker = [], em_to_client = [], em_results = []\<rparr>"

lemma reachable_stepI: "reachable_embedding s \<Longrightarrow> embedding_step s s1 \<Longrightarrow> reachable_embedding s1"
  unfolding reachable_embedding_def by (rule rtranclp.rtrancl_into_rtrancl)

lemma ready_reachable: "reachable_embedding ready_embedding"
proof -
  let ?w = "\<lparr>ew_runtime = False, ew_initializing = True, ew_active = None, ew_lastId = 0\<rparr>"
  let ?a = "new_embedding\<lparr>em_worker := ?w, em_to_worker := []\<rparr>" and ?b = "new_embedding\<lparr>em_worker := idle_worker, em_to_worker := [], em_to_client := [Em_ready]\<rparr>"
  have "reachable_embedding new_embedding" by (simp add: reachable_embedding_def)
  moreover have "embedding_step new_embedding ?a"
    using embedding_step.worker [of new_embedding Em_init "[]" ?w "[]"] by (simp add: new_embedding_def job_message_def)
  moreover have "embedding_step ?a ?b"
    using embedding_step.initialized [of ?a True idle_worker "[Em_ready]"] by (simp add: new_embedding_def worker_initialized_def idle_worker_def)
  moreover have "embedding_step ?b ready_embedding"
    using embedding_step.client [of ?b Em_ready "[]"] by (simp add: new_embedding_def client_message_def ready_embedding_def idle_client_def)
  ultimately show ?thesis by (blast intro: reachable_stepI)
qed

definition streaming_run :: "nat list list \<Rightarrow> 'r active_run" where
  "streaming_run cs = \<lparr>ar_id = 1, ar_sequence = length cs, ar_pump = (if cs = [] then Await_item else Await_ack False), ar_chunks = cs,
     ar_inputError = False, ar_settled = None\<rparr>"

lemma run_reachable:
  "reachable_embedding (ready_embedding\<lparr>em_client := idle_client\<lparr>cl_nextId := 2, cl_active := Some (streaming_run [])\<rparr>,
     em_worker := idle_worker\<lparr>ew_lastId := 1, ew_active := Some (new_job 1 True 9)\<rparr>\<rparr>)"
proof -
  let ?c = "idle_client\<lparr>cl_nextId := 2, cl_active := Some (streaming_run [])\<rparr>"
  let ?a = "ready_embedding\<lparr>em_client := ?c, em_to_worker := [Em_run 1 True 9]\<rparr>"
  let ?b = "ready_embedding\<lparr>em_client := ?c, em_worker := idle_worker\<lparr>ew_lastId := 1, ew_active := Some (new_job 1 True 9)\<rparr>\<rparr>"
  have "embedding_step ready_embedding ?a"
    using embedding_step.run [of True True True False 9 ready_embedding ?c "[Em_run 1 True 9]"]
    by (simp add: client_run_def ready_embedding_def idle_client_def streaming_run_def Let_def del: One_nat_def)
  moreover have "embedding_step ?a ?b"
    using embedding_step.worker [of ?a "Em_run 1 True 9" "[]" "idle_worker\<lparr>ew_lastId := 1, ew_active := Some (new_job 1 True 9)\<rparr>" "[]"]
    by (simp add: job_message_def ready_embedding_def idle_worker_def new_job_def)
  ultimately show ?thesis using ready_reachable by (blast intro: reachable_stepI)
qed

theorem embedding_input_in_order_witness:
  "\<exists>s :: unit embedding. \<exists>r k. reachable_embedding s \<and> ew_active (em_worker s) = Some r \<and> cl_active (em_client s) = Some k \<and>
     ar_chunks k = [[7]] \<and> prefix (wr_taken r @ wr_queue r) [[7]]"
proof -
  let ?s = "ready_embedding\<lparr>em_client := idle_client\<lparr>cl_nextId := 2, cl_active := Some (streaming_run [])\<rparr>,
     em_worker := idle_worker\<lparr>ew_lastId := 1, ew_active := Some (new_job 1 True 9)\<rparr>\<rparr> :: unit embedding"
  let ?t = "?s\<lparr>em_client := idle_client\<lparr>cl_nextId := 2, cl_active := Some (streaming_run [[7]])\<rparr>, em_to_worker := [Em_input 1 1 [7] False]\<rparr>"
  have "embedding_step ?s ?t"
    using embedding_step.item [of ?s "streaming_run []" "Some [7]" "streaming_run [[7]]" "[Em_input 1 1 [7] False]"]
    by (simp add: pump_item_def streaming_run_def with_run_def ready_embedding_def Let_def)
  with run_reachable have t: "reachable_embedding ?t" by (rule reachable_stepI)
  have "ew_active (em_worker ?t) = Some (new_job 1 True 9)" by simp
  from embedding_input_in_order [OF t this] show ?thesis
    using t by (intro exI [of _ ?t] exI [of _ "new_job 1 True 9"] exI [of _ "streaming_run [[7]]"]) (simp add: streaming_run_def new_job_def)
qed

theorem embedding_results_match_witness:
  "\<exists>s :: nat embedding. reachable_embedding s \<and> cl_outcomes (em_client s) = [(1, Resolved 42)] \<and> (1, 42) \<in> set (em_results s)"
proof -
  let ?c = "idle_client\<lparr>cl_nextId := 2, cl_active := Some (streaming_run [])\<rparr> :: nat client"
  let ?s = "ready_embedding\<lparr>em_client := ?c, em_worker := idle_worker\<lparr>ew_lastId := 1, ew_active := Some (new_job 1 True 9)\<rparr>\<rparr>"
  let ?a = "ready_embedding\<lparr>em_client := ?c, em_worker := idle_worker\<lparr>ew_lastId := 1\<rparr>, em_to_client := [Em_result 1 42], em_results := [(1, 42)]\<rparr>"
  let ?r = "(streaming_run [])\<lparr>ar_settled := Some (Resolved 42)\<rparr>"
  let ?b = "?a\<lparr>em_client := ?c\<lparr>cl_active := Some ?r\<rparr>, em_to_client := []\<rparr>"
  let ?e = "?b\<lparr>em_client := run_finally ?r (Resolved 42) (em_client ?b)\<rparr>"
  have "embedding_step ?s ?a"
    using embedding_step.ended [of ?s "new_job 1 True 9" "Some 42"]
    by (simp add: command_ended_def new_job_def ready_embedding_def idle_worker_def)
  moreover have "embedding_step ?a ?b"
    using embedding_step.client [of ?a "Em_result 1 42" "[]"]
    by (simp add: client_message_def message_id_def run_message_def settle_run_def streaming_run_def ready_embedding_def)
  moreover have "embedding_step ?b ?e"
    by (rule embedding_step.settled [of ?b]) simp_all
  ultimately have e: "reachable_embedding ?e" using run_reachable by (blast intro: reachable_stepI)
  have "cl_outcomes (em_client ?e) = [(1, Resolved 42)]" by (simp add: run_finally_def idle_client_def streaming_run_def)
  with embedding_results_match [OF e] e show ?thesis by (intro exI [of _ ?e]) auto
qed

subsection \<open>A stream that cannot be opened\<close>

text \<open>A run of the worker that nobody feeds: the client has given it up, and no message for it is under way.\<close>

definition orphan :: "nat \<Rightarrow> 'r embedding \<Rightarrow> bool" where
  "orphan n s \<longleftrightarrow>
     (\<exists>r. ew_active (em_worker s) = Some r \<and> wr_id r = n \<and> wr_streaming r \<and> wr_queue r = [] \<and> wr_taken r = [] \<and> \<not> wr_aborted r) \<and>
     n < cl_nextId (em_client s) \<and> (\<forall>i q cs. core (em_client s) = Some (i, q, cs) \<longrightarrow> i \<noteq> n) \<and>
     (\<forall>m \<in> set (em_to_worker s). case m of Em_input i _ _ _ \<Rightarrow> i \<noteq> n | Em_cancel i \<Rightarrow> i \<noteq> n | _ \<Rightarrow> True)"

text \<open>A step in which the worker's command does not end.\<close>

definition step_on :: "'r embedding \<Rightarrow> 'r embedding \<Rightarrow> bool" where
  "step_on s s1 \<longleftrightarrow> embedding_step s s1 \<and> ew_active (em_worker s1) \<noteq> None"

lemma orphan_worker:
  assumes "orphan n s" "em_to_worker s = m # rest" "job_message m (em_worker s) = (w, out)"
  shows "ew_active w = ew_active (em_worker s)"
  using assms by (auto simp: orphan_def job_message_def split: to_worker.splits if_splits)

lemma orphan_step:
  assumes "embedding_step s s1" "ew_active (em_worker s1) \<noteq> None" "orphan n s"
  shows "orphan n s1 \<and> em_results s1 = em_results s"
  using assms
proof (induction rule: embedding_step.induct)
  case (run st ps opened ab mx s c out)
  from run(1) show ?case
  proof (rule client_run_cases)
    let ?n = "cl_nextId (em_client s)"
    assume "out = (if ps then Em_run ?n st mx # (if ab then [Em_cancel ?n] else []) else [])" "cl_nextId c = Suc ?n"
      "core c = (if ps \<and> (st \<longrightarrow> opened) then Some (?n, 0, []) else None)"
    with run(3) show ?thesis by (auto simp: orphan_def split: if_splits)
  qed
next
  case (item s r x r1 out)
  then show ?case by (auto simp: orphan_def pump_item_def Let_def core_active)
next
  case (item_failed s r r1 out)
  then show ?case by (auto simp: orphan_def pump_failed_def core_active)
next
  case (cancel s r)
  then show ?case by (auto simp: orphan_def core_active)
next
  case (dispose s c)
  then show ?case by (auto simp: client_dispose_def orphan_def split: if_splits)
next
  case (worker s m rest w out)
  with orphan_worker [OF worker(4,1,2)] show ?case by (simp add: orphan_def)
next
  case (initialized s ok w out)
  then show ?case by (auto simp: orphan_def worker_initialized_def)
next
  case (taken s r)
  then show ?case by (auto simp: orphan_def with_job_def take_chunk_def)
next
  case (returned s r)
  then show ?case by (auto simp: orphan_def with_job_def stream_return_def)
qed (auto simp: orphan_def)

lemma orphan_steps:
  "step_on\<^sup>*\<^sup>* s s1 \<Longrightarrow> orphan n s \<Longrightarrow> orphan n s1 \<and> em_results s1 = em_results s \<and> embedding_step\<^sup>*\<^sup>* s s1"
proof (induction rule: rtranclp_induct)
  case (step t u)
  then show ?case using orphan_step [of t u n] by (auto simp: step_on_def intro: rtranclp.rtrancl_into_rtrancl)
qed simp



subsection \<open>The command record\<close>

fun take_items :: "nat \<Rightarrow> nat list \<Rightarrow> nat list list \<times> nat list" where
  "take_items 0 bs = ([], bs)"
| "take_items (Suc n) bs =
     (let k = get32 bs; (xs, rest) = take_items n (drop (4 + k) bs) in (take k (drop 4 bs) # xs, rest))"

text \<open>The reading side of the record, with the bytes that are left over.\<close>

definition parse_vector :: "nat list \<Rightarrow> (nat list \<times> nat list list \<times> nat list list option) \<times> nat list" where
  "parse_vector bs =
     (let a = get32 bs; e = get32 (drop 4 bs); p = get32 (drop 8 bs); (args, r1) = take_items a (drop (12 + p) bs);
          (env, r2) = (if e = 0xffffffff then ([], r1) else take_items e r1)
      in ((take p (drop 12 bs), args, if e = 0xffffffff then None else Some env), r2))"

lemma get32_le32_append: "n < 2 ^ 32 \<Longrightarrow> get32 (le32 (int n) @ xs) = n"
  using get32_le32 [of "int n"] by (simp add: get32_def)

lemma take_items_concat:
  assumes "\<forall>v \<in> set vs. length v < 2 ^ 32"
  shows "take_items (length vs) (concat (map (\<lambda>v. le32 (int (length v)) @ v) vs) @ xs) = (vs, xs)"
  using assms by (induction vs) (simp_all add: get32_le32_append Let_def)

lemma nul_free_all_ok: "nul_free_all vs = Inr bs \<Longrightarrow> bs = map utf8_encode vs"
  by (induction vs arbitrary: bs) (auto simp: nul_free_def elim!: bind_c_InrE split: if_splits)

text \<open>
  C23. The command record that is passed to the engine is read back exactly: the executable, the arguments and the environment (absent
  or present) are recovered, nothing is left over, and the record stays within its limit.
\<close>

theorem commandVector_roundtrip:
  assumes "commandVector executable args env = Inr bs"
  shows "parse_vector bs = ((utf8_encode executable, map utf8_encode args, map_option (map utf8_encode) env), []) \<and> length bs \<le> 128 * 1024"
proof -
  define es where "es = (case env of None \<Rightarrow> [] | Some xs \<Rightarrow> xs)"
  let ?p = "utf8_encode executable" and ?vs = "map utf8_encode (args @ es)" and ?enc = "\<lambda>v. le32 (int (length v)) @ v"
  from assms obtain pth vals where
    pv: "nul_free executable = Inr pth" "nul_free_all (args @ es) = Inr vals"
    and sz: "12 + length pth + sum_list (map (\<lambda>v. 4 + length v) vals) \<le> 128 * 1024" "length es \<le> 255" "length args \<le> 126"
    and bs: "bs = le32 (int (length args)) @ le32 (if env = None then 0xffffffff else int (length es)) @ le32 (int (length pth)) @ pth @
      concat (map ?enc vals)"
    by (auto simp: commandVector_def es_def Let_def elim!: bind_c_InrE split: if_splits)
  have pth: "pth = ?p" using pv(1) by (simp add: nul_free_def split: if_splits)
  have vs: "vals = map utf8_encode args @ map utf8_encode es" using nul_free_all_ok [OF pv(2)] by simp
  have small: "length v < 2 ^ 32" if "v \<in> set vals" for v
    using member_le_sum_list [of "4 + length v" "map (\<lambda>v. 4 + length v) vals"] sz(1) that by simp
  have len: "length bs = 12 + length pth + sum_list (map (\<lambda>v. 4 + length v) vals)"
    by (simp add: bs length_concat o_def)
  have a: "take_items (length args) (concat (map ?enc (map utf8_encode args)) @ xs) = (map utf8_encode args, xs)"
    and e: "take_items (length es) (concat (map ?enc (map utf8_encode es))) = (map utf8_encode es, [])" for xs
    using take_items_concat [of "map utf8_encode args" xs] take_items_concat [of "map utf8_encode es" "[]"] small vs by simp_all
  have heads: "get32 bs = length args" "get32 (drop 4 bs) = (if env = None then 0xffffffff else length es)" "get32 (drop 8 bs) = length pth"
    "drop 12 bs = pth @ concat (map ?enc vals)"
    using get32_le32_append [of "length args"] get32_le32_append [of "length es"] get32_le32_append [of "0xffffffff"]
      get32_le32_append [of "length pth"] sz by (simp_all add: bs)
  have "drop (12 + length pth) bs = concat (map ?enc vals)" using heads(4) by (metis append_eq_conv_conj drop_drop add.commute)
  then show ?thesis
    using a a [of "[]"] e sz(2) heads len sz(1) pth by (cases env) (auto simp: parse_vector_def vs es_def Let_def)
qed

theorem commandVector_roundtrip_witness:
  "\<exists>bs. commandVector [97] [[98, 233], []] (Some [[75, 61]]) = Inr bs \<and>
     parse_vector bs = (([97], [[98, 195, 169], []], Some [[75, 61]]), [])"
proof -
  obtain bs where bs: "commandVector [97] [[98, 233], []] (Some [[75, 61]]) = Inr bs"
    by (simp add: commandVector_def nul_free_def utf8_encode_def utf8_encode1_def scalar_def)
  from commandVector_roundtrip [OF bs] bs show ?thesis
    by (simp add: utf8_encode_def utf8_encode1_def scalar_def)
qed

end
