(* ===== verification/Spec2Isabelle.thy ===== *)
theory Spec2Isabelle
  imports Terminal_Modes Wat_Literal Renderer_Props Suite_Props
    Worker_Replies Worker_Buffers Worker_Report Worker_Events Loader_Props Native_Props App_Props Embedding_Props
begin

text \<open>
  A verification development for the browser runtime of WASTE, the JavaScript under \<open>src/html-rt/src\<close>,
  and of its embedding interface under \<open>src/html-rt/command\<close>.

  \<^bold>\<open>The program.\<close> WASTE runs WebAssembly programs and test scripts in an engine written in C and compiled to
  WebAssembly. In the browser a page (\<open>app.js\<close>) boots from a compressed archive (\<open>loader.js\<close>), starts a worker
  (\<open>worker.js\<close>) around the engine, and shows its terminal (\<open>terminal/model.js\<close>, \<open>terminal/renderer.js\<close>, with
  the font tables of \<open>terminal/glf.js\<close>). Page and worker exchange messages: keyboard input, signals and sizes
  go to the worker; output, requests for the clipboard, uploads, downloads, batch commands and the final
  report come back. The batch controller (\<open>test-suite.js\<close>) runs many such workers and judges their reports.
  Other pages run single commands through \<open>command/waste.mjs\<close> and its worker \<open>command/waste.worker.mjs\<close>.

  \<^bold>\<open>The theories.\<close> Each component has a theory of definitions and one or more theories of properties.
  \<^item> \<open>Waste_Prelude\<close>, \<open>Utf8\<close>, \<open>Waste_Config\<close>: JavaScript numbers, arrays, completions and errors; \<open>TextEncoder\<close> and
    \<open>TextDecoder\<close>; the values of \<open>WASTE_CONFIG\<close> and string helpers.
  \<^item> \<open>Terminal_Model\<close> (class \<open>TerminalModel\<close> of \<open>terminal/model.js\<close>, a definition per method), with the cell loops in
    \<open>Terminal_Cells\<close>, closed forms and the invariants \<open>wf\<close> and \<open>in_bounds\<close> in \<open>Terminal_Ops\<close>, the interface
    between the input state machine and the screen operations in \<open>Terminal_Safety\<close> (locales \<open>screen_ops\<close> and
    \<open>screen_modes\<close>), the rows a user sees in \<open>Terminal_Lines\<close>, and the properties in \<open>Terminal_Props\<close> and
    \<open>Terminal_Modes\<close>: sessions keep the state well-formed and in bounds, each screen operation refines an
    operation on rows, streams do not depend on their chunks, the alternate screen is isolated.
  \<^item> \<open>Wat_Float\<close>, \<open>Wat_Literal\<close>: the float literals of \<open>worker.js\<close> (\<open>watFloat\<close> and its helpers) are correctly rounded.
  \<^item> \<open>Glyph_Data\<close>, \<open>Glyphs\<close>, \<open>Renderer\<close>, \<open>Renderer_Props\<close>: the lookup tables of \<open>terminal/glf.js\<close>, the glyph lookup and its
    cache, resizing, painting and the coalescing of repaints of \<open>terminal/renderer.js\<close>: a paint succeeds and
    stays inside the index buffer, no repaint is lost.
  \<^item> \<open>Suite_Model\<close>, \<open>Suite_Props\<close>: \<open>test-suite.js\<close> with the concurrent batch as the step relation \<open>batch_step\<close> and one
    worker request as \<open>request_step\<close>: batches terminate and account for every test, requests settle once, a
    pass needs a complete report, the guest protocol round-trips, and a reply is accepted by the reader of
    \<open>commands/waste-test.c\<close> (\<open>waste_test_read\<close>).
  \<^item> \<open>Worker_Model\<close> (state, queues and \<open>onmessage\<close>) and \<open>Worker_Run\<close> (\<open>run\<close>, cut at its awaits, staging, the final report, and
    the interleaving \<open>worker_step\<close>) for \<open>worker.js\<close>. \<open>Worker_Frame\<close> is a calculus of triples for statements that may
    throw, with the locales \<open>worker_frame\<close>, \<open>control_frame\<close>, \<open>message_frame\<close> and \<open>loop_frame\<close>, which reduce an
    invariant of every interleaving to a few obligations; the theories \<open>Worker_Props\<close>, \<open>Worker_Replies\<close>,
    \<open>Worker_Buffers\<close>, \<open>Worker_Report\<close> and \<open>Worker_Events\<close> interpret them: queues are bounded, requests are fresh
    and answered ones resume the engine, buffers are released, the report agrees with the batch
    controller, early events are delivered once.
  \<^item> \<open>Browser_Native\<close>, \<open>Native_Props\<close>: \<open>runBrowserNative\<close> of \<open>worker.js\<close>, the host interface for fixtures: sound descriptor
    table, pipes are queues, the report is judged by its steps.
  \<^item> \<open>Loader\<close>, \<open>Loader_Props\<close>: the tar header checks, unpacking, installed files and the decompressor's
    memory of \<open>loader.js\<close>: accepted entries are inside the archive, names are safe, blocks are disjoint.
  \<^item> \<open>App_Page\<close>, \<open>App_Props\<close>: \<open>app.js\<close> as the step relation \<open>app_step\<close>: requests are answered once, the loader evidence is
    in order, messages of the page pass the checks of \<open>Worker_Model\<close>.
  \<^item> \<open>Embedding\<close>, \<open>Embedding_Props\<close>: the command record and the protocol between \<open>createWasteWorker\<close> and
    \<open>installWasteWorker\<close> as the step relation \<open>embedding_step\<close>: input arrives in order, each run gets the result of
    its own command, the record is read back exactly.

  \<^bold>\<open>Conventions.\<close> An object is a record, an exception the value \<open>Inl\<close>, an asynchronous function is cut at its awaits and
  the parts are interleaved by an inductive step relation. The engine's exports and memory, WebAssembly
  instances, the library tarballjs, the graphics context and the answers of the browser are parameters. Loops
  that the source bounds by a counter carry that counter as fuel (\<open>js_for\<close> is given the number of its
  iterations); no definition stops early for lack of fuel. \<open>worker_step\<close>, \<open>batch_step\<close>, \<open>request_step\<close>, \<open>app_step\<close>,
  \<open>embedding_step\<close> and \<open>host_step\<close> have no bound on the number of steps; termination of a batch is proved.

  \<^bold>\<open>Defects shown.\<close> Some theorems state what the code does where this differs from what it means to do: saving the cursor
  after a restore keeps the old position, \<open>CSI 2 K\<close> leaves the part before the cursor, fractional parameters
  leave undefined cells, output that ends inside a character corrupts later texts of the worker, a read
  behind the end of a fixture file returns a negative count, two quick starts leak a worker, and an input stream that cannot be opened
  leaves the worker of an embedded command busy until that command ends.

  \<^bold>\<open>Limits.\<close> Properties of the cell array at fractional indices are left out (\<open>js_get\<close>), BigInt has no size limit, and a
  terminated worker of the embedding may go on in the model. Conversions of results to the 32 or 64 bits of a
  WebAssembly signature are made by the engine and not by the modelled functions.

  \<^bold>\<open>Not modelled.\<close> The C sources (\<open>src/engine\<close>, \<open>src/cli-rt\<close>, \<open>src/html-rt/browser_api.c\<close> and \<open>browser_wast.c\<close>) and the guest
  programs (\<open>src/aux\<close>, and \<open>commands/waste-test.c\<close> except for its checks of a reply) are another program, which the
  runtime sees as exports. \<open>tests-worker.js\<close> repeats
  \<open>worker.js\<close> for the older test page; \<open>terminal/render-test.js\<close> compares pixels that the graphics card
  returns; \<open>createWaste\<close> of \<open>command/waste.mjs\<close> calls the exports of a separately built engine, and
  \<open>tools/package-embedding.mjs\<close> copies files. The files under \<open>src/vfs/root/app\<close> are installed copies of the modelled
  ones. Of the modelled files, shaders, buffer bindings, page elements, status texts, fetch and
  script loading only call the platform.
\<close>

end
